(* ===== verification/Prelude.thy ===== *)
theory Prelude
  imports Main "HOL-Library.Word" "HOL-Library.Monad_Syntax"
begin

text \<open>
  Shared vocabulary of the development: the machine types of the Rust sources, the partial
  operations of Rust slices, little-endian byte encodings, the total-correctness predicate
  \<open>awp\<close> for state-passing programs, and the interface \<open>codec\<close> of a fixed-width
  record format.

  A Rust computation that may panic is a value of an \<open>option\<close> type: \<open>None\<close> is the
  panic. A computation that uses the disk also takes the state of the host and returns it, so
  it has the type \<open>'s \<Rightarrow> ('a \<times> 's) option\<close>. Arithmetic is that of the release profile the
  repository builds (overflow wraps around).
\<close>

unbundle bit_operations_syntax

named_theorems awp_rules \<open>introduction rules for the total-correctness predicate\<close>

section \<open>Machine types\<close>

type_synonym byte = "8 word"
type_synonym u16 = "16 word"
type_synonym u32 = "32 word"
type_synonym u64 = "64 word"
type_synonym i64 = "64 word"

section \<open>Slices\<close>

text \<open>
  \<open>xs[i]\<close>, \<open>xs[a..b]\<close> and \<open>xs[a..b].copy_from_slice(ys)\<close>: each panics out of
  range, and the last one also when the lengths differ.
\<close>

definition index :: "'a list \<Rightarrow> nat \<Rightarrow> 'a option" where
  "index xs i = (if i < length xs then Some (xs ! i) else None)"

definition slice_range :: "'a list \<Rightarrow> nat \<Rightarrow> nat \<Rightarrow> 'a list option" where
  "slice_range xs a b = (if a \<le> b \<and> b \<le> length xs then Some (take (b - a) (drop a xs)) else None)"

definition overwrite :: "'a list \<Rightarrow> nat \<Rightarrow> 'a list \<Rightarrow> 'a list" where
  "overwrite xs a ys = take a xs @ ys @ drop (a + length ys) xs"

definition copy_from_slice :: "'a list \<Rightarrow> nat \<Rightarrow> nat \<Rightarrow> 'a list \<Rightarrow> 'a list option" where
  "copy_from_slice xs a b ys =
     (if a \<le> b \<and> b \<le> length xs \<and> length ys = b - a then Some (overwrite xs a ys) else None)"

section \<open>Little-endian encodings\<close>

text \<open>\<open>to_le_bytes\<close> and \<open>from_le_bytes\<close> of the integer types, at any width.\<close>

definition to_le_bytes :: "nat \<Rightarrow> 'a::len word \<Rightarrow> byte list" where
  "to_le_bytes n w = map (\<lambda>i. ucast (drop_bit (8 * i) w)) [0..<n]"

primrec from_le_bytes :: "byte list \<Rightarrow> 'a::len word" where
  "from_le_bytes [] = 0"
| "from_le_bytes (b # bs) = ucast b OR push_bit 8 (from_le_bytes bs)"

text \<open>The closures \<open>read_u16\<close>, \<open>read_u32\<close> and \<open>read_i64\<close> of the decoders: an integer at an offset.\<close>

definition read_u16 :: "byte list \<Rightarrow> nat \<Rightarrow> u16 option" where
  "read_u16 data offset = map_option from_le_bytes (slice_range data offset (offset + 2))"

definition read_u32 :: "byte list \<Rightarrow> nat \<Rightarrow> u32 option" where
  "read_u32 data offset = map_option from_le_bytes (slice_range data offset (offset + 4))"

definition read_i64 :: "byte list \<Rightarrow> nat \<Rightarrow> i64 option" where
  "read_i64 data offset = map_option from_le_bytes (slice_range data offset (offset + 8))"

text \<open>The bytes of an ASCII string literal.\<close>

definition ascii :: "string \<Rightarrow> byte list" where
  "ascii cs = map of_char cs"

section \<open>UTF-8\<close>

text \<open>\<open>std::str::from_utf8(..).is_ok()\<close>: the well-formed byte sequences of UTF-8.\<close>

definition utf8_cont :: "byte \<Rightarrow> bool" where
  "utf8_cont b \<longleftrightarrow> 0x80 \<le> b \<and> b \<le> 0xBF"

fun utf8_valid :: "byte list \<Rightarrow> bool" where
  "utf8_valid [] = True"
| "utf8_valid (b # bs) =
     (if b < 0x80 then utf8_valid bs
      else if 0xC2 \<le> b \<and> b \<le> 0xDF then
        (case bs of b1 # r \<Rightarrow> utf8_cont b1 \<and> utf8_valid r | [] \<Rightarrow> False)
      else if 0xE0 \<le> b \<and> b \<le> 0xEF then
        (case bs of b1 # b2 # r \<Rightarrow>
             utf8_cont b1 \<and> (b = 0xE0 \<longrightarrow> 0xA0 \<le> b1) \<and> (b = 0xED \<longrightarrow> b1 \<le> 0x9F) \<and>
             utf8_cont b2 \<and> utf8_valid r
         | _ \<Rightarrow> False)
      else if 0xF0 \<le> b \<and> b \<le> 0xF4 then
        (case bs of b1 # b2 # b3 # r \<Rightarrow>
             utf8_cont b1 \<and> (b = 0xF0 \<longrightarrow> 0x90 \<le> b1) \<and> (b = 0xF4 \<longrightarrow> b1 \<le> 0x8F) \<and>
             utf8_cont b2 \<and> utf8_cont b3 \<and> utf8_valid r
         | _ \<Rightarrow> False)
      else False)"

declare utf8_valid.simps(2) [simp del]

section \<open>Total correctness of state-passing programs\<close>

text \<open>
  \<open>awp ok view f Q v\<close>: from every good host state whose view is \<open>v\<close>, the program
  \<open>f\<close> returns (it does not panic), ends in a good state, and its result and the final
  view satisfy \<open>Q\<close>.
\<close>

definition awp :: "('s \<Rightarrow> bool) \<Rightarrow> ('s \<Rightarrow> 'v) \<Rightarrow> ('s \<Rightarrow> ('a \<times> 's) option) \<Rightarrow>
    ('a \<Rightarrow> 'v \<Rightarrow> bool) \<Rightarrow> 'v \<Rightarrow> bool" where
  "awp ok view f Q v \<longleftrightarrow>
     (\<forall>s. ok s \<and> view s = v \<longrightarrow> (\<exists>r s'. f s = Some (r, s') \<and> ok s' \<and> Q r (view s')))"

text \<open>\<open>panics ok view f v\<close>: from every good host state whose view is \<open>v\<close>, the program \<open>f\<close> panics.\<close>

definition panics :: "('s \<Rightarrow> bool) \<Rightarrow> ('s \<Rightarrow> 'v) \<Rightarrow> ('s \<Rightarrow> ('a \<times> 's) option) \<Rightarrow> 'v \<Rightarrow> bool" where
  "panics ok view f v \<longleftrightarrow> (\<forall>s. ok s \<and> view s = v \<longrightarrow> f s = None)"

section \<open>Lemmas on slices\<close>

lemma index_Some [simp]: "i < length xs \<Longrightarrow> index xs i = Some (xs ! i)"
  by (simp add: index_def)

lemma slice_Some [simp]:
  "a \<le> b \<Longrightarrow> b \<le> length xs \<Longrightarrow> slice_range xs a b = Some (take (b - a) (drop a xs))"
  by (simp add: slice_range_def)

lemma copy_from_slice_Some [simp]:
  "a \<le> b \<Longrightarrow> b \<le> length xs \<Longrightarrow> length ys = b - a \<Longrightarrow>
   copy_from_slice xs a b ys = Some (overwrite xs a ys)"
  by (simp add: copy_from_slice_def)

lemma length_splice [simp]: "a + length ys \<le> length xs \<Longrightarrow> length (overwrite xs a ys) = length xs"
  by (simp add: overwrite_def)

lemma nth_splice:
  "a + length ys \<le> length xs \<Longrightarrow> i < length xs \<Longrightarrow>
   overwrite xs a ys ! i = (if a \<le> i \<and> i < a + length ys then ys ! (i - a) else xs ! i)"
  by (auto simp: overwrite_def nth_append min_def)

lemma splice_same:
  "a + length ys \<le> length xs \<Longrightarrow> take (length ys) (drop a (overwrite xs a ys)) = ys"
  by (simp add: overwrite_def)

lemma splice_other:
  assumes "a + length ys \<le> length xs" and "b + n \<le> a \<or> a + length ys \<le> b" and "b + n \<le> length xs"
  shows "take n (drop b (overwrite xs a ys)) = take n (drop b xs)"
  using assms by (intro nth_equalityI) (auto simp: nth_splice)

lemma splice_id: "a + length ys \<le> length xs \<Longrightarrow> take (length ys) (drop a xs) = ys \<Longrightarrow> overwrite xs a ys = xs"
  by (metis append_take_drop_id drop_drop overwrite_def add.commute)

section \<open>Lemmas on words\<close>

lemma unat_inc: "(a :: 'a::len word) < b \<Longrightarrow> unat (a + 1) = unat a + 1"
proof -
  assume "a < b"
  then have "unat a + 1 < 2 ^ LENGTH('a)"
    using unsigned_less [of b, where ?'a = nat] unfolding word_less_nat_alt by linarith
  then show ?thesis by (simp add: unat_word_ariths)
qed

lemma unat_eqD: "unat (a :: 'a::len word) = unat b \<Longrightarrow> a = b"
  by (simp add: word_unat_eq_iff)

section \<open>Lemmas on the encodings\<close>

lemma length_to_le_bytes [simp]: "length (to_le_bytes n w) = n"
  by (simp add: to_le_bytes_def)

lemma to_le_bytes_0 [simp]: "to_le_bytes 0 w = []"
  by (simp add: to_le_bytes_def)

lemma to_le_bytes_Suc: "to_le_bytes (Suc n) w = ucast w # to_le_bytes n (drop_bit 8 w)"
  by (simp add: to_le_bytes_def upt_conv_Cons map_Suc_upt [symmetric] del: upt_Suc)
     (simp add: drop_bit_drop_bit ac_simps)

lemma from_to_le_bytes: "from_le_bytes (to_le_bytes n w) = take_bit (8 * n) w"
proof (induction n arbitrary: w)
  case 0
  show ?case by simp
next
  case (Suc n)
  have "ucast (ucast w :: byte) OR push_bit 8 (take_bit (8 * n) (drop_bit 8 w)) = take_bit (8 * Suc n) w"
    by (rule bit_eqI) (auto simp: bit_simps)
  with Suc show ?case by (simp add: to_le_bytes_Suc)
qed

lemma from_to_le_u16 [simp]: "from_le_bytes (to_le_bytes 2 w) = (w :: u16)"
  using from_to_le_bytes [of 2 w] by (simp add: take_bit_word_eq_self)

lemma from_to_le_u32 [simp]: "from_le_bytes (to_le_bytes 4 w) = (w :: u32)"
  using from_to_le_bytes [of 4 w] by (simp add: take_bit_word_eq_self)

lemma from_to_le_u64 [simp]: "from_le_bytes (to_le_bytes 8 w) = (w :: u64)"
  using from_to_le_bytes [of 8 w] by (simp add: take_bit_word_eq_self)

lemma to_from_le_bytes:
  "8 * length bs \<le> LENGTH('a) \<Longrightarrow> to_le_bytes (length bs) (from_le_bytes bs :: 'a::len word) = bs"
proof (induction bs)
  case Nil
  show ?case by simp
next
  case (Cons b bs)
  let ?w = "from_le_bytes bs :: 'a word"
  have "ucast (ucast b OR push_bit 8 ?w) = b"
    using Cons.prems by (intro bit_eqI) (auto simp: bit_simps)
  moreover have "to_le_bytes (length bs) (drop_bit 8 (ucast b OR push_bit 8 ?w)) = to_le_bytes (length bs) ?w"
    unfolding to_le_bytes_def
    using Cons.prems by (intro map_cong refl bit_eqI) (auto simp: bit_simps dest: bit_imp_le_length)
  ultimately show ?case using Cons by (simp add: to_le_bytes_Suc)
qed

lemma slice_skip [simp]:
  "length xs \<le> a \<Longrightarrow> a \<le> b \<Longrightarrow> slice_range (xs @ ys) a b = slice_range ys (a - length xs) (b - length xs)"
  by (auto simp: slice_range_def)

lemma slice_skip_add:
  "length xs \<le> a \<Longrightarrow> slice_range (xs @ ys) a (a + k) = slice_range ys (a - length xs) (a - length xs + k)"
  by (auto simp: slice_range_def)

lemma slice_hit [simp]: "n = length xs \<Longrightarrow> slice_range (xs @ ys) 0 n = Some xs"
  by (simp add: slice_range_def)

lemma read_u16_hit [simp]: "read_u16 (to_le_bytes 2 w @ ys) 0 = Some w"
  by (simp add: read_u16_def)

lemma read_u32_hit [simp]: "read_u32 (to_le_bytes 4 w @ ys) 0 = Some w"
  by (simp add: read_u32_def)

lemma read_i64_hit [simp]: "read_i64 (to_le_bytes 8 w @ ys) 0 = Some w"
  by (simp add: read_i64_def)

lemma read_u16_skip [simp]: "length xs \<le> a \<Longrightarrow> read_u16 (xs @ ys) a = read_u16 ys (a - length xs)"
  unfolding read_u16_def by (simp only: slice_skip_add)

lemma read_u32_skip [simp]: "length xs \<le> a \<Longrightarrow> read_u32 (xs @ ys) a = read_u32 ys (a - length xs)"
  unfolding read_u32_def by (simp only: slice_skip_add)

lemma read_i64_skip [simp]: "length xs \<le> a \<Longrightarrow> read_i64 (xs @ ys) a = read_i64 ys (a - length xs)"
  unfolding read_i64_def by (simp only: slice_skip_add)

lemma ucast_up_down: "ucast (ucast (n :: u32) :: u64) = n"
  by (simp add: unsigned_ucast_eq take_bit_word_eq_self)

section \<open>Lemmas on total correctness\<close>

lemma awpI:
  "(\<And>s. ok s \<Longrightarrow> view s = v \<Longrightarrow> \<exists>r s'. f s = Some (r, s') \<and> ok s' \<and> Q r (view s')) \<Longrightarrow> awp ok view f Q v"
  by (simp add: awp_def)

lemma awpD:
  "awp ok view f Q v \<Longrightarrow> ok s \<Longrightarrow> view s = v \<Longrightarrow> \<exists>r s'. f s = Some (r, s') \<and> ok s' \<and> Q r (view s')"
  by (simp add: awp_def)

lemma awp_return [awp_rules]: "Q x v \<Longrightarrow> awp ok view (\<lambda>s. Some (x, s)) Q v"
  by (simp add: awp_def)

lemma awp_bind [awp_rules]:
  "awp ok view f (\<lambda>r. awp ok view (\<lambda>s. g (r, s)) Q) v \<Longrightarrow> awp ok view (\<lambda>s. Option.bind (f s) g) Q v"
  by (fastforce simp: awp_def)

lemma awp_mono:
  "awp ok view f P v \<Longrightarrow> (\<And>r v'. P r v' \<Longrightarrow> Q r v') \<Longrightarrow> awp ok view f Q v"
  by (fastforce simp: awp_def)

lemma awp_conj:
  "awp ok view f P v \<Longrightarrow> awp ok view f Q v \<Longrightarrow> awp ok view f (\<lambda>r v'. P r v' \<and> Q r v') v"
  by (fastforce simp: awp_def)

lemma awp_if [awp_rules]:
  "(c \<Longrightarrow> awp ok view f Q v) \<Longrightarrow> (\<not> c \<Longrightarrow> awp ok view g Q v) \<Longrightarrow>
   awp ok view (\<lambda>s. if c then f s else g s) Q v"
  by (cases c) simp_all

lemma awp_case_option [awp_rules]:
  "(x = None \<Longrightarrow> awp ok view f Q v) \<Longrightarrow> (\<And>y. x = Some y \<Longrightarrow> awp ok view (g y) Q v) \<Longrightarrow>
   awp ok view (\<lambda>s. case x of None \<Rightarrow> f s | Some y \<Rightarrow> g y s) Q v"
  by (cases x) simp_all

lemma awp_case_prod [awp_rules]:
  "(\<And>a b. p = (a, b) \<Longrightarrow> awp ok view (g a b) Q v) \<Longrightarrow> awp ok view (\<lambda>s. case p of (a, b) \<Rightarrow> g a b s) Q v"
  by (cases p) simp_all

lemma awp_view:
  "(\<And>s. ok s \<Longrightarrow> view s = v \<Longrightarrow> awp ok view f Q v) \<Longrightarrow> awp ok view f Q v"
  by (auto simp: awp_def)

lemma panics_None: "panics ok view (\<lambda>s. None) v"
  by (simp add: panics_def)

lemma panics_bind:
  "awp ok view f (\<lambda>r. panics ok view (\<lambda>s. g (r, s))) v \<Longrightarrow> panics ok view (\<lambda>s. Option.bind (f s) g) v"
  by (fastforce simp: awp_def panics_def)

lemma panics_first: "panics ok view f v \<Longrightarrow> panics ok view (\<lambda>s. Option.bind (f s) g) v"
  by (auto simp: panics_def)

section \<open>Interface: a fixed-width record format\<close>

text \<open>
  \<open>enc\<close> writes a well-formed record as exactly \<open>width\<close> bytes and \<open>dec\<close> reads it
  back; \<open>dec\<close> looks at the first \<open>width\<close> bytes only. The laws suffice to read a
  record out of a buffer that holds it at some offset.
\<close>

locale codec =
  fixes enc :: "'a \<Rightarrow> byte list"
    and dec :: "byte list \<Rightarrow> 'a option"
    and width :: nat
    and wf :: "'a \<Rightarrow> bool"
  assumes enc_width: "wf x \<Longrightarrow> length (enc x) = width"
    and dec_enc: "wf x \<Longrightarrow> dec (enc x) = Some x"
begin

lemma enc_inj: "wf x \<Longrightarrow> wf y \<Longrightarrow> enc x = enc y \<Longrightarrow> x = y"
  by (metis dec_enc option.inject)

lemma dec_splice_same:
  "wf x \<Longrightarrow> a + width \<le> length buf \<Longrightarrow> dec (take width (drop a (overwrite buf a (enc x)))) = Some x"
  by (metis dec_enc enc_width splice_same)

lemma slot_splice_other:
  "wf x \<Longrightarrow> i \<noteq> j \<Longrightarrow> (i + 1) * width \<le> length buf \<Longrightarrow> (j + 1) * width \<le> length buf \<Longrightarrow>
   take width (drop (j * width) (overwrite buf (i * width) (enc x))) = take width (drop (j * width) buf)"
proof (rule splice_other)
  assume "wf x" "i \<noteq> j"
  then have "i < j \<or> j < i" by auto
  then have "(i + 1) * width \<le> j * width \<or> (j + 1) * width \<le> i * width"
    by (metis Suc_eq_plus1 Suc_leI mult_le_mono1)
  then show "j * width + width \<le> i * width \<or> i * width + length (enc x) \<le> j * width"
    using enc_width [OF \<open>wf x\<close>] by auto
qed (auto simp: enc_width)

end

end
