(* ===== verification/Disk.thy ===== *)
theory Disk
  imports Prelude
begin

text \<open>
  The disk layer, \<open>src/src/disk.rs\<close>. The system calls are not part of the repository:
  they are the fields of a record \<open>host\<close>, a parameter of every operation, and what the
  code relies on is the predicate \<open>posix_host\<close> (the documented behaviour of the calls on
  an open regular file). The predicate \<open>disk_ok\<close> says that a host state has the disk image
  open at its full size; \<open>blocks\<close> reads the image as 512-byte blocks. The interface
  \<open>block_device\<close> is what every layer above relies on, and \<open>read_block\<close> and
  \<open>write_block\<close> implement it on any host that satisfies \<open>posix_host\<close>.
\<close>

section \<open>The host\<close>

text \<open>
  The system calls of the \<open>libc\<close> crate and the wall clock, over an abstract host state
  \<open>'s\<close>. A call returns its C result and the next state; \<open>sys_read\<close> also returns the
  bytes stored in the buffer and \<open>sys_fstat\<close> the field \<open>st_size\<close>. \<open>sys_time\<close> is
  the time in seconds relative to the Unix epoch (negative before it). The last two fields
  observe the state and are used in hypotheses only: the bytes of the file open at a
  descriptor, and its file offset.
\<close>

record 's host =
  sys_open :: "string \<Rightarrow> int \<Rightarrow> int \<Rightarrow> 's \<Rightarrow> int \<times> 's"
  sys_fstat :: "int \<Rightarrow> 's \<Rightarrow> (int \<times> int) \<times> 's"
  sys_ftruncate :: "int \<Rightarrow> int \<Rightarrow> 's \<Rightarrow> int \<times> 's"
  sys_lseek :: "int \<Rightarrow> int \<Rightarrow> 's \<Rightarrow> int \<times> 's"
  sys_read :: "int \<Rightarrow> nat \<Rightarrow> 's \<Rightarrow> (int \<times> byte list) \<times> 's"
  sys_write :: "int \<Rightarrow> byte list \<Rightarrow> 's \<Rightarrow> int \<times> 's"
  sys_fsync :: "int \<Rightarrow> 's \<Rightarrow> int \<times> 's"
  sys_close :: "int \<Rightarrow> 's \<Rightarrow> int \<times> 's"
  sys_time :: "'s \<Rightarrow> int \<times> 's"
  file_bytes :: "int \<Rightarrow> 's \<Rightarrow> byte list option"
  file_pos :: "int \<Rightarrow> 's \<Rightarrow> nat"

text \<open>The flags of \<open>libc::open\<close> on Linux; the mode \<open>0o666\<close> is 438.\<close>

definition O_WRONLY :: int where "O_WRONLY = 1"
definition O_RDWR :: int where "O_RDWR = 2"
definition O_CREAT :: int where "O_CREAT = 64"

text \<open>The documented behaviour of the calls on a descriptor open for reading and writing.\<close>

definition posix_host :: "'s host \<Rightarrow> bool" where
  "posix_host h \<longleftrightarrow>
     (\<forall>fd c s. file_bytes h fd s = Some c \<longrightarrow>
       (\<forall>off. 0 \<le> off \<longrightarrow> (\<exists>s'. sys_lseek h fd off s = (off, s') \<and>
            file_bytes h fd s' = Some c \<and> file_pos h fd s' = nat off)) \<and>
       (\<forall>n. \<exists>s'. sys_read h fd n s =
              ((int (length (take n (drop (file_pos h fd s) c))), take n (drop (file_pos h fd s) c)), s') \<and>
            file_bytes h fd s' = Some c) \<and>
       (\<forall>bs. file_pos h fd s + length bs \<le> length c \<longrightarrow>
          (\<exists>s'. sys_write h fd bs s = (int (length bs), s') \<and>
            file_bytes h fd s' = Some (overwrite c (file_pos h fd s) bs))) \<and>
       (\<exists>r s'. sys_fsync h fd s = (r, s') \<and> file_bytes h fd s' = Some c) \<and>
       (\<exists>s'. sys_fstat h fd s = ((0, int (length c)), s') \<and> file_bytes h fd s' = Some c) \<and>
       (\<forall>n. \<exists>s'. sys_ftruncate h fd (int n) s = (0, s') \<and>
            file_bytes h fd s' = Some (take n c @ replicate (n - length c) 0)) \<and>
       (\<exists>t s'. sys_time h s = (t, s') \<and> 0 \<le> t \<and> file_bytes h fd s' = Some c))"

section \<open>Constants and the disk handle\<close>

definition DISK_SIZE :: nat where "DISK_SIZE = 10 * 1024 * 1024"
definition BLOCK_SIZE :: nat where "BLOCK_SIZE = 512"
definition PAGE_SIZE :: nat where "PAGE_SIZE = BLOCK_SIZE - 2"
definition MAX_BLOCKS :: u32 where "MAX_BLOCKS = of_nat DISK_SIZE div of_nat BLOCK_SIZE"

record 's Disk =
  disk_host :: "'s host"
  disk_fd :: int

section \<open>Operations\<close>

text \<open>
  \<open>Disk::open\<close>: \<open>CString::new\<close> refuses a path with a NUL byte, and a negative descriptor
  panics.
\<close>

definition disk_open :: "'s host \<Rightarrow> string \<Rightarrow> 's \<Rightarrow> ('s Disk \<times> 's) option" where
  "disk_open h path s =
     (if CHR 0x00 \<in> set path then None
      else let (fd, s) = sys_open h path (O_RDWR + O_CREAT) 438 s
           in if fd < 0 then None else Some (\<lparr>disk_host = h, disk_fd = fd\<rparr>, s))"

definition disk_size :: "'s Disk \<Rightarrow> 's \<Rightarrow> (u64 \<times> 's) option" where
  "disk_size d s =
     (let ((ret, st_size), s) = sys_fstat (disk_host d) (disk_fd d) s
      in if ret < 0 then None else Some (of_int st_size, s))"

definition disk_truncate :: "'s Disk \<Rightarrow> nat \<Rightarrow> 's \<Rightarrow> (unit \<times> 's) option" where
  "disk_truncate d sz s =
     (let (ret, s) = sys_ftruncate (disk_host d) (disk_fd d) (int sz) s
      in if ret < 0 then None else Some ((), s))"

text \<open>
  \<open>read_block\<close> in two parts: the system calls, with the state they leave also when the
  function panics (needed where \<open>mount\<close> catches the panic), and the panic itself.
\<close>

definition read_block_io :: "'s Disk \<Rightarrow> u32 \<Rightarrow> 's \<Rightarrow> byte list option \<times> 's" where
  "read_block_io d block_num s =
     (let offset = uint block_num * int BLOCK_SIZE;
          (ret, s) = sys_lseek (disk_host d) (disk_fd d) offset s
      in if ret < 0 then (None, s)
         else let ((n, buf), s) = sys_read (disk_host d) (disk_fd d) BLOCK_SIZE s
              in if n \<noteq> int BLOCK_SIZE then (None, s) else (Some buf, s))"

definition read_block :: "'s Disk \<Rightarrow> u32 \<Rightarrow> 's \<Rightarrow> (byte list \<times> 's) option" where
  "read_block d block_num s =
     (case read_block_io d block_num s of (None, _) \<Rightarrow> None | (Some buf, s) \<Rightarrow> Some (buf, s))"

text \<open>
  \<open>write_block\<close> passes \<open>BLOCK_SIZE\<close> bytes from the buffer's address to \<open>write\<close>; a
  shorter buffer would be read out of bounds, which has no meaning, so it is \<open>None\<close> here.
\<close>

definition write_block :: "'s Disk \<Rightarrow> u32 \<Rightarrow> byte list \<Rightarrow> 's \<Rightarrow> (unit \<times> 's) option" where
  "write_block d block_num buf s =
     (if length buf < BLOCK_SIZE then None
      else let offset = uint block_num * int BLOCK_SIZE;
               (ret, s) = sys_lseek (disk_host d) (disk_fd d) offset s
           in if ret < 0 then None
              else let (n, s) = sys_write (disk_host d) (disk_fd d) (take BLOCK_SIZE buf) s
                   in if n \<noteq> int BLOCK_SIZE then None
                      else let (_, s) = sys_fsync (disk_host d) (disk_fd d) s
                           in Some ((), s))"

definition read_partial :: "'s Disk \<Rightarrow> u32 \<Rightarrow> nat \<Rightarrow> nat \<Rightarrow> byte list \<Rightarrow> 's \<Rightarrow> (byte list \<times> 's) option" where
  "read_partial d block_num offset len buf s = do {
     (block_buf, s) \<leftarrow> read_block d block_num s;
     let end = min (offset + len) BLOCK_SIZE;
     part \<leftarrow> slice_range block_buf offset end;
     buf \<leftarrow> copy_from_slice buf 0 (end - offset) part;
     Some (buf, s) }"

definition write_partial :: "'s Disk \<Rightarrow> u32 \<Rightarrow> nat \<Rightarrow> byte list \<Rightarrow> 's \<Rightarrow> (unit \<times> 's) option" where
  "write_partial d block_num offset data s = do {
     (block_buf, s) \<leftarrow> read_block d block_num s;
     let end = min (offset + length data) PAGE_SIZE;
     part \<leftarrow> slice_range data 0 (end - offset);
     block_buf \<leftarrow> copy_from_slice block_buf offset end part;
     write_block d block_num block_buf s }"

definition disk_drop :: "'s Disk \<Rightarrow> 's \<Rightarrow> 's" where
  "disk_drop d s = snd (sys_close (disk_host d) (disk_fd d) s)"

section \<open>The image as blocks\<close>

type_synonym volume = "nat \<Rightarrow> byte list"

definition disk_image :: "'s Disk \<Rightarrow> 's \<Rightarrow> byte list option" where
  "disk_image d s = file_bytes (disk_host d) (disk_fd d) s"

definition blocks :: "'s Disk \<Rightarrow> 's \<Rightarrow> volume" where
  "blocks d s b = take BLOCK_SIZE (drop (BLOCK_SIZE * b) (the (disk_image d s)))"

definition disk_ok :: "'s Disk \<Rightarrow> 's \<Rightarrow> bool" where
  "disk_ok d s \<longleftrightarrow> posix_host (disk_host d) \<and> (\<exists>c. disk_image d s = Some c \<and> length c = DISK_SIZE)"

abbreviation dwp :: "'s Disk \<Rightarrow> ('s \<Rightarrow> ('a \<times> 's) option) \<Rightarrow> ('a \<Rightarrow> volume \<Rightarrow> bool) \<Rightarrow> volume \<Rightarrow> bool" where
  "dwp d \<equiv> awp (disk_ok d) (blocks d)"

abbreviation dpanics :: "'s Disk \<Rightarrow> ('s \<Rightarrow> ('a \<times> 's) option) \<Rightarrow> volume \<Rightarrow> bool" where
  "dpanics d \<equiv> panics (disk_ok d) (blocks d)"

definition vol :: "volume \<Rightarrow> bool" where
  "vol v \<longleftrightarrow> (\<forall>b < 20480. length (v b) = BLOCK_SIZE)"

section \<open>Interface: a block device\<close>

text \<open>
  A device \<open>d\<close> in a good state has \<open>cap\<close> blocks of \<open>bsize\<close> bytes. A read returns the
  block and changes no block; a write replaces the block and changes no other.
\<close>

locale block_device =
  fixes rd :: "'d \<Rightarrow> u32 \<Rightarrow> 's \<Rightarrow> (byte list \<times> 's) option"
    and wr :: "'d \<Rightarrow> u32 \<Rightarrow> byte list \<Rightarrow> 's \<Rightarrow> (unit \<times> 's) option"
    and ok :: "'d \<Rightarrow> 's \<Rightarrow> bool"
    and blk :: "'d \<Rightarrow> 's \<Rightarrow> nat \<Rightarrow> byte list"
    and cap :: nat
    and bsize :: nat
  assumes blk_length: "ok d s \<Longrightarrow> i < cap \<Longrightarrow> length (blk d s i) = bsize"
    and rd_law: "ok d s \<Longrightarrow> unat b < cap \<Longrightarrow>
      \<exists>s'. rd d b s = Some (blk d s (unat b), s') \<and> ok d s' \<and> blk d s' = blk d s"
    and wr_law: "ok d s \<Longrightarrow> unat b < cap \<Longrightarrow> length buf = bsize \<Longrightarrow>
      \<exists>s'. wr d b buf s = Some ((), s') \<and> ok d s' \<and> blk d s' = (blk d s)(unat b := buf)"
begin

lemma rd_awp: "unat b < cap \<Longrightarrow> Q (v (unat b)) v \<Longrightarrow> awp (ok d) (blk d) (rd d b) Q v"
  using rd_law by (fastforce intro: awpI)

lemma wr_awp:
  "unat b < cap \<Longrightarrow> length buf = bsize \<Longrightarrow> Q () (v(unat b := buf)) \<Longrightarrow>
   awp (ok d) (blk d) (wr d b buf) Q v"
  using wr_law by (fastforce intro: awpI)

lemma length_awp:
  "((\<And>b. b < cap \<Longrightarrow> length (v b) = bsize) \<Longrightarrow> awp (ok d) (blk d) f Q v) \<Longrightarrow> awp (ok d) (blk d) f Q v"
  using blk_length by (metis awp_view)

lemma rd_after_wr:
  assumes "ok d s" "unat b < cap" "unat c < cap" "length buf = bsize"
  shows "\<exists>s1 s2. wr d b buf s = Some ((), s1) \<and> ok d s2 \<and>
    rd d c s1 = Some (if c = b then buf else blk d s (unat c), s2)"
proof -
  obtain s1 where s1: "wr d b buf s = Some ((), s1)" "ok d s1" "blk d s1 = (blk d s)(unat b := buf)"
    using wr_law assms by blast
  obtain s2 where "rd d c s1 = Some (blk d s1 (unat c), s2)" "ok d s2"
    using rd_law [OF s1(2) assms(3)] by blast
  with s1 show ?thesis by (auto dest: word_unat_eq_iff [THEN iffD2])
qed

end

section \<open>The disk is a block device\<close>

lemma BLOCK_SIZE_eq [simp]: "BLOCK_SIZE = 512" by (simp add: BLOCK_SIZE_def)
lemma PAGE_SIZE_eq [simp]: "PAGE_SIZE = 510" by (simp add: PAGE_SIZE_def)
lemma DISK_SIZE_eq [simp]: "DISK_SIZE = 10485760" by (simp add: DISK_SIZE_def)
lemma MAX_BLOCKS_eq [simp]: "MAX_BLOCKS = 20480" by (simp add: MAX_BLOCKS_def)

lemma posix_lseek:
  "posix_host h \<Longrightarrow> file_bytes h fd s = Some c \<Longrightarrow> 0 \<le> off \<Longrightarrow>
   \<exists>s'. sys_lseek h fd off s = (off, s') \<and> file_bytes h fd s' = Some c \<and> file_pos h fd s' = nat off"
  unfolding posix_host_def by blast

lemma posix_read:
  "posix_host h \<Longrightarrow> file_bytes h fd s = Some c \<Longrightarrow>
   \<exists>s'. sys_read h fd n s =
      ((int (length (take n (drop (file_pos h fd s) c))), take n (drop (file_pos h fd s) c)), s') \<and>
    file_bytes h fd s' = Some c"
  unfolding posix_host_def by blast

lemma posix_write:
  "posix_host h \<Longrightarrow> file_bytes h fd s = Some c \<Longrightarrow> file_pos h fd s + length bs \<le> length c \<Longrightarrow>
   \<exists>s'. sys_write h fd bs s = (int (length bs), s') \<and>
    file_bytes h fd s' = Some (overwrite c (file_pos h fd s) bs)"
  unfolding posix_host_def by blast

lemma posix_fsync:
  "posix_host h \<Longrightarrow> file_bytes h fd s = Some c \<Longrightarrow>
   \<exists>r s'. sys_fsync h fd s = (r, s') \<and> file_bytes h fd s' = Some c"
  unfolding posix_host_def by blast

lemma posix_fstat:
  "posix_host h \<Longrightarrow> file_bytes h fd s = Some c \<Longrightarrow>
   \<exists>s'. sys_fstat h fd s = ((0, int (length c)), s') \<and> file_bytes h fd s' = Some c"
  unfolding posix_host_def by blast

lemma posix_ftruncate:
  "posix_host h \<Longrightarrow> file_bytes h fd s = Some c \<Longrightarrow>
   \<exists>s'. sys_ftruncate h fd (int n) s = (0, s') \<and>
    file_bytes h fd s' = Some (take n c @ replicate (n - length c) 0)"
  unfolding posix_host_def by blast

lemma posix_time:
  "posix_host h \<Longrightarrow> file_bytes h fd s = Some c \<Longrightarrow>
   \<exists>t s'. sys_time h s = (t, s') \<and> 0 \<le> t \<and> file_bytes h fd s' = Some c"
  unfolding posix_host_def by blast

text \<open>\<open>read_block\<close> on an image of any size: the block, or a panic when it is cut short.\<close>

lemma read_block_io_image:
  assumes "posix_host (disk_host d)" and "disk_image d s = Some c"
  shows "\<exists>s'. read_block_io d b s =
      (if 512 * unat b + 512 \<le> length c then Some (take 512 (drop (512 * unat b) c)) else None, s') \<and>
    disk_image d s' = Some c"
proof -
  obtain s1 where s1: "sys_lseek (disk_host d) (disk_fd d) (uint b * 512) s = (uint b * 512, s1)"
      "file_bytes (disk_host d) (disk_fd d) s1 = Some c"
      "file_pos (disk_host d) (disk_fd d) s1 = nat (uint b * 512)"
    using posix_lseek [of "disk_host d" "disk_fd d" s c "uint b * 512"] assms
    by (auto simp: disk_image_def)
  have pos: "nat (uint b * 512) = 512 * unat b"
    by (simp add: nat_mult_distrib)
  obtain s2 where "sys_read (disk_host d) (disk_fd d) 512 s1 =
      ((int (length (take 512 (drop (512 * unat b) c))), take 512 (drop (512 * unat b) c)), s2)"
      "file_bytes (disk_host d) (disk_fd d) s2 = Some c"
    using posix_read [OF assms(1) s1(2), of 512] s1(3) pos by auto
  with s1 show ?thesis
    by (auto simp: read_block_io_def disk_image_def Let_def)
qed

text \<open>A block behind the end of a short image.\<close>

lemma read_block_short:
  assumes "posix_host (disk_host d)" "disk_image d s = Some c" "length c < 512 * (unat b + 1)"
  shows "read_block d b s = None"
  using read_block_io_image [OF assms(1,2), of b] assms(3) by (auto simp: read_block_def)

lemma blocks_length: "disk_ok d s \<Longrightarrow> b < 20480 \<Longrightarrow> length (blocks d s b) = 512"
  by (auto simp: disk_ok_def blocks_def)

lemma read_block_law:
  assumes "disk_ok d s" and "unat b < 20480"
  shows "\<exists>s'. read_block d b s = Some (blocks d s (unat b), s') \<and> disk_ok d s' \<and> blocks d s' = blocks d s"
proof -
  obtain c where c: "disk_image d s = Some c" "length c = 10485760" "posix_host (disk_host d)"
    using assms by (auto simp: disk_ok_def)
  then obtain s' where "read_block_io d b s = (Some (take 512 (drop (512 * unat b) c)), s')"
      "disk_image d s' = Some c"
    using read_block_io_image [OF c(3,1), of b] assms(2) by auto
  with c show ?thesis
    by (auto simp: read_block_def disk_ok_def blocks_def fun_eq_iff)
qed

lemma blocks_splice:
  assumes "length c = 10485760" "b < 20480" "length buf = 512"
  shows "(\<lambda>i. take 512 (drop (512 * i) (overwrite c (512 * b) buf))) =
    (\<lambda>i. take 512 (drop (512 * i) c))(b := buf)"
proof (rule ext)
  fix i
  consider "i = b" | "i \<noteq> b" "i < 20480" | "20480 \<le> i" by linarith
  then show "take 512 (drop (512 * i) (overwrite c (512 * b) buf)) =
      ((\<lambda>i. take 512 (drop (512 * i) c))(b := buf)) i"
  proof cases
    case 1
    with assms splice_same [of "512 * b" buf c] show ?thesis by simp
  next
    case 2
    with assms show ?thesis
      by (subst splice_other) auto
  next
    case 3
    with assms show ?thesis by auto
  qed
qed

lemma write_block_law:
  assumes "disk_ok d s" and "unat b < 20480" and "length buf = 512"
  shows "\<exists>s'. write_block d b buf s = Some ((), s') \<and> disk_ok d s' \<and>
    blocks d s' = (blocks d s)(unat b := buf)"
proof -
  let ?h = "disk_host d" and ?f = "disk_fd d"
  obtain c where c: "file_bytes ?h ?f s = Some c" "length c = 10485760" "posix_host ?h"
    using assms by (auto simp: disk_ok_def disk_image_def)
  obtain s1 where s1: "sys_lseek ?h ?f (uint b * 512) s = (uint b * 512, s1)"
      "file_bytes ?h ?f s1 = Some c" "file_pos ?h ?f s1 = 512 * unat b"
    using posix_lseek [OF c(3,1), of "uint b * 512"] by (auto simp: nat_mult_distrib)
  obtain s2 where s2: "sys_write ?h ?f buf s1 = (512, s2)"
      "file_bytes ?h ?f s2 = Some (overwrite c (512 * unat b) buf)"
    using posix_write [OF c(3) s1(2), of buf] s1(3) c(2) assms by auto
  obtain r s3 where s3: "sys_fsync ?h ?f s2 = (r, s3)"
      "file_bytes ?h ?f s3 = Some (overwrite c (512 * unat b) buf)"
    using posix_fsync [OF c(3) s2(2)] by auto
  have "write_block d b buf s = Some ((), s3)"
    using s1 s2 s3 assms by (simp add: write_block_def)
  moreover have "disk_ok d s3"
    using s3 c assms by (auto simp: disk_ok_def disk_image_def)
  moreover have "blocks d s3 = (blocks d s)(unat b := buf)"
    using blocks_splice [OF c(2) assms(2,3)] s3 c(1)
    by (simp add: blocks_def [abs_def] disk_image_def fun_upd_def fun_eq_iff)
  ultimately show ?thesis by blast
qed

interpretation dev: block_device read_block write_block disk_ok blocks 20480 512
  by unfold_locales (auto simp: blocks_length read_block_law write_block_law)

lemma read_block_awp [awp_rules]:
  "unat b < 20480 \<Longrightarrow> Q (v (unat b)) v \<Longrightarrow> dwp d (read_block d b) Q v"
  by (rule dev.rd_awp)

lemma write_block_awp [awp_rules]:
  "unat b < 20480 \<Longrightarrow> length buf = 512 \<Longrightarrow> Q () (v(unat b := buf)) \<Longrightarrow> dwp d (write_block d b buf) Q v"
  by (rule dev.wr_awp)

lemma dwp_vol: "(vol v \<Longrightarrow> dwp d f Q v) \<Longrightarrow> dwp d f Q v"
  by (rule dev.length_awp) (simp add: vol_def)

lemma dwp_run:
  "dwp d f Q (blocks d s) \<Longrightarrow> disk_ok d s \<Longrightarrow> \<exists>r s'. f s = Some (r, s') \<and> disk_ok d s' \<and> Q r (blocks d s')"
  by (simp add: awp_def)

lemma dpanics_run: "dpanics d f (blocks d s) \<Longrightarrow> disk_ok d s \<Longrightarrow> f s = None"
  by (simp add: panics_def)

lemma disk_ok_vol: "disk_ok d s \<Longrightarrow> vol (blocks d s)"
  by (simp add: vol_def blocks_length)

lemma vol_length [simp]: "vol v \<Longrightarrow> b < 20480 \<Longrightarrow> length (v b) = 512"
  by (simp add: vol_def)

lemma vol_upd [simp]: "vol v \<Longrightarrow> length buf = 512 \<Longrightarrow> vol (v(b := buf))"
  by (simp add: vol_def)

end
