(* ===== verification/Superblock.thy ===== *)
theory Superblock
  imports Disk
begin

text \<open>
  The superblock, \<open>src/src/superblock.rs\<close>: its record, its 44-byte encoding, the layout that
  \<open>init_superblock\<close> computes, and reading and writing it in block 0.
\<close>

section \<open>The record and its encoding\<close>

record SuperBlock =
  magic :: "byte list"
  total_blocks :: u32
  free_blocks :: u32
  bitmap_blocks :: u32
  inode_table_start :: u32
  inode_table_blocks :: u32
  data_start :: u32
  root_inode :: u32

definition MAGIC :: "byte list" where
  "MAGIC = ascii ''SIMPLEFS-RUST'' @ [0, 0, 0]"

definition SB_SIZE :: nat where "SB_SIZE = 16 + 4 + 4 + 4 + 4 + 4 + 4 + 4"

definition sb_from_bytes :: "byte list \<Rightarrow> SuperBlock option" where
  "sb_from_bytes data = do {
     m \<leftarrow> slice_range data 0 16;
     total \<leftarrow> read_u32 data 16;
     free \<leftarrow> read_u32 data 20;
     bitmap \<leftarrow> read_u32 data 24;
     table_start \<leftarrow> read_u32 data 28;
     table_blocks \<leftarrow> read_u32 data 32;
     start \<leftarrow> read_u32 data 36;
     root \<leftarrow> read_u32 data 40;
     Some \<lparr>magic = m, total_blocks = total, free_blocks = free, bitmap_blocks = bitmap,
       inode_table_start = table_start, inode_table_blocks = table_blocks, data_start = start,
       root_inode = root\<rparr> }"

text \<open>The source fills a zeroed buffer field by field; the fields are adjacent and cover it.\<close>

definition sb_to_bytes :: "SuperBlock \<Rightarrow> byte list" where
  "sb_to_bytes sb = magic sb @ to_le_bytes 4 (total_blocks sb) @ to_le_bytes 4 (free_blocks sb) @
     to_le_bytes 4 (bitmap_blocks sb) @ to_le_bytes 4 (inode_table_start sb) @
     to_le_bytes 4 (inode_table_blocks sb) @ to_le_bytes 4 (data_start sb) @
     to_le_bytes 4 (root_inode sb)"

definition sb_is_valid :: "SuperBlock \<Rightarrow> bool" where
  "sb_is_valid sb \<longleftrightarrow> take 13 (magic sb) = ascii ''SIMPLEFS-RUST''"

definition calc_bitmap_blocks :: u32 where
  "calc_bitmap_blocks = (MAX_BLOCKS + of_nat BLOCK_SIZE * 8 - 1) div (of_nat BLOCK_SIZE * 8)"

section \<open>Block 0\<close>

definition write_superblock :: "'s Disk \<Rightarrow> SuperBlock \<Rightarrow> 's \<Rightarrow> (unit \<times> 's) option" where
  "write_superblock d sb s = do {
     block_buf \<leftarrow> copy_from_slice (replicate BLOCK_SIZE 0) 0 SB_SIZE (sb_to_bytes sb);
     write_block d 0 block_buf s }"

definition init_superblock :: "'s Disk \<Rightarrow> 's \<Rightarrow> (SuperBlock \<times> 's) option" where
  "init_superblock d s = (
     let bitmap = calc_bitmap_blocks;
         table_start = 1 + bitmap;
         table_blocks = 25;
         start = table_start + table_blocks;
         sb = \<lparr>magic = MAGIC, total_blocks = MAX_BLOCKS, free_blocks = MAX_BLOCKS - start,
               bitmap_blocks = bitmap, inode_table_start = table_start,
               inode_table_blocks = table_blocks, data_start = start, root_inode = 0\<rparr>
     in do {
       block_buf \<leftarrow> copy_from_slice (replicate BLOCK_SIZE 0) 0 SB_SIZE (sb_to_bytes sb);
       (_, s) \<leftarrow> write_block d 0 block_buf s;
       Some (sb, s) })"

text \<open>
  As for \<open>read_block\<close>: the result with the state it leaves in every case, then the panic on a
  failed read or an invalid magic number.
\<close>

definition read_superblock_io :: "'s Disk \<Rightarrow> 's \<Rightarrow> SuperBlock option \<times> 's" where
  "read_superblock_io d s =
     (case read_block_io d 0 s of
        (None, s) \<Rightarrow> (None, s)
      | (Some block_buf, s) \<Rightarrow>
          (case sb_from_bytes block_buf of
             None \<Rightarrow> (None, s)
           | Some sb \<Rightarrow> if \<not> sb_is_valid sb then (None, s) else (Some sb, s)))"

definition read_superblock :: "'s Disk \<Rightarrow> 's \<Rightarrow> (SuperBlock \<times> 's) option" where
  "read_superblock d s =
     (case read_superblock_io d s of (None, _) \<Rightarrow> None | (Some sb, s) \<Rightarrow> Some (sb, s))"

section \<open>Specification vocabulary\<close>

definition sb_wf :: "SuperBlock \<Rightarrow> bool" where
  "sb_wf sb \<longleftrightarrow> length (magic sb) = 16"

definition sb_block :: "SuperBlock \<Rightarrow> byte list" where
  "sb_block sb = overwrite (replicate BLOCK_SIZE 0) 0 (sb_to_bytes sb)"

text \<open>The layout of a formatted volume (the README's table); \<open>free_blocks\<close> and the root are free.\<close>

definition sb_layout :: "SuperBlock \<Rightarrow> bool" where
  "sb_layout sb \<longleftrightarrow> magic sb = MAGIC \<and> total_blocks sb = 20480 \<and> bitmap_blocks sb = 5 \<and>
     inode_table_start sb = 6 \<and> inode_table_blocks sb = 25 \<and> data_start sb = 31"

section \<open>Lemmas\<close>

lemma SB_SIZE_eq [simp]: "SB_SIZE = 44" by (simp add: SB_SIZE_def)

lemma calc_bitmap_blocks_eq [simp]: "calc_bitmap_blocks = 5"
  by (simp add: calc_bitmap_blocks_def)

lemma length_ascii [simp]: "length (ascii cs) = length cs"
  by (simp add: ascii_def)

lemma length_MAGIC [simp]: "length MAGIC = 16"
  by (simp add: MAGIC_def)

lemma sb_layout_wf [simp]: "sb_layout sb \<Longrightarrow> sb_wf sb"
  by (simp add: sb_layout_def sb_wf_def)

lemma sb_layout_valid [simp]: "sb_layout sb \<Longrightarrow> sb_is_valid sb"
  by (simp add: sb_layout_def sb_is_valid_def MAGIC_def)

lemma length_sb_to_bytes [simp]: "sb_wf sb \<Longrightarrow> length (sb_to_bytes sb) = 44"
  by (simp add: sb_to_bytes_def sb_wf_def)

lemma sb_from_to_bytes_append: "sb_wf sb \<Longrightarrow> sb_from_bytes (sb_to_bytes sb @ rest) = Some sb"
  by (simp add: sb_from_bytes_def sb_to_bytes_def sb_wf_def)

interpretation sb: codec sb_to_bytes sb_from_bytes 44 sb_wf
  using sb_from_to_bytes_append [where rest = "[]"] by unfold_locales auto

lemma sb_block_decode: "sb_wf sb \<Longrightarrow> sb_from_bytes (sb_block sb) = Some sb"
  by (simp add: sb_block_def overwrite_def sb_from_to_bytes_append)

lemma length_sb_block [simp]: "sb_wf sb \<Longrightarrow> length (sb_block sb) = 512"
  by (simp add: sb_block_def)

lemma write_superblock_awp [awp_rules]:
  "sb_wf sb \<Longrightarrow> Q () (v(0 := sb_block sb)) \<Longrightarrow> dwp d (write_superblock d sb) Q v"
  by (simp add: write_superblock_def [abs_def] sb_block_def) (rule awp_rules; simp)

lemma read_superblock_awp [awp_rules]:
  assumes "v 0 = sb_block sb" "sb_wf sb" "sb_is_valid sb" "Q sb v"
  shows "dwp d (read_superblock d) Q v"
proof (rule awpI)
  fix s assume s: "disk_ok d s" "blocks d s = v"
  then obtain s' where "read_block d 0 s = Some (v 0, s')" "disk_ok d s'" "blocks d s' = v"
    using read_block_law [of d s 0] by auto
  then show "\<exists>r s'. read_superblock d s = Some (r, s') \<and> disk_ok d s' \<and> Q r (blocks d s')"
    using assms
    by (auto simp: read_superblock_def read_superblock_io_def read_block_def sb_block_decode
        split: prod.splits option.splits)
qed

lemma init_superblock_awp:
  assumes "\<And>sb. sb_layout sb \<Longrightarrow> free_blocks sb = 20449 \<Longrightarrow> root_inode sb = 0 \<Longrightarrow>
    Q sb (v(0 := sb_block sb))"
  shows "dwp d (init_superblock d) Q v"
proof -
  let ?sb = "\<lparr>magic = MAGIC, total_blocks = 20480, free_blocks = 20449, bitmap_blocks = 5,
      inode_table_start = 6, inode_table_blocks = 25, data_start = 31, root_inode = 0\<rparr>"
  have lay: "sb_layout ?sb" by (simp add: sb_layout_def)
  have eq: "init_superblock d = (\<lambda>s. do { (_, s) \<leftarrow> write_block d 0 (sb_block ?sb) s; Some (?sb, s) })"
    using sb_layout_wf [OF lay] by (simp add: init_superblock_def [abs_def] Let_def sb_block_def)
  show ?thesis
    unfolding eq using assms [OF lay] sb_layout_wf [OF lay]
    by (intro awp_rules) (auto intro!: awp_rules)
qed

end
