(* ===== verification/Bitmap.thy ===== *)
theory Bitmap
  imports Superblock
begin

text \<open>
  Free-space management, \<open>src/src/bitmap.rs\<close>: one bit per block in the blocks after the
  superblock. The abstract view is the predicate \<open>allocd v\<close> (is the bit of a block set?);
  the invariant \<open>alloc_inv\<close> ties it to the free-block counter of the superblock, in memory
  and in block 0. The interface \<open>block_allocator\<close> is what the file system relies on.
\<close>

section \<open>Operations\<close>

definition locate :: "u32 \<Rightarrow> nat \<times> byte" where
  "locate block_num =
     (let byte_idx = unat (block_num div 8);
          bit_idx = unat (block_num mod 8)
      in (byte_idx, push_bit bit_idx 1))"

definition is_allocated :: "'s Disk \<Rightarrow> SuperBlock \<Rightarrow> u32 \<Rightarrow> 's \<Rightarrow> (bool \<times> 's) option" where
  "is_allocated d sb block_num s =
     (if block_num \<ge> MAX_BLOCKS then Some (True, s)
      else let (byte_idx, mask) = locate block_num;
               bitmap_block_offset = byte_idx div BLOCK_SIZE;
               byte_offset_in_block = byte_idx mod BLOCK_SIZE;
               block_to_read = 1 + of_nat bitmap_block_offset
           in do {
             (block_buf, s) \<leftarrow> read_block d block_to_read s;
             x \<leftarrow> index block_buf byte_offset_in_block;
             Some (x AND mask \<noteq> 0, s) })"

definition mark_allocated :: "'s Disk \<Rightarrow> SuperBlock \<Rightarrow> u32 \<Rightarrow> 's \<Rightarrow> (SuperBlock \<times> 's) option" where
  "mark_allocated d sb block_num s =
     (let (byte_idx, mask) = locate block_num;
          bitmap_block_offset = byte_idx div BLOCK_SIZE;
          byte_offset_in_block = byte_idx mod BLOCK_SIZE;
          block_to_write = 1 + of_nat bitmap_block_offset
      in do {
        (block_buf, s) \<leftarrow> read_block d block_to_write s;
        x \<leftarrow> index block_buf byte_offset_in_block;
        (_, s) \<leftarrow> write_block d block_to_write (block_buf[byte_offset_in_block := x OR mask]) s;
        let sb = sb\<lparr>free_blocks := free_blocks sb - 1\<rparr>;
        (_, s) \<leftarrow> write_superblock d sb s;
        Some (sb, s) })"

definition mark_free :: "'s Disk \<Rightarrow> SuperBlock \<Rightarrow> u32 \<Rightarrow> 's \<Rightarrow> (SuperBlock \<times> 's) option" where
  "mark_free d sb block_num s =
     (let (byte_idx, mask) = locate block_num;
          bitmap_block_offset = byte_idx div BLOCK_SIZE;
          byte_offset_in_block = byte_idx mod BLOCK_SIZE;
          block_to_write = 1 + of_nat bitmap_block_offset
      in do {
        (block_buf, s) \<leftarrow> read_block d block_to_write s;
        x \<leftarrow> index block_buf byte_offset_in_block;
        (_, s) \<leftarrow> write_block d block_to_write (block_buf[byte_offset_in_block := x AND NOT mask]) s;
        let sb = sb\<lparr>free_blocks := free_blocks sb + 1\<rparr>;
        (_, s) \<leftarrow> write_superblock d sb s;
        Some (sb, s) })"

text \<open>The two inner loops of \<open>allocate_block\<close>: the first zero bit of a byte, of a bitmap block.\<close>

definition first_zero_bit :: "byte \<Rightarrow> nat option" where
  "first_zero_bit byte_val = find (\<lambda>bit_no. byte_val AND push_bit bit_no 1 = 0) [0..<8]"

fun scan_bytes :: "nat \<Rightarrow> byte list \<Rightarrow> (nat \<times> nat) option" where
  "scan_bytes byte_offset [] = None"
| "scan_bytes byte_offset (byte_val # rest) =
     (if byte_val = 0xFF then scan_bytes (byte_offset + 1) rest
      else case first_zero_bit byte_val of
             Some bit_no \<Rightarrow> Some (byte_offset, bit_no)
           | None \<Rightarrow> scan_bytes (byte_offset + 1) rest)"

text \<open>The outer loop, over the bitmap blocks.\<close>

fun allocate_scan :: "'s Disk \<Rightarrow> SuperBlock \<Rightarrow> nat list \<Rightarrow> 's \<Rightarrow>
    ((u32 option \<times> SuperBlock) \<times> 's) option" where
  "allocate_scan d sb [] s = Some ((None, sb), s)"
| "allocate_scan d sb (bitmap_idx # idxs) s = do {
     (block_buf, s) \<leftarrow> read_block d (1 + of_nat bitmap_idx) s;
     case scan_bytes 0 block_buf of
       None \<Rightarrow> allocate_scan d sb idxs s
     | Some (byte_offset, bit_no) \<Rightarrow>
         let free_block = of_nat ((bitmap_idx * BLOCK_SIZE + byte_offset) * 8 + bit_no)
         in if free_block \<ge> MAX_BLOCKS then Some ((None, sb), s)
            else do {
              (sb, s) \<leftarrow> mark_allocated d sb free_block s;
              Some ((Some free_block, sb), s) } }"

definition allocate_block :: "'s Disk \<Rightarrow> SuperBlock \<Rightarrow> 's \<Rightarrow>
    ((u32 option \<times> SuperBlock) \<times> 's) option" where
  "allocate_block d sb s =
     (if free_blocks sb = 0 then Some ((None, sb), s)
      else do {
        (sb_local, s) \<leftarrow> read_superblock d s;
        allocate_scan d sb [0..<unat (bitmap_blocks sb_local)] s })"

text \<open>\<open>init_bitmap\<close>: the bits below \<open>data_start\<close>, then the loop that writes the blocks.\<close>

definition init_bits :: "nat \<Rightarrow> u32 \<Rightarrow> byte list" where
  "init_bits total_bytes start =
     foldl (\<lambda>bitmap n. let (byte_idx, mask) = locate (of_nat n)
              in if byte_idx < total_bytes then bitmap[byte_idx := bitmap ! byte_idx OR mask] else bitmap)
       (replicate total_bytes 0) [0..<unat start]"

fun write_bitmap :: "'s Disk \<Rightarrow> byte list \<Rightarrow> nat list \<Rightarrow> 's \<Rightarrow> (unit \<times> 's) option" where
  "write_bitmap d bitmap [] s = Some ((), s)"
| "write_bitmap d bitmap (i # is) s = do {
     part \<leftarrow> slice_range bitmap (i * BLOCK_SIZE) (i * BLOCK_SIZE + BLOCK_SIZE);
     block_buf \<leftarrow> copy_from_slice (replicate BLOCK_SIZE 0) 0 BLOCK_SIZE part;
     (_, s) \<leftarrow> write_block d (1 + of_nat i) block_buf s;
     write_bitmap d bitmap is s }"

definition init_bitmap :: "'s Disk \<Rightarrow> SuperBlock \<Rightarrow> 's \<Rightarrow> (unit \<times> 's) option" where
  "init_bitmap d sb s =
     (let n = unat (bitmap_blocks sb);
          bitmap = init_bits (n * BLOCK_SIZE) (data_start sb)
      in write_bitmap d bitmap [0..<n] s)"

section \<open>Specification vocabulary\<close>

definition allocd :: "volume \<Rightarrow> nat \<Rightarrow> bool" where
  "allocd v b = bit (v (1 + b div 4096) ! (b div 8 mod 512)) (b mod 8)"

definition free_set :: "volume \<Rightarrow> nat set" where
  "free_set v = {b. b < 20480 \<and> \<not> allocd v b}"

definition alloc_inv :: "volume \<Rightarrow> SuperBlock \<Rightarrow> bool" where
  "alloc_inv v sb \<longleftrightarrow> vol v \<and> sb_layout sb \<and> v 0 = sb_block sb \<and>
     unat (free_blocks sb) = card (free_set v) \<and> (\<forall>b < 31. allocd v b)"

text \<open>
  What a change of the bitmap does to the volume: the superblock block holds \<open>sb\<close>, the bits
  are those of \<open>A\<close>, and no block after the bitmap changes.
\<close>

definition bitmap_post :: "volume \<Rightarrow> SuperBlock \<Rightarrow> (nat \<Rightarrow> bool) \<Rightarrow> volume \<Rightarrow> bool" where
  "bitmap_post v sb A v' \<longleftrightarrow> vol v' \<and> v' 0 = sb_block sb \<and> allocd v' = A \<and> (\<forall>i \<ge> 6. v' i = v i)"

section \<open>Bits\<close>

lemma and_push_1 [simp]: "(x :: byte) AND 2 ^ n = 0 \<longleftrightarrow> \<not> bit x n"
  by (simp add: and_exp_eq_0_iff_not_bit)

lemma bit_full_byte: "i < 8 \<Longrightarrow> bit (0xFF :: byte) i"
proof -
  have "(0xFF :: byte) = - 1" by simp
  then show "i < 8 \<Longrightarrow> bit (0xFF :: byte) i" by (simp only: bit_minus_1_iff) simp
qed

lemma bit_or_push_1: "n < 8 \<Longrightarrow> bit ((x :: byte) OR 2 ^ n) i \<longleftrightarrow> bit x i \<or> i = n"
  by (auto simp: bit_simps)

lemma bit_and_not_push_1: "n < 8 \<Longrightarrow> bit ((x :: byte) AND NOT (2 ^ n)) i \<longleftrightarrow> bit x i \<and> i \<noteq> n"
  by (auto simp: bit_simps dest: bit_imp_le_length)

lemma locate_eq: "locate b = (unat b div 8, push_bit (unat b mod 8) 1)"
  by (simp add: locate_def unat_div unat_mod)

lemma bit_position: "(a :: nat) div 4096 = b div 4096 \<Longrightarrow> a div 8 mod 512 = b div 8 mod 512 \<Longrightarrow>
    a mod 8 = b mod 8 \<Longrightarrow> a = b"
proof -
  assume "a div 4096 = b div 4096" "a div 8 mod 512 = b div 8 mod 512" "a mod 8 = b mod 8"
  moreover have "x div 4096 = x div 8 div 512" for x :: nat
    by (simp add: div_mult2_eq [symmetric])
  ultimately have "a div 8 = b div 8"
    by (metis div_mult_mod_eq)
  with \<open>a mod 8 = b mod 8\<close> show "a = b" by (metis div_mult_mod_eq)
qed

lemma div_8_split: "(b :: nat) div 8 = b div 4096 * 512 + b mod 4096 div 8"
proof -
  have "b mod 4096 = 8 * (b div 8 mod 512) + b mod 8"
    using mod_mult2_eq [of b 8 512] by simp
  then have "b mod 4096 div 8 = b div 8 mod 512" by simp
  moreover have "b div 4096 = b div 8 div 512" by (simp add: div_mult2_eq [symmetric])
  ultimately show ?thesis by simp
qed

lemma bitmap_block_no: "b < 20480 \<Longrightarrow> unat (1 + of_nat (b div 8 div 512) :: u32) = 1 + b div 4096"
  by (simp add: div_mult2_eq [symmetric] unat_word_ariths unat_of_nat)

lemma allocd_upd:
  assumes "vol v" "b < 20480"
    and "v' = v(1 + b div 4096 := (v (1 + b div 4096))[b div 8 mod 512 := y])"
  shows "allocd v' x \<longleftrightarrow>
    (if x div 4096 = b div 4096 \<and> x div 8 mod 512 = b div 8 mod 512 then bit y (x mod 8) else allocd v x)"
  using assms by (auto simp: allocd_def)

lemma finite_free_set [simp]: "finite (free_set v)"
  by (simp add: free_set_def)

lemma card_free_set: "card (free_set v) \<le> 20480"
  using card_mono [of "{..<20480}" "free_set v"] by (auto simp: free_set_def)

lemma free_set_insert:
  "b < 20480 \<Longrightarrow> (\<And>x. allocd v' x \<longleftrightarrow> x = b \<or> allocd v x) \<Longrightarrow> free_set v' = free_set v - {b}"
  by (auto simp: free_set_def)

lemma free_set_remove:
  "b < 20480 \<Longrightarrow> (\<And>x. allocd v' x \<longleftrightarrow> x \<noteq> b \<and> allocd v x) \<Longrightarrow> free_set v' = insert b (free_set v)"
  by (auto simp: free_set_def)

section \<open>Marking a block\<close>

lemma sb_wf_free_blocks [simp]: "sb_wf (sb\<lparr>free_blocks := n\<rparr>) = sb_wf sb"
  by (simp add: sb_wf_def)

lemma sb_layout_free_blocks [simp]: "sb_layout (sb\<lparr>free_blocks := n\<rparr>) = sb_layout sb"
  by (simp add: sb_layout_def)

lemma bitmap_postI:
  assumes "vol v" "sb_wf sb" "b < 20480"
    and "v' = v(1 + b div 4096 := (v (1 + b div 4096))[b div 8 mod 512 := y], 0 := sb_block sb)"
    and "\<And>x. (if x div 4096 = b div 4096 \<and> x div 8 mod 512 = b div 8 mod 512 then bit y (x mod 8)
            else allocd v x) = A x"
  shows "bitmap_post v sb A v'"
proof -
  let ?v1 = "v(1 + b div 4096 := (v (1 + b div 4096))[b div 8 mod 512 := y])"
  have "allocd v' = allocd ?v1"
    using assms(4) by (auto simp: allocd_def)
  moreover have "allocd ?v1 = A"
    using allocd_upd [OF assms(1,3) refl, of y] assms(5) by blast
  moreover have "b div 4096 < 5" using assms(3) by simp
  ultimately show ?thesis
    using assms by (auto simp: bitmap_post_def)
qed

lemma mark_allocated_awp:
  assumes "vol v" "sb_wf sb" "unat b < 20480"
    and "\<And>v'. bitmap_post v (sb\<lparr>free_blocks := free_blocks sb - 1\<rparr>) (\<lambda>x. x = unat b \<or> allocd v x) v' \<Longrightarrow>
      Q (sb\<lparr>free_blocks := free_blocks sb - 1\<rparr>) v'"
  shows "dwp d (mark_allocated d sb b) Q v"
proof -
  have "unat b div 4096 < 5" using assms(3) by simp
  then have "Q (sb\<lparr>free_blocks := free_blocks sb - 1\<rparr>)
     (v(1 + unat b div 4096 := (v (1 + unat b div 4096))[unat b div 8 mod 512 :=
         v (1 + unat b div 4096) ! (unat b div 8 mod 512) OR push_bit (unat b mod 8) 1],
        0 := sb_block (sb\<lparr>free_blocks := free_blocks sb - 1\<rparr>)))"
    using assms(1-3) bit_position [of _ "unat b"]
    by (intro assms(4) bitmap_postI [OF _ _ _ refl]) (auto simp: bit_or_push_1 allocd_def)
  then show ?thesis
    unfolding mark_allocated_def [abs_def] locate_eq Let_def prod.case
    using assms(1-3) \<open>unat b div 4096 < 5\<close>
    by (intro awp_rules) (auto simp: bitmap_block_no intro!: awp_rules)
qed

lemma mark_free_awp:
  assumes "vol v" "sb_wf sb" "unat b < 20480"
    and "\<And>v'. bitmap_post v (sb\<lparr>free_blocks := free_blocks sb + 1\<rparr>) (\<lambda>x. x \<noteq> unat b \<and> allocd v x) v' \<Longrightarrow>
      Q (sb\<lparr>free_blocks := free_blocks sb + 1\<rparr>) v'"
  shows "dwp d (mark_free d sb b) Q v"
proof -
  have "unat b div 4096 < 5" using assms(3) by simp
  then have "Q (sb\<lparr>free_blocks := free_blocks sb + 1\<rparr>)
     (v(1 + unat b div 4096 := (v (1 + unat b div 4096))[unat b div 8 mod 512 :=
         v (1 + unat b div 4096) ! (unat b div 8 mod 512) AND NOT (push_bit (unat b mod 8) 1)],
        0 := sb_block (sb\<lparr>free_blocks := free_blocks sb + 1\<rparr>)))"
    using assms(1-3) bit_position [of _ "unat b"]
    by (intro assms(4) bitmap_postI [OF _ _ _ refl]) (auto simp: bit_and_not_push_1 allocd_def)
  then show ?thesis
    unfolding mark_free_def [abs_def] locate_eq Let_def prod.case
    using assms(1-3) \<open>unat b div 4096 < 5\<close>
    by (intro awp_rules) (auto simp: bitmap_block_no intro!: awp_rules)
qed

lemma is_allocated_awp:
  assumes "vol v" "Q (20480 \<le> unat b \<or> allocd v (unat b)) v"
  shows "dwp d (is_allocated d sb b) Q v"
proof (cases "b < 20480")
  case True
  then have "unat b < 20480" by (simp add: word_less_nat_alt)
  moreover from this have "unat b div 4096 < 5" by simp
  ultimately show ?thesis
    unfolding is_allocated_def [abs_def] locate_eq Let_def prod.case
    using assms True
    by (intro awp_rules) (auto simp: bitmap_block_no allocd_def word_le_nat_alt intro!: awp_rules)
next
  case False
  then have "\<not> unat b < 20480" by (simp add: word_less_nat_alt)
  with False assms show ?thesis
    unfolding is_allocated_def [abs_def] by (intro awp_rules) (auto intro!: awp_rules)
qed

section \<open>Finding a free block\<close>

lemma first_zero_bit_Some:
  "first_zero_bit x = Some n \<Longrightarrow> n < 8 \<and> \<not> bit x n \<and> (\<forall>i < n. bit x i)"
  by (auto simp: first_zero_bit_def find_Some_iff)

lemma first_zero_bit_None: "first_zero_bit x = None \<Longrightarrow> i < 8 \<Longrightarrow> bit x i"
  by (auto simp: first_zero_bit_def find_None_iff)

lemma bits_Cons:
  "(\<forall>i < 8. bit (x :: byte) i) \<Longrightarrow> (\<forall>k < n. bit (xs ! (k div 8)) (k mod 8)) \<Longrightarrow>
   k < n + 8 \<Longrightarrow> bit ((x # xs) ! (k div 8)) (k mod 8)"
proof (cases "k < 8")
  case False
  assume "\<forall>k < n. bit (xs ! (k div 8)) (k mod 8)" "k < n + 8"
  moreover have "k div 8 = Suc ((k - 8) div 8)" "k mod 8 = (k - 8) mod 8"
    using False by (auto simp: le_div_geq le_mod_geq)
  ultimately show ?thesis using False by auto
qed simp

lemma scan_bytes_None:
  "scan_bytes off bs = None \<Longrightarrow> k < 8 * length bs \<Longrightarrow> bit (bs ! (k div 8)) (k mod 8)"
proof (induction off bs arbitrary: k rule: scan_bytes.induct)
  case (2 off x rest)
  have all: "\<forall>i < 8. bit x i"
    using "2.prems"(1) bit_full_byte first_zero_bit_None
    by (auto split: if_splits option.splits)
  have "scan_bytes (off + 1) rest = None"
    using "2.prems"(1) by (auto split: if_splits option.splits)
  then have "\<forall>k < 8 * length rest. bit (rest ! (k div 8)) (k mod 8)"
    using "2.IH" "2.prems"(1) by (cases "x = 0xFF") (auto split: option.splits)
  from bits_Cons [OF all this, of k] "2.prems"(2) show ?case by simp
qed simp

lemma scan_bytes_Some:
  "scan_bytes off bs = Some (p, n) \<Longrightarrow>
   off \<le> p \<and> p - off < length bs \<and> n < 8 \<and> \<not> bit (bs ! (p - off)) n \<and>
   (\<forall>k < 8 * (p - off) + n. bit (bs ! (k div 8)) (k mod 8))"
proof (induction off bs rule: scan_bytes.induct)
  case (2 off x rest)
  show ?case
  proof (cases "x \<noteq> 0xFF \<and> first_zero_bit x \<noteq> None")
    case True
    with "2.prems" have "p = off" "first_zero_bit x = Some n" by auto
    with first_zero_bit_Some [of x n] show ?thesis by auto
  next
    case False
    then have all: "\<forall>i < 8. bit x i"
      using bit_full_byte first_zero_bit_None by auto
    from False "2.prems" have rec: "scan_bytes (off + 1) rest = Some (p, n)"
      by (auto split: if_splits)
    have IH: "off + 1 \<le> p \<and> p - (off + 1) < length rest \<and> n < 8 \<and> \<not> bit (rest ! (p - (off + 1))) n \<and>
       (\<forall>k < 8 * (p - (off + 1)) + n. bit (rest ! (k div 8)) (k mod 8))"
      using False rec by (cases "x = 0xFF") (auto dest: "2.IH")
    moreover from IH have "p - off = Suc (p - (off + 1))" by auto
    ultimately show ?thesis
      using bits_Cons [OF all, of "8 * (p - (off + 1)) + n" rest] by auto
  qed
qed simp

lemma allocd_block: "k < 4096 \<Longrightarrow> allocd v (4096 * i + k) = bit (v (1 + i) ! (k div 8)) (k mod 8)"
proof -
  assume k: "k < 4096"
  have "(4096 * i + k) div 8 = 512 * i + k div 8" by simp
  moreover have "k div 8 < 512" using k by simp
  ultimately have "(4096 * i + k) div 8 mod 512 = k div 8" by simp
  with k show ?thesis by (simp add: allocd_def mod_add_eq [symmetric])
qed

text \<open>One block of the bitmap: it has no free bit, or its first one is the least free block.\<close>

lemma scan_full_block:
  assumes "scan_bytes 0 (v (1 + i)) = None" "length (v (1 + i)) = 512" "\<forall>x < 4096 * i. allocd v x"
  shows "\<forall>x < 4096 * Suc i. allocd v x"
proof (intro allI impI)
  fix x assume "x < 4096 * Suc i"
  then consider "x < 4096 * i" | k where "x = 4096 * i + k" "k < 4096"
    by (metis add_diff_inverse_nat less_diff_conv2 linorder_not_less mult_Suc_right nat_add_left_cancel_less add.commute)
  then show "allocd v x"
    using assms(3) scan_bytes_None [OF assms(1)] assms(2) by cases (auto simp: allocd_block)
qed

lemma scan_found_block:
  assumes "scan_bytes 0 (v (1 + i)) = Some (p, n)" "length (v (1 + i)) = 512" "\<forall>x < 4096 * i. allocd v x" "i < 5"
    and b_eq: "b = (i * 512 + p) * 8 + n"
  shows "b < 20480" "\<not> allocd v b" "\<forall>x < b. allocd v x"
proof -
  from scan_bytes_Some [OF assms(1)] assms(2) have p: "p < 512" "n < 8" "\<not> bit (v (1 + i) ! p) n"
    "\<forall>k < 8 * p + n. bit (v (1 + i) ! (k div 8)) (k mod 8)" by auto
  have b: "b = 4096 * i + (8 * p + n)" "8 * p + n < 4096" using p by (auto simp: b_eq)
  then show "b < 20480" using assms(4) by auto
  show "\<not> allocd v b" unfolding b(1) using p allocd_block [OF b(2), of v i] by simp
  show "\<forall>x < b. allocd v x"
  proof (intro allI impI)
    fix x assume "x < b"
    show "allocd v x"
    proof (cases "x < 4096 * i")
      case False
      then obtain k where "x = 4096 * i + k" using nat_le_iff_add not_less by blast
      with \<open>x < b\<close> b p(4) show ?thesis by (simp add: allocd_block)
    qed (use assms(3) in simp)
  qed
qed

lemma allocate_scan_awp:
  assumes "vol v" "sb_wf sb" "i \<le> 5" "\<forall>x < 4096 * i. allocd v x"
    and none: "(\<forall>x < 20480. allocd v x) \<Longrightarrow> Q (None, sb) v"
    and some: "\<And>b v'. b < 20480 \<Longrightarrow> \<not> allocd v b \<Longrightarrow> \<forall>x < b. allocd v x \<Longrightarrow>
      bitmap_post v (sb\<lparr>free_blocks := free_blocks sb - 1\<rparr>) (\<lambda>x. x = b \<or> allocd v x) v' \<Longrightarrow>
      Q (Some (of_nat b), sb\<lparr>free_blocks := free_blocks sb - 1\<rparr>) v'"
  shows "dwp d (allocate_scan d sb [i..<5]) Q v"
  using assms(3,4)
proof (induction "5 - i" arbitrary: i)
  case 0
  then have "i = 5" by simp
  with 0 none show ?case by (auto intro!: awp_rules simp: fun_eq_iff)
next
  case (Suc n)
  then have i: "i < 5" "n = 5 - Suc i" by auto
  have bn: "unat (1 + word_of_nat i :: u32) = 1 + i"
    using i by (simp add: unat_word_ariths unat_of_nat)
  let ?B = "v (1 + i)"
  have len: "length ?B = 512" using assms(1) i by simp
  have next_awp: "dwp d (allocate_scan d sb [Suc i..<5]) Q v" if "scan_bytes 0 ?B = None"
    using scan_full_block [OF that len Suc.prems(2)] i by (intro Suc.hyps(1)) auto
  have found_awp: "dwp d (\<lambda>s. do { (sb, s) \<leftarrow> mark_allocated d sb (of_nat ((i * 512 + p) * 8 + n)) s;
              Some ((Some (of_nat ((i * 512 + p) * 8 + n)), sb), s) }) Q v"
    and found_lt: "\<not> (20480 :: u32) \<le> of_nat ((i * 512 + p) * 8 + n)"
    if "scan_bytes 0 ?B = Some (p, n)" for p n
  proof -
    let ?b = "(i * 512 + p) * 8 + n"
    note b = scan_found_block [OF that len Suc.prems(2) i(1) refl]
    have un: "unat (word_of_nat ?b :: u32) = ?b" using b(1) by (simp add: unat_of_nat del: of_nat_add of_nat_mult)
    show "dwp d (\<lambda>s. do { (sb, s) \<leftarrow> mark_allocated d sb (of_nat ?b) s; Some ((Some (of_nat ?b), sb), s) }) Q v"
      using assms(1,2) b un some [of ?b]
      by (intro awp_rules mark_allocated_awp) (auto intro!: awp_rules simp del: of_nat_add of_nat_mult)
    show "\<not> (20480 :: u32) \<le> of_nat ?b"
      using b(1) un by (simp add: word_le_nat_alt del: of_nat_add of_nat_mult)
  qed
  show ?case
    unfolding upt_conv_Cons [OF i(1)] ext [OF allocate_scan.simps(2)]
  proof (intro awp_bind read_block_awp)
    show "dwp d (\<lambda>s. case (v (unat (1 + word_of_nat i :: u32)), s) of (block_buf, s) \<Rightarrow>
       case scan_bytes 0 block_buf of None \<Rightarrow> allocate_scan d sb [Suc i..<5] s
       | Some (byte_offset, bit_no) \<Rightarrow>
         let free_block = of_nat ((i * BLOCK_SIZE + byte_offset) * 8 + bit_no)
         in if free_block \<ge> MAX_BLOCKS then Some ((None, sb), s)
            else do { (sb, s) \<leftarrow> mark_allocated d sb free_block s; Some ((Some free_block, sb), s) }) Q v"
      using next_awp found_awp found_lt
      by (cases "scan_bytes 0 ?B") (auto simp: bn Let_def simp del: of_nat_add of_nat_mult)
  qed (use bn i in simp)
qed

section \<open>The allocator\<close>

lemma alloc_inv_mark:
  assumes "alloc_inv v sb" "b < 20480" "\<not> allocd v b"
    and "bitmap_post v (sb\<lparr>free_blocks := free_blocks sb - 1\<rparr>) (\<lambda>x. x = b \<or> allocd v x) v'"
  shows "alloc_inv v' (sb\<lparr>free_blocks := free_blocks sb - 1\<rparr>)"
proof -
  have fs: "free_set v' = free_set v - {b}"
    using assms(2,4) by (intro free_set_insert) (auto simp: bitmap_post_def)
  have b: "b \<in> free_set v" using assms(2,3) by (simp add: free_set_def)
  then have "0 < card (free_set v)" by (auto simp: card_gt_0_iff)
  with assms(1) have "unat (free_blocks sb - 1) = card (free_set v) - 1"
    by (simp add: alloc_inv_def unat_minus_one unat_gt_0 [symmetric])
  with fs b assms show ?thesis by (auto simp: alloc_inv_def bitmap_post_def)
qed

lemma alloc_inv_free:
  assumes "alloc_inv v sb" "31 \<le> b" "b < 20480" "allocd v b"
    and "bitmap_post v (sb\<lparr>free_blocks := free_blocks sb + 1\<rparr>) (\<lambda>x. x \<noteq> b \<and> allocd v x) v'"
  shows "alloc_inv v' (sb\<lparr>free_blocks := free_blocks sb + 1\<rparr>)"
proof -
  have fs: "free_set v' = insert b (free_set v)"
    using assms(3,5) by (intro free_set_remove) (auto simp: bitmap_post_def)
  have b: "b \<notin> free_set v" using assms(4) by (simp add: free_set_def)
  have "unat (free_blocks sb + 1) = card (free_set v) + 1"
    using assms(1) card_free_set [of v] by (simp add: alloc_inv_def unat_word_ariths)
  with fs b assms show ?thesis by (auto simp: alloc_inv_def bitmap_post_def)
qed

lemma allocate_block_awp:
  assumes inv: "alloc_inv v sb"
    and none: "free_set v = {} \<Longrightarrow> Q (None, sb) v"
    and some: "\<And>b v'. b < 20480 \<Longrightarrow> 31 \<le> b \<Longrightarrow> \<not> allocd v b \<Longrightarrow> \<forall>x < b. allocd v x \<Longrightarrow>
      bitmap_post v (sb\<lparr>free_blocks := free_blocks sb - 1\<rparr>) (\<lambda>x. x = b \<or> allocd v x) v' \<Longrightarrow>
      alloc_inv v' (sb\<lparr>free_blocks := free_blocks sb - 1\<rparr>) \<Longrightarrow>
      Q (Some (of_nat b), sb\<lparr>free_blocks := free_blocks sb - 1\<rparr>) v'"
  shows "dwp d (allocate_block d sb) Q v"
proof -
  from inv have v: "vol v" "sb_layout sb" "v 0 = sb_block sb"
      "unat (free_blocks sb) = card (free_set v)" "\<forall>b < 31. allocd v b"
    by (auto simp: alloc_inv_def)
  then have bb: "unat (bitmap_blocks sb) = 5" by (simp add: sb_layout_def)
  have "free_set v = {}" if "free_blocks sb = 0"
    using that v(4) by simp
  moreover have "dwp d (allocate_scan d sb [0..<5]) Q v"
  proof (rule allocate_scan_awp)
    fix b v' assume b: "b < 20480" "\<not> allocd v b" "\<forall>x < b. allocd v x"
      and post: "bitmap_post v (sb\<lparr>free_blocks := free_blocks sb - 1\<rparr>) (\<lambda>x. x = b \<or> allocd v x) v'"
    from b v(5) have "31 \<le> b" using not_less by blast
    with b post show "Q (Some (of_nat b), sb\<lparr>free_blocks := free_blocks sb - 1\<rparr>) v'"
      using alloc_inv_mark [OF inv b(1,2) post] by (intro some) auto
  qed (use v none in \<open>auto simp: free_set_def\<close>)
  ultimately show ?thesis
    unfolding allocate_block_def [abs_def] using v none bb
    by (intro awp_rules) (auto intro!: awp_rules)
qed

section \<open>Interface: a block allocator\<close>

text \<open>
  An allocator hands out the blocks of \<open>lo..<hi\<close>. \<open>used\<close> is its abstract state. An
  allocation returns a block that was not in use and marks exactly it, or reports that none is
  left; a release of a block in use unmarks exactly it; neither touches a block from \<open>mlim\<close>
  on, where the clients keep their data.
\<close>

locale block_allocator =
  fixes alloc :: "'d \<Rightarrow> 'b \<Rightarrow> 's \<Rightarrow> ((u32 option \<times> 'b) \<times> 's) option"
    and release :: "'d \<Rightarrow> 'b \<Rightarrow> u32 \<Rightarrow> 's \<Rightarrow> ('b \<times> 's) option"
    and ok :: "'d \<Rightarrow> 's \<Rightarrow> bool"
    and view :: "'d \<Rightarrow> 's \<Rightarrow> volume"
    and inv :: "volume \<Rightarrow> 'b \<Rightarrow> bool"
    and used :: "volume \<Rightarrow> nat \<Rightarrow> bool"
    and lo :: nat
    and hi :: nat
    and mlim :: nat
  assumes alloc_law: "inv v b \<Longrightarrow>
      awp (ok d) (view d) (alloc d b) (\<lambda>(r, b') v'. inv v' b' \<and> (\<forall>i \<ge> mlim. v' i = v i) \<and>
        (case r of
           None \<Rightarrow> used v' = used v \<and> (\<forall>x. lo \<le> x \<and> x < hi \<longrightarrow> used v x)
         | Some n \<Rightarrow> lo \<le> unat n \<and> unat n < hi \<and> \<not> used v (unat n) \<and>
             used v' = (used v)(unat n := True))) v"
    and release_law: "inv v b \<Longrightarrow> lo \<le> unat n \<Longrightarrow> unat n < hi \<Longrightarrow> used v (unat n) \<Longrightarrow>
      awp (ok d) (view d) (release d b n) (\<lambda>b' v'. inv v' b' \<and> (\<forall>i \<ge> mlim. v' i = v i) \<and>
        used v' = (used v)(unat n := False)) v"
begin

text \<open>Two allocations in a row never return the same block.\<close>

lemma alloc_twice:
  "inv v b \<Longrightarrow>
   awp (ok d) (view d) (\<lambda>s. do { ((r1, b), s) \<leftarrow> alloc d b s; ((r2, b), s) \<leftarrow> alloc d b s; Some ((r1, r2, b), s) })
     (\<lambda>(r1, r2, b') v'. inv v' b' \<and> (\<forall>i \<ge> mlim. v' i = v i) \<and>
        (\<forall>n. r1 = Some n \<longrightarrow> r2 \<noteq> Some n \<and> used v' (unat n))) v"
  by (intro awp_bind awp_mono [OF alloc_law], assumption)
     (fastforce intro!: awp_rules awp_mono [OF alloc_law] split: option.splits)

text \<open>Releasing a block just allocated restores the abstract state.\<close>

lemma alloc_release:
  "inv v b \<Longrightarrow>
   awp (ok d) (view d) (\<lambda>s. do { ((r, b), s) \<leftarrow> alloc d b s;
       case r of None \<Rightarrow> Some (b, s) | Some n \<Rightarrow> release d b n s })
     (\<lambda>b' v'. inv v' b' \<and> used v' = used v \<and> (\<forall>i \<ge> mlim. v' i = v i)) v"
proof (rule awp_bind, rule awp_mono [OF alloc_law], assumption, clarsimp)
  fix r :: "u32 option" and b1 v1
  assume 1: "inv v1 b1" "\<forall>i \<ge> mlim. v1 i = v i"
    and r: "case r of None \<Rightarrow> used v1 = used v \<and> (\<forall>x. lo \<le> x \<and> x < hi \<longrightarrow> used v x)
         | Some n \<Rightarrow> lo \<le> unat n \<and> unat n < hi \<and> \<not> used v (unat n) \<and> used v1 = (used v)(unat n := True)"
  show "awp (ok d) (view d) (\<lambda>s. case r of None \<Rightarrow> Some (b1, s) | Some n \<Rightarrow> release d b1 n s)
     (\<lambda>b' v'. inv v' b' \<and> used v' = used v \<and> (\<forall>i \<ge> mlim. v' i = v i)) v1"
  proof (cases r)
    case None
    with 1 r show ?thesis by (auto intro: awp_rules)
  next
    case (Some n)
    with r have "awp (ok d) (view d) (release d b1 n) (\<lambda>b' v'. inv v' b' \<and> (\<forall>i \<ge> mlim. v' i = v1 i) \<and>
        used v' = (used v1)(unat n := False)) v1"
      by (intro release_law 1) auto
    then have "awp (ok d) (view d) (release d b1 n)
       (\<lambda>b' v'. inv v' b' \<and> used v' = used v \<and> (\<forall>i \<ge> mlim. v' i = v i)) v1"
      by (rule awp_mono) (use Some r 1 in \<open>auto simp: fun_eq_iff\<close>)
    with Some show ?thesis by simp
  qed
qed

end

lemma allocate_block_law:
  "alloc_inv v sb \<Longrightarrow>
   dwp d (allocate_block d sb) (\<lambda>(r, sb') v'. alloc_inv v' sb' \<and> (\<forall>i \<ge> 6. v' i = v i) \<and>
     (case r of
        None \<Rightarrow> allocd v' = allocd v \<and> (\<forall>x. 31 \<le> x \<and> x < 20480 \<longrightarrow> allocd v x)
      | Some n \<Rightarrow> 31 \<le> unat n \<and> unat n < 20480 \<and> \<not> allocd v (unat n) \<and>
          allocd v' = (allocd v)(unat n := True))) v"
  by (rule allocate_block_awp) (auto simp: free_set_def unat_of_nat bitmap_post_def fun_eq_iff)

lemma mark_free_law:
  "alloc_inv v sb \<Longrightarrow> 31 \<le> unat n \<Longrightarrow> unat n < 20480 \<Longrightarrow> allocd v (unat n) \<Longrightarrow>
   dwp d (mark_free d sb n) (\<lambda>sb' v'. alloc_inv v' sb' \<and> (\<forall>i \<ge> 6. v' i = v i) \<and>
     allocd v' = (allocd v)(unat n := False)) v"
proof (rule mark_free_awp)
  assume n: "alloc_inv v sb" "31 \<le> unat n" "unat n < 20480" "allocd v (unat n)"
  fix v' assume post: "bitmap_post v (sb\<lparr>free_blocks := free_blocks sb + 1\<rparr>) (\<lambda>x. x \<noteq> unat n \<and> allocd v x) v'"
  with alloc_inv_free [OF n post] show "alloc_inv v' (sb\<lparr>free_blocks := free_blocks sb + 1\<rparr>) \<and>
      (\<forall>i \<ge> 6. v' i = v i) \<and> allocd v' = (allocd v)(unat n := False)"
    by (auto simp: bitmap_post_def fun_eq_iff)
qed (auto simp: alloc_inv_def)

interpretation bm: block_allocator allocate_block mark_free disk_ok blocks alloc_inv allocd 31 20480 6
  by unfold_locales (use allocate_block_law mark_free_law in \<open>force+\<close>)

section \<open>Formatting the bitmap\<close>

lemma init_bits_bit:
  assumes "n \<le> 8 * tb" "n < 2 ^ 32" "k < 8 * tb"
  shows "length (init_bits tb (of_nat n)) = tb \<and>
    bit (init_bits tb (of_nat n) ! (k div 8)) (k mod 8) = (k < n)"
proof -
  let ?step = "\<lambda>bitmap n. let (byte_idx, mask) = locate (of_nat n)
      in if byte_idx < tb then bitmap[byte_idx := bitmap ! byte_idx OR mask] else bitmap"
  have "length (foldl ?step (replicate tb 0) [0..<m]) = tb \<and>
      (\<forall>k < 8 * tb. bit (foldl ?step (replicate tb 0) [0..<m] ! (k div 8)) (k mod 8) = (k < m))"
    if "m \<le> n" for m
    using that
  proof (induction m)
    case 0
    then show ?case by (auto simp: less_mult_imp_div_less mult.commute)
  next
    case (Suc m)
    let ?bm = "foldl ?step (replicate tb 0) [0..<m]"
    have m: "unat (word_of_nat m :: u32) = m"
      using Suc.prems assms(2) by (simp add: unat_of_nat)
    have md: "m div 8 < tb" using Suc.prems assms(1) by (simp add: less_mult_imp_div_less mult.commute)
    have "foldl ?step (replicate tb 0) [0..<Suc m] = ?bm[m div 8 := ?bm ! (m div 8) OR 2 ^ (m mod 8)]"
      using md by (simp add: locate_eq m)
    moreover have "bit (?bm[m div 8 := ?bm ! (m div 8) OR 2 ^ (m mod 8)] ! (k div 8)) (k mod 8) = (k < Suc m)"
      if k: "k < 8 * tb" for k
    proof (cases "k div 8 = m div 8")
      case True
      then have "k mod 8 = m mod 8 \<longleftrightarrow> k = m" by (metis div_mult_mod_eq)
      with True Suc k md show ?thesis by (auto simp: bit_or_push_1 less_Suc_eq)
    next
      case False
      then have "k \<noteq> m" by auto
      with False Suc k md show ?thesis by (auto simp: less_Suc_eq)
    qed
    ultimately show ?case using Suc by simp
  qed
  from this [of n] assms show ?thesis by (simp add: init_bits_def unat_of_nat)
qed

lemma write_bitmap_awp:
  assumes "length bitmap = 2560" "i \<le> 5" "vol v"
    and "\<And>v'. vol v' \<Longrightarrow> (\<And>j. v' j = (if i < j \<and> j \<le> 5 then take 512 (drop ((j - 1) * 512) bitmap) else v j)) \<Longrightarrow>
      Q () v'"
  shows "dwp d (write_bitmap d bitmap [i..<5]) Q v"
  using assms(2-)
proof (induction "5 - i" arbitrary: i v)
  case 0
  then have "i = 5" by simp
  have "Q () v" using \<open>i = 5\<close> 0 by (intro 0(4)) auto
  with \<open>i = 5\<close> show ?case by (auto intro!: awp_rules simp: fun_eq_iff)
next
  case (Suc n)
  then have i: "i < 5" "n = 5 - Suc i" by auto
  have bn: "unat (1 + word_of_nat i :: u32) = 1 + i"
    using i by (simp add: unat_word_ariths unat_of_nat)
  let ?B = "take 512 (drop (i * 512) bitmap)"
  have ov: "overwrite (replicate 512 0) 0 ?B = ?B"
    using assms(1) i by (simp add: overwrite_def)
  have IH: "dwp d (write_bitmap d bitmap [Suc i..<5]) Q (v(1 + i := ?B))"
  proof (rule Suc.hyps(1) [OF i(2)])
    fix v' assume "vol v'" and
      v': "\<And>j. v' j = (if Suc i < j \<and> j \<le> 5 then take 512 (drop ((j - 1) * 512) bitmap) else (v(1 + i := ?B)) j)"
    have "v' j = (if i < j \<and> j \<le> 5 then take 512 (drop ((j - 1) * 512) bitmap) else v j)" for j
      using v' [of j] i by (cases "j = Suc i") auto
    with \<open>vol v'\<close> show "Q () v'" by (rule Suc.prems(3))
  qed (use i Suc.prems assms(1) in auto)
  show ?case
    unfolding upt_conv_Cons [OF i(1)] ext [OF write_bitmap.simps(2)]
    using assms(1) i IH
    by (simp add: ov) (intro awp_rules, auto simp: bn)
qed

lemma init_bitmap_awp:
  assumes "vol v" "sb_layout sb"
    and "\<And>v'. vol v' \<Longrightarrow> v' 0 = v 0 \<Longrightarrow> (\<And>b. b < 20480 \<Longrightarrow> allocd v' b = (b < 31)) \<Longrightarrow>
      (\<And>i. 6 \<le> i \<Longrightarrow> v' i = v i) \<Longrightarrow> Q () v'"
  shows "dwp d (init_bitmap d sb) Q v"
proof -
  let ?bm = "init_bits 2560 31"
  have bm: "length ?bm = 2560" "\<And>k. k < 20480 \<Longrightarrow> bit (?bm ! (k div 8)) (k mod 8) = (k < 31)"
    using init_bits_bit [of 31 2560] init_bits_bit [of 31 2560 0] by auto
  have "dwp d (write_bitmap d ?bm [0..<5]) Q v"
  proof (rule write_bitmap_awp)
    fix v' assume "vol v'"
      and v': "\<And>j. v' j = (if 0 < j \<and> j \<le> 5 then take 512 (drop ((j - 1) * 512) ?bm) else v j)"
    have "allocd v' b = (b < 31)" if b: "b < 20480" for b
    proof -
      have "b div 4096 < 5" using b by simp
      have "b = 4096 * (b div 4096) + b mod 4096" by simp
      then have "allocd v' b = bit (v' (1 + b div 4096) ! (b mod 4096 div 8)) (b mod 4096 mod 8)"
        by (metis allocd_block mod_less_divisor zero_less_numeral)
      also have "v' (1 + b div 4096) = take 512 (drop (b div 4096 * 512) ?bm)"
        using v' [of "1 + b div 4096"] \<open>b div 4096 < 5\<close> by simp
      also have "\<dots> ! (b mod 4096 div 8) = ?bm ! (b div 4096 * 512 + b mod 4096 div 8)"
        using bm(1) b by simp
      also have "b div 4096 * 512 + b mod 4096 div 8 = b div 8"
        by (rule div_8_split [symmetric])
      finally show ?thesis using bm(2) [OF b] by (simp add: mod_mod_cancel)
    qed
    with \<open>vol v'\<close> show "Q () v'" using v' by (intro assms(3)) auto
  qed (use bm assms in auto)
  then show ?thesis
    using assms(2) by (simp add: init_bitmap_def [abs_def] sb_layout_def)
qed

end
