(* ===== verification/Inode_Table.thy ===== *)
theory Inode_Table
  imports Superblock
begin

text \<open>
  Inodes, \<open>src/src/inode.rs\<close>: the record, its 84-byte encoding, the permission check, the
  block pointers (ten direct, one indirect block of 16-bit pointers), and the inode table that
  packs six inodes into a block. \<open>inode_at v n\<close> is the inode that a volume holds under
  number \<open>n\<close>; \<open>block_of v i k\<close> is the block of its \<open>k\<close>-th page.
\<close>

section \<open>The record\<close>

definition DIRECT_BLOCKS :: nat where "DIRECT_BLOCKS = 10"
definition INODE_SIZE :: nat where "INODE_SIZE = 84"

text \<open>The file-type bits of \<open>libc\<close>: \<open>S_IFREG = 0o100000\<close>, \<open>S_IFDIR = 0o040000\<close>.\<close>

definition S_IFREG :: u16 where "S_IFREG = 0x8000"
definition S_IFDIR :: u16 where "S_IFDIR = 0x4000"

record Inode =
  inode_no :: u32
  mode :: u16
  uid :: u16
  gid :: u16
  isize :: u32
  nlink :: u16
  block_count :: u16
  mtime :: i64
  atime :: i64
  ctime :: i64
  direct_blocks :: "u32 list"
  indirect_block :: u32

text \<open>\<open>current_timestamp\<close>: \<open>duration_since(UNIX_EPOCH).unwrap()\<close> panics before the epoch.\<close>

definition current_timestamp :: "'s host \<Rightarrow> 's \<Rightarrow> (i64 \<times> 's) option" where
  "current_timestamp h s = (let (t, s) = sys_time h s in if t < 0 then None else Some (of_int t, s))"

text \<open>The default modes: \<open>0o644\<close> is 420 and \<open>0o755\<close> is 493.\<close>

definition new_file :: "'s host \<Rightarrow> u32 \<Rightarrow> 's \<Rightarrow> (Inode \<times> 's) option" where
  "new_file h ino s = do {
     (now, s) \<leftarrow> current_timestamp h s;
     Some (\<lparr>inode_no = ino, mode = S_IFREG OR 420, uid = 1000, gid = 1000, isize = 0, nlink = 1,
       block_count = 0, mtime = now, atime = now, ctime = now,
       direct_blocks = replicate DIRECT_BLOCKS 0, indirect_block = 0\<rparr>, s) }"

definition new_dir :: "'s host \<Rightarrow> u32 \<Rightarrow> 's \<Rightarrow> (Inode \<times> 's) option" where
  "new_dir h ino s = do {
     (now, s) \<leftarrow> current_timestamp h s;
     Some (\<lparr>inode_no = ino, mode = S_IFDIR OR 493, uid = 1000, gid = 1000, isize = 0, nlink = 2,
       block_count = 0, mtime = now, atime = now, ctime = now,
       direct_blocks = replicate DIRECT_BLOCKS 0, indirect_block = 0\<rparr>, s) }"

section \<open>The encoding\<close>

definition inode_from_bytes :: "u32 \<Rightarrow> byte list \<Rightarrow> Inode option" where
  "inode_from_bytes ino data = do {
     direct \<leftarrow> those (map (\<lambda>i. read_u32 data (38 + i * 4)) [0..<DIRECT_BLOCKS]);
     m \<leftarrow> read_u16 data 0;
     u \<leftarrow> read_u16 data 2;
     g \<leftarrow> read_u16 data 4;
     sz \<leftarrow> read_u32 data 6;
     nl \<leftarrow> read_u16 data 10;
     bc \<leftarrow> read_u16 data 12;
     mt \<leftarrow> read_i64 data 14;
     at \<leftarrow> read_i64 data 22;
     ct \<leftarrow> read_i64 data 30;
     ind \<leftarrow> read_u32 data (38 + DIRECT_BLOCKS * 4);
     Some \<lparr>inode_no = ino, mode = m, uid = u, gid = g, isize = sz, nlink = nl, block_count = bc,
       mtime = mt, atime = at, ctime = ct, direct_blocks = direct, indirect_block = ind\<rparr> }"

text \<open>The source fills a zeroed buffer; the last two of its 84 bytes are not written.\<close>

definition inode_to_bytes :: "Inode \<Rightarrow> byte list" where
  "inode_to_bytes i = to_le_bytes 2 (mode i) @ to_le_bytes 2 (uid i) @ to_le_bytes 2 (gid i) @
     to_le_bytes 4 (isize i) @ to_le_bytes 2 (nlink i) @ to_le_bytes 2 (block_count i) @
     to_le_bytes 8 (mtime i) @ to_le_bytes 8 (atime i) @ to_le_bytes 8 (ctime i) @
     concat (map (to_le_bytes 4) (direct_blocks i)) @ to_le_bytes 4 (indirect_block i) @ [0, 0]"

section \<open>Permissions and block pointers\<close>

text \<open>\<open>0o777\<close>, \<open>0o222\<close> and \<open>0o444\<close> are 511, 146 and 292.\<close>

definition check_permission :: "Inode \<Rightarrow> bool \<Rightarrow> u32 \<Rightarrow> u32 \<Rightarrow> bool" where
  "check_permission i want_write req_uid req_gid =
     (let perm = mode i AND 511
      in if want_write then perm AND 146 \<noteq> 0 else perm AND 292 \<noteq> 0)"

definition get_block :: "Inode \<Rightarrow> 's Disk \<Rightarrow> u32 \<Rightarrow> 's \<Rightarrow> (u32 option \<times> 's) option" where
  "get_block i d idx s =
     (if idx < of_nat DIRECT_BLOCKS then do {
        block \<leftarrow> index (direct_blocks i) (unat idx);
        Some (if block = 0 then None else Some block, s) }
      else if indirect_block i \<noteq> 0 then do {
        let indirect_idx = idx - of_nat DIRECT_BLOCKS;
        (indirect_buf, s) \<leftarrow> read_block d (indirect_block i) s;
        let offset = unat indirect_idx * 2;
        if offset + 2 > PAGE_SIZE then Some (None, s)
        else do {
          w \<leftarrow> read_u16 indirect_buf offset;
          let block = ucast w;
          Some (if block = 0 then None else Some block, s) } }
      else Some (None, s))"

definition set_block :: "Inode \<Rightarrow> 's Disk \<Rightarrow> u32 \<Rightarrow> u32 \<Rightarrow> 's \<Rightarrow> (Inode \<times> 's) option" where
  "set_block i d idx block_num s =
     (if idx < of_nat DIRECT_BLOCKS then
        if unat idx < length (direct_blocks i)
        then Some (i\<lparr>direct_blocks := (direct_blocks i)[unat idx := block_num]\<rparr>, s) else None
      else do {
        let indirect_idx = idx - of_nat DIRECT_BLOCKS;
        (indirect_buf, s) \<leftarrow> read_block d (indirect_block i) s;
        let offset = unat indirect_idx * 2;
        indirect_buf \<leftarrow> copy_from_slice indirect_buf offset (offset + 2) (to_le_bytes 2 (ucast block_num :: u16));
        (_, s) \<leftarrow> write_block d (indirect_block i) indirect_buf s;
        Some (i, s) })"

section \<open>The inode table\<close>

definition inode_block_location :: "SuperBlock \<Rightarrow> u32 \<Rightarrow> u32 \<times> nat" where
  "inode_block_location sb ino =
     (let inodes_per_block = BLOCK_SIZE div INODE_SIZE;
          block_offset = unat ino div inodes_per_block;
          byte_offset = unat ino mod inodes_per_block * INODE_SIZE
      in (inode_table_start sb + of_nat block_offset, byte_offset))"

definition read_inode :: "'s Disk \<Rightarrow> SuperBlock \<Rightarrow> u32 \<Rightarrow> 's \<Rightarrow> (Inode \<times> 's) option" where
  "read_inode d sb ino s =
     (let (block_num, offset) = inode_block_location sb ino in do {
        (block_buf, s) \<leftarrow> read_block d block_num s;
        part \<leftarrow> slice_range block_buf offset (offset + INODE_SIZE);
        i \<leftarrow> inode_from_bytes ino part;
        Some (i, s) })"

definition write_inode :: "'s Disk \<Rightarrow> SuperBlock \<Rightarrow> Inode \<Rightarrow> 's \<Rightarrow> (unit \<times> 's) option" where
  "write_inode d sb i s =
     (let (block_num, offset) = inode_block_location sb (inode_no i) in do {
        (block_buf, s) \<leftarrow> read_block d block_num s;
        block_buf \<leftarrow> copy_from_slice block_buf offset (offset + INODE_SIZE) (inode_to_bytes i);
        write_block d block_num block_buf s })"

section \<open>Specification vocabulary\<close>

definition inode_wf :: "Inode \<Rightarrow> bool" where
  "inode_wf i \<longleftrightarrow> length (direct_blocks i) = 10"

text \<open>Where a formatted volume keeps inode \<open>n\<close>, and which numbers lie on the disk at all.\<close>

definition inode_blk :: "u32 \<Rightarrow> nat" where "inode_blk n = 6 + unat n div 6"
definition inode_off :: "u32 \<Rightarrow> nat" where "inode_off n = unat n mod 6 * 84"
definition on_disk :: "u32 \<Rightarrow> bool" where "on_disk n \<longleftrightarrow> inode_blk n < 20480"

definition inode_at :: "volume \<Rightarrow> u32 \<Rightarrow> Inode" where
  "inode_at v n = the (inode_from_bytes n (take 84 (drop (inode_off n) (v (inode_blk n)))))"

definition put_inode :: "volume \<Rightarrow> Inode \<Rightarrow> volume" where
  "put_inode v i = v(inode_blk (inode_no i) :=
     overwrite (v (inode_blk (inode_no i))) (inode_off (inode_no i)) (inode_to_bytes i))"

definition block_of :: "volume \<Rightarrow> Inode \<Rightarrow> nat \<Rightarrow> u32 option" where
  "block_of v i k =
     (let b = (if k < 10 then direct_blocks i ! k
               else if indirect_block i \<noteq> 0 \<and> k < 265
               then ucast (from_le_bytes (take 2 (drop (2 * (k - 10)) (v (unat (indirect_block i))))) :: u16)
               else 0)
      in if b = 0 then None else Some b)"

text \<open>The attributes of an inode but its times: what users see of it beside the contents.\<close>

record meta =
  m_mode :: u16
  m_uid :: u16
  m_gid :: u16
  m_nlink :: u16
  m_size :: u32
  m_blocks :: u16

definition meta_of :: "Inode \<Rightarrow> meta" where
  "meta_of i = \<lparr>m_mode = mode i, m_uid = uid i, m_gid = gid i, m_nlink = nlink i, m_size = isize i, m_blocks = block_count i\<rparr>"

lemma meta_of_sel [simp]:
  "m_mode (meta_of i) = mode i" "m_uid (meta_of i) = uid i" "m_gid (meta_of i) = gid i"
  "m_nlink (meta_of i) = nlink i" "m_size (meta_of i) = isize i" "m_blocks (meta_of i) = block_count i"
  by (simp_all add: meta_of_def)

text \<open>
  How the attributes change: a directory with \<open>k\<close> entries that fill its blocks takes another
  block for the next entry, a file grows to the end \<open>e\<close> of what is written to it.
\<close>

definition enter_meta :: "nat \<Rightarrow> meta \<Rightarrow> meta" where
  "enter_meta k q = (if k = 15 * unat (m_blocks q)
     then q\<lparr>m_size := ucast (m_blocks q + 1) * 510, m_blocks := m_blocks q + 1\<rparr> else q)"

definition write_meta :: "nat \<Rightarrow> meta \<Rightarrow> meta" where
  "write_meta e q = q\<lparr>m_size := of_nat (max (unat (m_size q)) e),
     m_blocks := of_nat (max (unat (m_blocks q)) ((e + 509) div 510))\<rparr>"

lemma enter_meta_sel [simp]:
  "m_mode (enter_meta k q) = m_mode q" "m_nlink (enter_meta k q) = m_nlink q"
  by (simp_all add: enter_meta_def)

lemma write_meta_sel [simp]: "m_mode (write_meta e q) = m_mode q" "m_nlink (write_meta e q) = m_nlink q"
  by (simp_all add: write_meta_def)

section \<open>Lemmas: the encoding\<close>

lemma DIRECT_BLOCKS_eq [simp]: "DIRECT_BLOCKS = 10" by (simp add: DIRECT_BLOCKS_def)
lemma INODE_SIZE_eq [simp]: "INODE_SIZE = 84" by (simp add: INODE_SIZE_def)

lemma those_map_Some: "(\<And>x. x \<in> set xs \<Longrightarrow> f x = Some (g x)) \<Longrightarrow> those (map f xs) = Some (map g xs)"
  by (induction xs) auto

lemma length_concat_le4 [simp]: "length (concat (map (to_le_bytes 4) ws)) = 4 * length ws"
  by (induction ws) auto

lemma length_inode_to_bytes [simp]: "inode_wf i \<Longrightarrow> length (inode_to_bytes i) = 84"
  by (simp add: inode_to_bytes_def inode_wf_def)

lemma read_u32_Some: "off + 4 \<le> length data \<Longrightarrow>
    read_u32 data off = Some (from_le_bytes (take 4 (drop off data)))"
  by (simp add: read_u32_def)

lemma read_u32_concat:
  "k < length ws \<Longrightarrow> read_u32 (concat (map (to_le_bytes 4) ws) @ rest) (k * 4) = Some (ws ! k)"
proof (induction ws arbitrary: k)
  case (Cons w ws)
  then show ?case by (cases k) simp_all
qed simp

lemma inode_from_to_bytes: "inode_wf i \<Longrightarrow> inode_from_bytes (inode_no i) (inode_to_bytes i) = Some i"
proof -
  assume wf: "inode_wf i"
  have "those (map (\<lambda>k. read_u32 (inode_to_bytes i) (38 + k * 4)) [0..<10]) =
      Some (map ((!) (direct_blocks i)) [0..<10])"
    using wf by (intro those_map_Some) (simp add: inode_to_bytes_def read_u32_concat inode_wf_def)
  also have "map ((!) (direct_blocks i)) [0..<10] = direct_blocks i"
    using wf map_nth [of "direct_blocks i"] by (simp add: inode_wf_def)
  finally have d: "those (map (\<lambda>k. read_u32 (inode_to_bytes i) (38 + k * 4)) [0..<10]) = Some (direct_blocks i)" .
  show ?thesis
    using wf unfolding inode_from_bytes_def DIRECT_BLOCKS_eq d
    by (simp add: inode_to_bytes_def inode_wf_def)
qed

lemma inode_from_bytes_total:
  assumes "length data = 84"
  shows "\<exists>i. inode_from_bytes n data = Some i \<and> inode_wf i \<and> inode_no i = n"
proof -
  have "those (map (\<lambda>k. read_u32 data (38 + k * 4)) [0..<10]) =
      Some (map (\<lambda>k. from_le_bytes (take 4 (drop (38 + k * 4) data))) [0..<10])"
    using assms by (intro those_map_Some) (simp add: read_u32_Some)
  then show ?thesis
    using assms by (simp add: inode_from_bytes_def read_u16_def read_u32_def read_i64_def inode_wf_def)
qed

interpretation ino: codec inode_to_bytes "inode_from_bytes n" 84 "\<lambda>i. inode_wf i \<and> inode_no i = n" for n
  by unfold_locales (auto simp: inode_from_to_bytes)

section \<open>Lemmas: the table\<close>

lemma inode_location:
  "sb_layout sb \<Longrightarrow> on_disk n \<Longrightarrow>
   inode_block_location sb n = (6 + of_nat (unat n div 6), inode_off n) \<and>
   unat (6 + of_nat (unat n div 6) :: u32) = inode_blk n"
  by (auto simp: inode_block_location_def sb_layout_def inode_off_def inode_blk_def on_disk_def
      unat_word_ariths unat_of_nat)

lemma inode_off_bound: "inode_off n + 84 \<le> 512" "inode_off n \<le> 428"
proof -
  have "unat n mod 6 < 6" by simp
  then show "inode_off n + 84 \<le> 512" "inode_off n \<le> 428" unfolding inode_off_def by linarith+
qed

lemma inode_slot_width [simp]: "min (512 - inode_off n) 84 = 84"
  using inode_off_bound(2) [of n] by linarith

lemma inode_off_le [simp]: "inode_off n \<le> 428"
  by (rule inode_off_bound)

lemma same_slot: "inode_blk m = inode_blk n \<Longrightarrow> unat m mod 6 = unat n mod 6 \<Longrightarrow> m = n"
  unfolding inode_blk_def by (metis add_left_cancel div_mult_mod_eq word_unat_eq_iff)

lemma inode_at_decode:
  assumes "vol v" "on_disk n"
  shows "inode_from_bytes n (take 84 (drop (inode_off n) (v (inode_blk n)))) = Some (inode_at v n)"
    and "inode_wf (inode_at v n)" and "inode_no (inode_at v n) = n"
proof -
  have "length (take 84 (drop (inode_off n) (v (inode_blk n)))) = 84"
    using assms by (simp add: on_disk_def)
  from inode_from_bytes_total [OF this, of n]
  show "inode_from_bytes n (take 84 (drop (inode_off n) (v (inode_blk n)))) = Some (inode_at v n)"
    and "inode_wf (inode_at v n)" and "inode_no (inode_at v n) = n"
    by (auto simp: inode_at_def)
qed

lemma read_inode_awp [awp_rules]:
  assumes "vol v" "sb_layout sb" "on_disk n" "Q (inode_at v n) v"
  shows "dwp d (read_inode d sb n) Q v"
proof -
  have "length (v (inode_blk n)) = 512" using assms by (simp add: on_disk_def)
  with assms inode_location [OF assms(2,3)] inode_at_decode [OF assms(1,3)] inode_off_bound [of n]
  show ?thesis
    unfolding read_inode_def [abs_def]
    by (auto intro!: awp_rules simp: on_disk_def)
qed

lemma write_inode_awp [awp_rules]:
  assumes "vol v" "sb_layout sb" "on_disk (inode_no i)" "inode_wf i" "Q () (put_inode v i)"
  shows "dwp d (write_inode d sb i) Q v"
proof -
  have "length (v (inode_blk (inode_no i))) = 512" using assms by (simp add: on_disk_def)
  with assms inode_location [OF assms(2,3)] inode_off_bound [of "inode_no i"]
  show ?thesis
    unfolding write_inode_def [abs_def]
    by (auto intro!: awp_rules simp: on_disk_def put_inode_def)
qed

lemma put_inode_vol [simp]: "vol v \<Longrightarrow> on_disk (inode_no i) \<Longrightarrow> inode_wf i \<Longrightarrow> vol (put_inode v i)"
  by (auto simp: put_inode_def on_disk_def)

lemma put_inode_other [simp]: "b \<noteq> inode_blk (inode_no i) \<Longrightarrow> put_inode v i b = v b"
  by (simp add: put_inode_def)

lemma inode_at_cong: "v' (inode_blk n) = v (inode_blk n) \<Longrightarrow> inode_at v' n = inode_at v n"
  by (simp add: inode_at_def)

lemma inode_at_put_inode:
  assumes "vol v" "on_disk (inode_no i)" "inode_wf i" "on_disk n"
  shows "inode_at (put_inode v i) n = (if n = inode_no i then i else inode_at v n)"
proof (cases "inode_blk n = inode_blk (inode_no i)")
  case False
  then show ?thesis by (auto intro: inode_at_cong)
next
  case True
  let ?B = "v (inode_blk (inode_no i))"
  have len: "length ?B = 512" using assms by (simp add: on_disk_def)
  show ?thesis
  proof (cases "n = inode_no i")
    case True
    with len assms(3) show ?thesis
      by (simp add: inode_at_def put_inode_def ino.dec_splice_same)
  next
    case False
    with True same_slot have "unat (inode_no i) mod 6 \<noteq> unat n mod 6" by metis
    moreover have "(unat n mod 6 + 1) * 84 \<le> 512" "(unat (inode_no i) mod 6 + 1) * 84 \<le> 512"
      using inode_off_bound(1) [of n] inode_off_bound(1) [of "inode_no i"] by (simp_all add: inode_off_def)
    ultimately have "take 84 (drop (inode_off n) (overwrite ?B (inode_off (inode_no i)) (inode_to_bytes i)))
        = take 84 (drop (inode_off n) ?B)"
      using len assms(3) unfolding inode_off_def by (intro ino.slot_splice_other [of i "inode_no i"]) auto
    with True False show ?thesis by (simp add: inode_at_def put_inode_def)
  qed
qed

lemma current_timestamp_awp [awp_rules]:
  assumes "\<And>t. Q t v"
  shows "dwp d (current_timestamp (disk_host d)) Q v"
proof (rule awpI)
  fix s assume s: "disk_ok d s" "blocks d s = v"
  then obtain c where c: "file_bytes (disk_host d) (disk_fd d) s = Some c" "length c = 10485760"
      "posix_host (disk_host d)"
    by (auto simp: disk_ok_def disk_image_def)
  obtain t s' where t: "sys_time (disk_host d) s = (t, s')" "0 \<le> t"
      "file_bytes (disk_host d) (disk_fd d) s' = Some c"
    using posix_time [OF c(3,1)] by auto
  have "disk_ok d s'" "blocks d s' = v"
    using c s t by (auto simp: disk_ok_def disk_image_def blocks_def [abs_def])
  with t assms show "\<exists>r s'. current_timestamp (disk_host d) s = Some (r, s') \<and> disk_ok d s' \<and> Q r (blocks d s')"
    by (auto simp: current_timestamp_def)
qed

section \<open>Lemmas: block pointers\<close>

lemma two_bytes: "off + 2 \<le> length buf \<Longrightarrow> read_u16 buf off = Some (from_le_bytes (take 2 (drop off buf)))"
  by (simp add: read_u16_def)

text \<open>Behind the direct blocks: the entry of the indirect block, if the page has room for it.\<close>

lemma get_indirect_awp:
  assumes v: "vol v" "unat (indirect_block i) < 20480" and idx: "10 \<le> unat idx" "indirect_block i \<noteq> 0"
    and Q: "Q (block_of v i (unat idx)) v"
  shows "dwp d (get_block i d idx) Q v"
proof -
  let ?B = "v (unat (indirect_block i))" and ?j = "unat idx - 10"
  have sub: "unat (idx - 10) = ?j" using idx(1) by (simp add: unat_sub word_le_nat_alt)
  have "\<not> idx < 10" using idx(1) by (simp add: word_less_nat_alt)
  then have eq: "get_block i d idx = (\<lambda>s. do {
      (buf, s) \<leftarrow> read_block d (indirect_block i) s;
      if ?j * 2 + 2 > 510 then Some (None, s)
      else do {
        w \<leftarrow> read_u16 buf (?j * 2);
        Some (if ucast w = (0 :: u32) then None else Some (ucast w), s) } })"
    using idx(2) unfolding get_block_def [abs_def] Let_def by (simp add: sub cong: if_cong)
  have "dwp d (\<lambda>s. if ?j * 2 + 2 > 510 then Some (None, s)
      else do {
        w \<leftarrow> read_u16 ?B (?j * 2);
        Some (if ucast w = (0 :: u32) then None else Some (ucast w), s) }) Q v"
  proof (cases "unat idx < 265")
    case True
    then have "read_u16 ?B (?j * 2) = Some (from_le_bytes (take 2 (drop (2 * ?j) ?B)))"
      using v by (subst two_bytes) (auto simp: mult.commute)
    moreover have "\<not> ?j * 2 + 2 > 510" using True by auto
    ultimately show ?thesis using True Q idx by (simp add: block_of_def Let_def awp_return)
  next
    case False
    then have "?j * 2 + 2 > 510" by auto
    with False Q idx show ?thesis by (simp add: block_of_def awp_return)
  qed
  then show ?thesis unfolding eq by (intro awp_bind read_block_awp v(2)) simp
qed

lemma get_block_awp [awp_rules]:
  assumes "vol v" "inode_wf i" "unat (indirect_block i) < 20480" "Q (block_of v i (unat idx)) v"
  shows "dwp d (get_block i d idx) Q v"
proof (cases "idx < 10")
  case True
  then have "unat idx < 10" by (simp add: word_less_nat_alt)
  with True assms show ?thesis
    by (auto simp: get_block_def [abs_def] block_of_def inode_wf_def Let_def intro!: awp_rules)
next
  case False
  then have ge: "10 \<le> unat idx" by (simp add: word_less_nat_alt)
  show ?thesis
  proof (cases "indirect_block i = 0")
    case True
    with False ge assms(4) show ?thesis
      by (auto simp: get_block_def [abs_def] block_of_def intro!: awp_rules)
  qed (use get_indirect_awp assms ge in blast)
qed

lemma u16_u32_u16: "unat (b :: u32) < 65536 \<Longrightarrow> ucast (ucast b :: u16) = b"
  by (rule unat_eqD) (simp add: unsigned_ucast_eq unsigned_take_bit_eq take_bit_nat_eq_self)

lemma overwrite_pair:
  "k + 2 \<le> length buf \<Longrightarrow> from_le_bytes (take 2 (drop k (overwrite buf k (to_le_bytes 2 w)))) = (w :: u16)"
  using splice_same [of k "to_le_bytes 2 w" buf] by simp

lemma set_block_awp:
  assumes "vol v" "inode_wf i"
    and direct: "unat idx < 10 \<Longrightarrow> Q (i\<lparr>direct_blocks := (direct_blocks i)[unat idx := b]\<rparr>) v"
    and indirect: "10 \<le> unat idx \<Longrightarrow> unat (indirect_block i) < 20480 \<and> unat idx < 266 \<and>
      Q i (v(unat (indirect_block i) := overwrite (v (unat (indirect_block i))) (2 * (unat idx - 10)) (to_le_bytes 2 (ucast b :: u16))))"
  shows "dwp d (set_block i d idx b) Q v"
proof (cases "idx < 10")
  case True
  then have "unat idx < 10" by (simp add: word_less_nat_alt)
  with True assms(2) direct show ?thesis
    by (auto simp: set_block_def [abs_def] inode_wf_def intro!: awp_rules)
next
  case False
  then have ge: "10 \<le> unat idx" by (simp add: word_less_nat_alt)
  have sub: "unat (idx - 10) * 2 = 2 * (unat idx - 10)"
    using ge by (simp add: unat_sub word_le_nat_alt mult.commute)
  note ind = indirect [OF ge]
  then have "length (v (unat (indirect_block i))) = 512" using assms(1) by simp
  with False ind sub show ?thesis
    by (auto simp: set_block_def [abs_def] Let_def mult.commute intro!: awp_rules)
qed

lemma block_of_set_direct:
  "k < 10 \<Longrightarrow> inode_wf i \<Longrightarrow> b \<noteq> 0 \<Longrightarrow>
   block_of v (i\<lparr>direct_blocks := (direct_blocks i)[k := b]\<rparr>) k = Some b"
  by (simp add: block_of_def inode_wf_def)

lemma block_of_set_indirect:
  assumes "vol v" "10 \<le> k" "k < 265" "indirect_block i \<noteq> 0" "unat (indirect_block i) < 20480"
    "b \<noteq> 0" "unat b < 65536"
  shows "block_of (v(unat (indirect_block i) := overwrite (v (unat (indirect_block i))) (2 * (k - 10)) (to_le_bytes 2 (ucast b :: u16)))) i k = Some b"
  using assms overwrite_pair [of "2 * (k - 10)" "v (unat (indirect_block i))" "ucast b"]
  by (simp add: block_of_def u16_u32_u16)

section \<open>Lemmas: a block of zeros holds unused inodes\<close>

lemma from_le_zeros: "(\<forall>b \<in> set bs. b = 0) \<Longrightarrow> from_le_bytes bs = 0"
  by (induction bs) auto

lemma inode_at_zero_block:
  assumes "v (inode_blk m) = replicate 512 0"
  shows "nlink (inode_at v m) = 0"
proof -
  have "take 84 (drop (inode_off m) (replicate 512 (0 :: byte))) = replicate 84 0"
    using inode_slot_width [of m] by (simp add: min.commute)
  with assms inode_from_bytes_total [of "replicate 84 0" m] show ?thesis
    by (auto simp: inode_at_def inode_from_bytes_def read_u16_def from_le_zeros split: Option.bind_splits)
qed

end
