(* ===== verification/Directory.thy ===== *)
theory Directory
  imports Bitmap Inode_Table
begin

text \<open>
  Directories, \<open>src/src/directory.rs\<close>. A directory is a file whose pages hold fifteen slots
  of 34 bytes each; a slot whose \<open>name_len\<close> is zero is free. \<open>dir_slots v i\<close> lists the
  slots of a directory in the order the loops visit them, \<open>dir_entries\<close> the ones in use and
  \<open>dir_map\<close> is the finite map from names to inode numbers they stand for. The interface
  \<open>name_map\<close> states the laws of that map.
\<close>

section \<open>Directory entries\<close>

definition DIR_ENTRY_HEADER_SIZE :: nat where "DIR_ENTRY_HEADER_SIZE = 4 + 1 + 1"
definition MAX_NAME_LEN :: nat where "MAX_NAME_LEN = 28"
definition DIR_ENTRY_SIZE :: nat where "DIR_ENTRY_SIZE = DIR_ENTRY_HEADER_SIZE + MAX_NAME_LEN"

record DirEntry =
  entry_inode :: u32
  entry_type :: byte
  name_len :: byte
  name_bytes :: "byte list"

text \<open>A \<open>&str\<close> is the list of its UTF-8 bytes.\<close>

type_synonym str = "byte list"

definition entry_new :: "u32 \<Rightarrow> str \<Rightarrow> bool \<Rightarrow> DirEntry" where
  "entry_new ino name is_dir =
     (let len = min (length name) MAX_NAME_LEN
      in \<lparr>entry_inode = ino, entry_type = (if is_dir then 2 else 1), name_len = of_nat len,
          name_bytes = overwrite (replicate MAX_NAME_LEN 0) 0 (take len name)\<rparr>)"

definition is_empty :: "DirEntry \<Rightarrow> bool" where
  "is_empty e \<longleftrightarrow> name_len e = 0"

definition name_str :: "DirEntry \<Rightarrow> str option" where
  "name_str e = do {
     bs \<leftarrow> slice_range (name_bytes e) 0 (unat (name_len e));
     Some (if utf8_valid bs then bs else ascii ''???'') }"

definition entry_from_bytes :: "byte list \<Rightarrow> DirEntry option" where
  "entry_from_bytes data = do {
     ino \<leftarrow> read_u32 data 0;
     ty \<leftarrow> index data 4;
     len \<leftarrow> index data 5;
     nm \<leftarrow> slice_range data 6 (6 + MAX_NAME_LEN);
     Some \<lparr>entry_inode = ino, entry_type = ty, name_len = len, name_bytes = nm\<rparr> }"

definition entry_to_bytes :: "DirEntry \<Rightarrow> byte list" where
  "entry_to_bytes e = to_le_bytes 4 (entry_inode e) @ [entry_type e, name_len e] @ name_bytes e"

section \<open>Listing and searching\<close>

definition entries_per_block :: nat where "entries_per_block = PAGE_SIZE div DIR_ENTRY_SIZE"

text \<open>The inner loop of \<open>dir_lookup\<close>, over the slots of one block, and its outer loop.\<close>

fun lookup_block :: "u32 \<Rightarrow> byte list \<Rightarrow> nat list \<Rightarrow> (DirEntry \<times> u32 \<times> nat) list option" where
  "lookup_block block_num block_buf [] = Some []"
| "lookup_block block_num block_buf (j # js) = do {
     let offset = j * DIR_ENTRY_SIZE;
     part \<leftarrow> slice_range block_buf offset (offset + DIR_ENTRY_SIZE);
     entry \<leftarrow> entry_from_bytes part;
     rest \<leftarrow> lookup_block block_num block_buf js;
     Some (if \<not> is_empty entry then (entry, block_num, offset) # rest else rest) }"

fun lookup_loop :: "'s Disk \<Rightarrow> Inode \<Rightarrow> nat list \<Rightarrow> 's \<Rightarrow> ((DirEntry \<times> u32 \<times> nat) list \<times> 's) option" where
  "lookup_loop d dir [] s = Some ([], s)"
| "lookup_loop d dir (i # is) s = do {
     (b, s) \<leftarrow> get_block dir d (of_nat i) s;
     case b of
       None \<Rightarrow> lookup_loop d dir is s
     | Some block_num \<Rightarrow> do {
         (block_buf, s) \<leftarrow> read_block d block_num s;
         here \<leftarrow> lookup_block block_num block_buf [0..<entries_per_block];
         (rest, s) \<leftarrow> lookup_loop d dir is s;
         Some (here @ rest, s) } }"

definition dir_lookup :: "'s Disk \<Rightarrow> Inode \<Rightarrow> 's \<Rightarrow> ((DirEntry \<times> u32 \<times> nat) list \<times> 's) option" where
  "dir_lookup d dir s = lookup_loop d dir [0..<unat (block_count dir)] s"

text \<open>\<open>dir_find\<close>: the same loops, stopping at the first entry with the name.\<close>

fun find_block :: "str \<Rightarrow> u32 \<Rightarrow> byte list \<Rightarrow> nat list \<Rightarrow> (DirEntry \<times> u32 \<times> nat) option option" where
  "find_block name block_num block_buf [] = Some None"
| "find_block name block_num block_buf (j # js) = do {
     let offset = j * DIR_ENTRY_SIZE;
     part \<leftarrow> slice_range block_buf offset (offset + DIR_ENTRY_SIZE);
     entry \<leftarrow> entry_from_bytes part;
     if is_empty entry then find_block name block_num block_buf js
     else do {
       n \<leftarrow> name_str entry;
       if n = name then Some (Some (entry, block_num, offset))
       else find_block name block_num block_buf js } }"

fun find_loop :: "'s Disk \<Rightarrow> Inode \<Rightarrow> str \<Rightarrow> nat list \<Rightarrow> 's \<Rightarrow> ((DirEntry \<times> u32 \<times> nat) option \<times> 's) option" where
  "find_loop d dir name [] s = Some (None, s)"
| "find_loop d dir name (i # is) s = do {
     (b, s) \<leftarrow> get_block dir d (of_nat i) s;
     case b of
       None \<Rightarrow> find_loop d dir name is s
     | Some block_num \<Rightarrow> do {
         (block_buf, s) \<leftarrow> read_block d block_num s;
         r \<leftarrow> find_block name block_num block_buf [0..<entries_per_block];
         case r of
           Some hit \<Rightarrow> Some (Some hit, s)
         | None \<Rightarrow> find_loop d dir name is s } }"

definition dir_find :: "'s Disk \<Rightarrow> Inode \<Rightarrow> str \<Rightarrow> 's \<Rightarrow> ((DirEntry \<times> u32 \<times> nat) option \<times> 's) option" where
  "dir_find d dir name s = find_loop d dir name [0..<unat (block_count dir)] s"

section \<open>Adding and removing\<close>

text \<open>The first free slot of a block.\<close>

fun free_slot :: "byte list \<Rightarrow> nat list \<Rightarrow> nat option option" where
  "free_slot block_buf [] = Some None"
| "free_slot block_buf (j # js) = do {
     let offset = j * DIR_ENTRY_SIZE;
     part \<leftarrow> slice_range block_buf offset (offset + DIR_ENTRY_SIZE);
     entry \<leftarrow> entry_from_bytes part;
     if is_empty entry then Some (Some offset) else free_slot block_buf js }"

text \<open>
  The first loop of \<open>dir_add_entry\<close>: it returns the updated directory inode where it stored the
  entry in a free slot (the function then returns \<open>Ok\<close>), and \<open>None\<close> where every block is full.
\<close>

fun add_loop :: "'s Disk \<Rightarrow> SuperBlock \<Rightarrow> Inode \<Rightarrow> byte list \<Rightarrow> nat list \<Rightarrow> 's \<Rightarrow> (Inode option \<times> 's) option" where
  "add_loop d sb dir entry_bytes [] s = Some (None, s)"
| "add_loop d sb dir entry_bytes (i # is) s = do {
     (b, s) \<leftarrow> get_block dir d (of_nat i) s;
     block_num \<leftarrow> b;
     (block_buf, s) \<leftarrow> read_block d block_num s;
     slot \<leftarrow> free_slot block_buf [0..<entries_per_block];
     case slot of
       None \<Rightarrow> add_loop d sb dir entry_bytes is s
     | Some offset \<Rightarrow> do {
         block_buf \<leftarrow> copy_from_slice block_buf offset (offset + DIR_ENTRY_SIZE) entry_bytes;
         (_, s) \<leftarrow> write_block d block_num block_buf s;
         (now, s) \<leftarrow> current_timestamp (disk_host d) s;
         let dir = dir\<lparr>mtime := now\<rparr>;
         (_, s) \<leftarrow> write_inode d sb dir s;
         Some (Some dir, s) } }"

text \<open>The second half of \<open>dir_add_entry\<close>, for a directory whose blocks are all full: a new block.\<close>

definition dir_extend :: "'s Disk \<Rightarrow> SuperBlock \<Rightarrow> Inode \<Rightarrow> byte list \<Rightarrow> 's \<Rightarrow>
    (((string + unit) \<times> SuperBlock \<times> Inode) \<times> 's) option" where
  "dir_extend d sb dir entry_bytes s = (
     let count = unat (block_count dir) in
     if count < DIRECT_BLOCKS then do {
       ((r, sb), s) \<leftarrow> allocate_block d sb s;
       case r of
         None \<Rightarrow> Some ((Inl ''no free blocks for directory expansion'', sb, dir), s)
       | Some new_block \<Rightarrow> do {
           block_buf \<leftarrow> copy_from_slice (replicate BLOCK_SIZE 0) 0 DIR_ENTRY_SIZE entry_bytes;
           (_, s) \<leftarrow> write_block d new_block block_buf s;
           let bc = block_count dir + 1;
           (now, s) \<leftarrow> current_timestamp (disk_host d) s;
           let dir = dir\<lparr>direct_blocks := (direct_blocks dir)[count := new_block],
               block_count := bc, isize := ucast bc * of_nat PAGE_SIZE, mtime := now\<rparr>;
           (_, s) \<leftarrow> write_inode d sb dir s;
           Some ((Inr (), sb, dir), s) } }
     else Some ((Inl ''directory too large'', sb, dir), s))"

definition dir_add_entry :: "'s Disk \<Rightarrow> SuperBlock \<Rightarrow> Inode \<Rightarrow> str \<Rightarrow> u32 \<Rightarrow> bool \<Rightarrow> 's \<Rightarrow>
    (((string + unit) \<times> SuperBlock \<times> Inode) \<times> 's) option" where
  "dir_add_entry d sb dir name child_inode is_dir s = do {
     (hit, s) \<leftarrow> dir_find d dir name s;
     if hit \<noteq> None then Some ((Inl ''entry already exists'', sb, dir), s)
     else do {
       let entry_bytes = entry_to_bytes (entry_new child_inode name is_dir);
       (placed, s) \<leftarrow> add_loop d sb dir entry_bytes [0..<unat (block_count dir)] s;
       case placed of
         Some dir \<Rightarrow> Some ((Inr (), sb, dir), s)
       | None \<Rightarrow> dir_extend d sb dir entry_bytes s } }"

definition dir_remove_entry :: "'s Disk \<Rightarrow> SuperBlock \<Rightarrow> Inode \<Rightarrow> str \<Rightarrow> 's \<Rightarrow>
    (((string + unit) \<times> Inode) \<times> 's) option" where
  "dir_remove_entry d sb dir name s = do {
     (hit, s) \<leftarrow> dir_find d dir name s;
     case hit of
       None \<Rightarrow> Some ((Inl ''entry not found'', dir), s)
     | Some (_, block_num, offset) \<Rightarrow> do {
         (block_buf, s) \<leftarrow> read_block d block_num s;
         if offset + 5 < length block_buf then do {
           (_, s) \<leftarrow> write_block d block_num (block_buf[offset + 5 := 0]) s;
           (now, s) \<leftarrow> current_timestamp (disk_host d) s;
           let dir = dir\<lparr>mtime := now\<rparr>;
           (_, s) \<leftarrow> write_inode d sb dir s;
           Some ((Inr (), dir), s) }
         else None } }"

section \<open>Path resolution\<close>

text \<open>\<open>path.split('/')\<close>, with the empty components filtered out.\<close>

fun split_slash :: "str \<Rightarrow> str list" where
  "split_slash [] = [[]]"
| "split_slash (c # cs) =
     (if c = 0x2F then [] # split_slash cs
      else case split_slash cs of [] \<Rightarrow> [[c]] | w # ws \<Rightarrow> (c # w) # ws)"

definition components :: "str \<Rightarrow> str list" where
  "components path = filter (\<lambda>c. c \<noteq> []) (split_slash path)"

fun resolve_loop :: "'s Disk \<Rightarrow> SuperBlock \<Rightarrow> Inode \<Rightarrow> str list \<Rightarrow> 's \<Rightarrow>
    ((string + Inode \<times> Inode \<times> str) \<times> 's) option" where
  "resolve_loop d sb current [] s = Some (Inl ''path resolution failed'', s)"
| "resolve_loop d sb current (component # rest) s =
     (if component = [] \<or> length component > MAX_NAME_LEN
      then Some (Inl ''invalid path component'', s)
      else do {
        (entry, s) \<leftarrow> dir_find d current component s;
        case entry of
          Some (de, _, _) \<Rightarrow> do {
            (child, s) \<leftarrow> read_inode d sb (entry_inode de) s;
            if rest = [] then Some (Inr (child, current, component), s)
            else if mode child AND S_IFDIR = 0 then Some (Inl ''not a directory'', s)
            else resolve_loop d sb child rest s }
        | None \<Rightarrow> Some (Inl (if rest = [] then ''no such entry'' else ''no such directory''), s) })"

definition path_resolve :: "'s Disk \<Rightarrow> SuperBlock \<Rightarrow> str \<Rightarrow> 's \<Rightarrow>
    ((string + Inode \<times> Inode \<times> str) \<times> 's) option" where
  "path_resolve d sb path s = do {
     (root, s) \<leftarrow> read_inode d sb (root_inode sb) s;
     if path = [0x2F] \<or> components path = [] then Some (Inr (root, root, []), s)
     else resolve_loop d sb root (components path) s }"

section \<open>Specification vocabulary\<close>

definition slot :: "byte list \<Rightarrow> nat \<Rightarrow> DirEntry" where
  "slot buf j = the (entry_from_bytes (take 34 (drop (j * 34) buf)))"

definition block_slots :: "volume \<Rightarrow> u32 \<Rightarrow> (DirEntry \<times> u32 \<times> nat) list" where
  "block_slots v b = map (\<lambda>j. (slot (v (unat b)) j, b, j * 34)) [0..<15]"

definition dir_blocks :: "Inode \<Rightarrow> u32 list" where
  "dir_blocks i = take (unat (block_count i)) (direct_blocks i)"

definition dir_slots :: "volume \<Rightarrow> Inode \<Rightarrow> (DirEntry \<times> u32 \<times> nat) list" where
  "dir_slots v i = concat (map (block_slots v) (dir_blocks i))"

definition dir_entries :: "volume \<Rightarrow> Inode \<Rightarrow> (DirEntry \<times> u32 \<times> nat) list" where
  "dir_entries v i = filter (\<lambda>x. \<not> is_empty (fst x)) (dir_slots v i)"

definition entry_name :: "DirEntry \<Rightarrow> str" where
  "entry_name e = the (name_str e)"

definition dir_map :: "volume \<Rightarrow> Inode \<Rightarrow> str \<Rightarrow> (u32 \<times> byte) option" where
  "dir_map v i n = map_option (\<lambda>(e, _). (entry_inode e, entry_type e))
     (find (\<lambda>x. entry_name (fst x) = n) (dir_entries v i))"

text \<open>A directory the code can work on: at most ten distinct blocks, names within their slots.\<close>

definition dir_wf :: "volume \<Rightarrow> Inode \<Rightarrow> bool" where
  "dir_wf v i \<longleftrightarrow> inode_wf i \<and> unat (block_count i) \<le> 10 \<and> unat (indirect_block i) < 20480 \<and>
     distinct (dir_blocks i) \<and> (\<forall>b \<in> set (dir_blocks i). 31 \<le> unat b \<and> unat b < 20480) \<and>
     (\<forall>x \<in> set (dir_entries v i). unat (name_len (fst x)) \<le> 28)"

definition name_ok :: "str \<Rightarrow> bool" where
  "name_ok n \<longleftrightarrow> n \<noteq> [] \<and> length n \<le> 28 \<and> utf8_valid n"

text \<open>The values of the record that the fixed-size array \<open>name: [u8; 28]\<close> allows.\<close>

definition entry_wf :: "DirEntry \<Rightarrow> bool" where
  "entry_wf e \<longleftrightarrow> length (name_bytes e) = 28"

definition slots_of :: "byte list \<Rightarrow> u32 \<Rightarrow> nat list \<Rightarrow> (DirEntry \<times> u32 \<times> nat) list" where
  "slots_of buf b js = map (\<lambda>j. (slot buf j, b, j * 34)) js"

definition names_distinct :: "volume \<Rightarrow> Inode \<Rightarrow> bool" where
  "names_distinct v i \<longleftrightarrow> distinct (map (\<lambda>x. entry_name (fst x)) (dir_entries v i))"

text \<open>The block of a directory's own inode is none of its data blocks.\<close>

definition dir_clear :: "Inode \<Rightarrow> bool" where
  "dir_clear i \<longleftrightarrow> on_disk (inode_no i) \<and> inode_blk (inode_no i) \<notin> unat ` set (dir_blocks i)"

text \<open>The block that the next allocation returns.\<close>

definition next_free :: "volume \<Rightarrow> nat \<Rightarrow> bool" where
  "next_free v b \<longleftrightarrow> b < 20480 \<and> \<not> allocd v b \<and> (\<forall>x < b. allocd v x)"

text \<open>
  The invariant of a directory together with the allocator, and the condition under which it
  can grow: the inode table is not entirely reserved in the bitmap, so the next block handed
  out may be the one that holds the directory's own inode.
\<close>

definition dir_inv :: "volume \<Rightarrow> SuperBlock \<Rightarrow> Inode \<Rightarrow> bool" where
  "dir_inv v sb i \<longleftrightarrow> alloc_inv v sb \<and> dir_wf v i \<and> names_distinct v i \<and> dir_clear i \<and>
     (\<forall>b \<in> set (dir_blocks i). allocd v (unat b))"

definition dir_room :: "volume \<Rightarrow> Inode \<Rightarrow> bool" where
  "dir_room v i \<longleftrightarrow> \<not> next_free v (inode_blk (inode_no i))"

text \<open>The inode of a directory that has taken a new block \<open>b\<close> at time \<open>t\<close>.\<close>

definition add_grown :: "Inode \<Rightarrow> u32 \<Rightarrow> i64 \<Rightarrow> Inode" where
  "add_grown i b t = i\<lparr>direct_blocks := (direct_blocks i)[unat (block_count i) := b],
     block_count := block_count i + 1, isize := ucast (block_count i + 1) * 510, mtime := t\<rparr>"

section \<open>Lemmas: entries and names\<close>

lemma MAX_NAME_LEN_eq [simp]: "MAX_NAME_LEN = 28" by (simp add: MAX_NAME_LEN_def)
lemma DIR_ENTRY_SIZE_eq [simp]: "DIR_ENTRY_SIZE = 34"
  by (simp add: DIR_ENTRY_SIZE_def DIR_ENTRY_HEADER_SIZE_def)
lemma entries_per_block_eq [simp]: "entries_per_block = 15"
  by (simp add: entries_per_block_def)

lemma length_entry_to_bytes [simp]: "entry_wf e \<Longrightarrow> length (entry_to_bytes e) = 34"
  by (simp add: entry_to_bytes_def entry_wf_def)

lemma index_skip [simp]: "length xs \<le> i \<Longrightarrow> index (xs @ ys) i = index ys (i - length xs)"
  by (auto simp: index_def nth_append)

lemma entry_from_to_bytes: "entry_wf e \<Longrightarrow> entry_from_bytes (entry_to_bytes e @ rest) = Some e"
  by (simp add: entry_from_bytes_def entry_to_bytes_def entry_wf_def slice_range_def nth_append)

interpretation de: codec entry_to_bytes entry_from_bytes 34 entry_wf
  using entry_from_to_bytes [where rest = "[]"] by unfold_locales auto

lemma entry_from_bytes_total:
  "length data = 34 \<Longrightarrow> \<exists>e. entry_from_bytes data = Some e \<and> entry_wf e"
  by (simp add: entry_from_bytes_def read_u32_def entry_wf_def)

lemma slot_decode:
  "length buf = 512 \<Longrightarrow> j < 15 \<Longrightarrow>
   slice_range buf (j * 34) (j * 34 + 34) = Some (take 34 (drop (j * 34) buf)) \<and>
   entry_from_bytes (take 34 (drop (j * 34) buf)) = Some (slot buf j) \<and> entry_wf (slot buf j)"
  using entry_from_bytes_total [of "take 34 (drop (j * 34) buf)"] by (auto simp: slot_def)

lemma entry_wf_new [simp]: "entry_wf (entry_new ino name is_dir)"
  by (simp add: entry_wf_def entry_new_def Let_def)

lemma unat_name_len_new: "unat (name_len (entry_new ino name is_dir)) = min (length name) 28"
  by (simp add: entry_new_def Let_def unat_of_nat)

lemma entry_new_not_empty: "name \<noteq> [] \<Longrightarrow> \<not> is_empty (entry_new ino name is_dir)"
proof
  assume "name \<noteq> []" "is_empty (entry_new ino name is_dir)"
  then have "unat (name_len (entry_new ino name is_dir)) = 0" by (simp add: is_empty_def)
  with \<open>name \<noteq> []\<close> show False by (simp add: unat_name_len_new min_def split: if_splits)
qed

lemma name_str_new: "utf8_valid (take 28 name) \<Longrightarrow> name_str (entry_new ino name is_dir) = Some (take 28 name)"
  unfolding name_str_def unat_name_len_new
  by (auto simp: entry_new_def Let_def overwrite_def min_def)

lemma entry_name_new: "name_ok n \<Longrightarrow> entry_name (entry_new ino n is_dir) = n"
  by (simp add: entry_name_def name_ok_def name_str_new)

lemma name_str_total: "entry_wf e \<Longrightarrow> unat (name_len e) \<le> 28 \<Longrightarrow> name_str e = Some (entry_name e)"
  by (simp add: entry_name_def name_str_def entry_wf_def)

lemma name_str_length: "entry_wf e \<Longrightarrow> name_str e = Some n \<Longrightarrow> length n \<le> 28"
  by (auto simp: name_str_def slice_range_def entry_wf_def split: if_splits)

section \<open>Lemmas: the loops over one block\<close>

lemma lookup_block_eq:
  "length buf = 512 \<Longrightarrow> \<forall>j \<in> set js. j < 15 \<Longrightarrow>
   lookup_block b buf js = Some (filter (\<lambda>x. \<not> is_empty (fst x)) (slots_of buf b js))"
  by (induction js) (auto simp: slot_decode slots_of_def)

lemma find_block_eq:
  assumes "length buf = 512" "\<forall>j \<in> set js. j < 15 \<and> (\<not> is_empty (slot buf j) \<longrightarrow> unat (name_len (slot buf j)) \<le> 28)"
  shows "find_block n b buf js =
    Some (find (\<lambda>x. entry_name (fst x) = n) (filter (\<lambda>x. \<not> is_empty (fst x)) (slots_of buf b js)))"
  using assms(2)
  by (induction js) (auto simp: slot_decode [OF assms(1)] slots_of_def name_str_total)

lemma free_slot_eq:
  assumes "length buf = 512" "\<forall>j \<in> set js. j < 15"
  shows "free_slot buf js = Some (map_option (\<lambda>j. j * 34) (find (\<lambda>j. is_empty (slot buf j)) js))"
  using assms(2) by (induction js) (auto simp: slot_decode [OF assms(1)])

lemma block_slots_eq: "block_slots v b = slots_of (v (unat b)) b [0..<15]"
  by (simp add: block_slots_def slots_of_def)

section \<open>Lemmas: the loops over a directory\<close>

lemma dir_block_of:
  assumes "dir_wf v i" "k < unat (block_count i)"
  shows "block_of v i k = Some (dir_blocks i ! k)" "dir_blocks i ! k \<in> set (dir_blocks i)"
proof -
  have len: "length (direct_blocks i) = 10" "unat (block_count i) \<le> 10"
    using assms by (auto simp: dir_wf_def inode_wf_def)
  then show mem: "dir_blocks i ! k \<in> set (dir_blocks i)"
    using assms(2) by (intro nth_mem) (simp add: dir_blocks_def)
  then have "31 \<le> unat (dir_blocks i ! k)" using assms(1) by (simp add: dir_wf_def)
  then have "dir_blocks i ! k \<noteq> 0" by auto
  moreover have "dir_blocks i ! k = direct_blocks i ! k"
    using assms(2) by (simp add: dir_blocks_def)
  ultimately show "block_of v i k = Some (dir_blocks i ! k)"
    using assms(2) len by (simp add: block_of_def)
qed

lemma length_dir_blocks: "dir_wf v i \<Longrightarrow> length (dir_blocks i) = unat (block_count i)"
  by (auto simp: dir_wf_def inode_wf_def dir_blocks_def)

lemma dir_slots_drop: "dir_wf v i \<Longrightarrow> k < unat (block_count i) \<Longrightarrow>
    drop k (dir_blocks i) = dir_blocks i ! k # drop (Suc k) (dir_blocks i)"
  by (simp add: Cons_nth_drop_Suc length_dir_blocks)

lemma dir_get_block_awp:
  assumes "vol v" "dir_wf v i" "k < unat (block_count i)" "Q (Some (dir_blocks i ! k)) v"
  shows "dwp d (get_block i d (of_nat k)) Q v"
proof (rule get_block_awp)
  have "k < 2 ^ 32" using assms by (auto simp: dir_wf_def)
  then show "Q (block_of v i (unat (word_of_nat k :: u32))) v"
    using assms dir_block_of [OF assms(2,3)] by (simp add: unat_of_nat)
qed (use assms in \<open>auto simp: dir_wf_def\<close>)

lemma dir_block_names:
  assumes "dir_wf v i" "b \<in> set (dir_blocks i)" "j < 15" "\<not> is_empty (slot (v (unat b)) j)"
  shows "unat (name_len (slot (v (unat b)) j)) \<le> 28"
proof -
  have "(slot (v (unat b)) j, b, j * 34) \<in> set (dir_entries v i)"
    using assms by (force simp: dir_entries_def dir_slots_def block_slots_def)
  then show ?thesis using assms(1) by (force simp: dir_wf_def)
qed

lemma lookup_loop_awp:
  assumes "vol v" "dir_wf v i" "k \<le> unat (block_count i)"
    and "Q (filter (\<lambda>x. \<not> is_empty (fst x)) (concat (map (block_slots v) (drop k (dir_blocks i))))) v"
  shows "dwp d (lookup_loop d i [k..<unat (block_count i)]) Q v"
  using assms(3,4)
proof (induction "unat (block_count i) - k" arbitrary: k Q)
  case 0
  then show ?case
    using length_dir_blocks [OF assms(2)] by (auto intro!: awp_rules simp: fun_eq_iff)
next
  case (Suc n)
  then have k: "k < unat (block_count i)" "n = unat (block_count i) - Suc k" by auto
  let ?b = "dir_blocks i ! k"
  have b: "unat ?b < 20480" using dir_block_of [OF assms(2) k(1)] assms(2) by (auto simp: dir_wf_def)
  let ?F = "filter (\<lambda>x. \<not> is_empty (fst x)) :: (DirEntry \<times> u32 \<times> nat) list \<Rightarrow> _"
  have IH: "dwp d (lookup_loop d i [Suc k..<unat (block_count i)])
      (\<lambda>rest. awp (disk_ok d) (blocks d) (\<lambda>s. Some (?F (block_slots v ?b) @ rest, s)) Q) v"
    using k Suc.prems(2) dir_slots_drop [OF assms(2) k(1)]
    by (intro Suc.hyps(1)) (auto intro!: awp_rules)
  show ?case
    unfolding upt_conv_Cons [OF k(1)] ext [OF lookup_loop.simps(2)]
    using assms k b IH
    by (intro awp_bind dir_get_block_awp)
       (auto simp: lookup_block_eq block_slots_eq intro!: awp_rules)
qed

lemma dir_lookup_awp:
  "vol v \<Longrightarrow> dir_wf v i \<Longrightarrow> Q (dir_entries v i) v \<Longrightarrow> dwp d (dir_lookup d i) Q v"
  unfolding dir_lookup_def [abs_def]
  by (rule lookup_loop_awp) (auto simp: dir_entries_def dir_slots_def)

lemma find_append: "find P (xs @ ys) = (case find P xs of None \<Rightarrow> find P ys | Some x \<Rightarrow> Some x)"
  by (induction xs) auto

lemma find_loop_awp:
  assumes "vol v" "dir_wf v i" "k \<le> unat (block_count i)"
    and "Q (find (\<lambda>x. entry_name (fst x) = n)
          (filter (\<lambda>x. \<not> is_empty (fst x)) (concat (map (block_slots v) (drop k (dir_blocks i)))))) v"
  shows "dwp d (find_loop d i n [k..<unat (block_count i)]) Q v"
  using assms(3,4)
proof (induction "unat (block_count i) - k" arbitrary: k)
  case 0
  then show ?case
    using length_dir_blocks [OF assms(2)] by (auto intro!: awp_rules simp: fun_eq_iff)
next
  case (Suc m)
  then have k: "k < unat (block_count i)" "m = unat (block_count i) - Suc k" by auto
  let ?b = "dir_blocks i ! k"
  have b: "unat ?b < 20480" using dir_block_of [OF assms(2) k(1)] assms(2) by (auto simp: dir_wf_def)
  let ?here = "find (\<lambda>x. entry_name (fst x) = n) (filter (\<lambda>x. \<not> is_empty (fst x)) (block_slots v ?b))"
  have here: "find_block n ?b (v (unat ?b)) [0..<15] = Some ?here"
    using assms(1) b dir_block_names [OF assms(2) dir_block_of(2) [OF assms(2) k(1)]]
    by (simp add: find_block_eq block_slots_eq)
  show ?case
    unfolding upt_conv_Cons [OF k(1)] ext [OF find_loop.simps(2)]
  proof (intro awp_bind dir_get_block_awp [OF assms(1,2) k(1)], simp, intro awp_bind read_block_awp b, simp add: here, intro awp_rules)
    assume "?here = None"
    with Suc.prems(2) show "dwp d (find_loop d i n [Suc k..<unat (block_count i)]) Q v"
      using k dir_slots_drop [OF assms(2) k(1)]
      by (intro Suc.hyps(1)) (auto simp: find_append)
  next
    fix y assume "?here = Some y"
    with Suc.prems(2) show "Q (Some y) v"
      using dir_slots_drop [OF assms(2) k(1)] by (simp add: find_append)
  qed
qed

lemma dir_find_awp:
  "vol v \<Longrightarrow> dir_wf v i \<Longrightarrow> Q (find (\<lambda>x. entry_name (fst x) = n) (dir_entries v i)) v \<Longrightarrow>
   dwp d (dir_find d i n) Q v"
  unfolding dir_find_def [abs_def]
  by (rule find_loop_awp) (auto simp: dir_entries_def dir_slots_def)

lemma dir_entry_name:
  assumes "vol v" "dir_wf v i" "x \<in> set (dir_entries v i)"
  shows "name_str (fst x) = Some (entry_name (fst x))"
proof -
  obtain b j where x: "b \<in> set (dir_blocks i)" "j < 15" "fst x = slot (v (unat b)) j"
    using assms(3) by (auto simp: dir_entries_def dir_slots_def block_slots_def)
  then have "entry_wf (fst x)" using assms(1,2) slot_decode [of "v (unat b)" j] by (simp add: dir_wf_def)
  with assms(2,3) show ?thesis by (intro name_str_total) (auto simp: dir_wf_def)
qed

section \<open>Lemmas: changing one slot\<close>

lemma slot_overwrite:
  assumes "length buf = 512" "j < 15" "j' < 15" "entry_wf e"
  shows "slot (overwrite buf (j * 34) (entry_to_bytes e)) j' = (if j' = j then e else slot buf j')"
proof (cases "j' = j")
  case True
  then show ?thesis using assms de.dec_splice_same [of e "j * 34" buf] by (simp add: slot_def)
next
  case False
  then show ?thesis using assms de.slot_splice_other [of e j j' buf] by (simp add: slot_def)
qed

lemma entry_from_bytes_clear:
  "length data = 34 \<Longrightarrow> entry_from_bytes data = Some e \<Longrightarrow>
   entry_from_bytes (data[5 := 0]) = Some (e\<lparr>name_len := 0\<rparr>)"
  by (auto simp: entry_from_bytes_def read_u32_def)

lemma slot_clear:
  assumes "length buf = 512" "j < 15" "j' < 15"
  shows "slot (buf[j * 34 + 5 := 0]) j' = (if j' = j then (slot buf j)\<lparr>name_len := 0\<rparr> else slot buf j')"
proof (cases "j' = j")
  case True
  have "take 34 (drop (j * 34) (buf[j * 34 + 5 := 0])) = (take 34 (drop (j * 34) buf))[5 := 0]"
    by (simp add: drop_update_swap take_update_swap)
  then show ?thesis
    using True assms slot_decode [OF assms(1,2)]
      entry_from_bytes_clear [of "take 34 (drop (j * 34) buf)" "slot buf j"]
    by (simp add: slot_def)
next
  case False
  have "take 34 (drop (j' * 34) (buf[j * 34 + 5 := 0])) = take 34 (drop (j' * 34) buf)"
    using False assms by (intro nth_equalityI) (auto simp: nth_list_update)
  with False show ?thesis by (simp add: slot_def)
qed

lemma dir_slots_change:
  assumes "dir_wf v i" "b \<in> set (dir_blocks i)" "j < 15"
    and "\<And>j'. j' < 15 \<Longrightarrow> j' \<noteq> j \<Longrightarrow> slot (v' (unat b)) j' = slot (v (unat b)) j'"
    and "\<And>b'. b' \<in> set (dir_blocks i) \<Longrightarrow> b' \<noteq> b \<Longrightarrow> v' (unat b') = v (unat b')"
  obtains A B where "dir_slots v i = A @ (slot (v (unat b)) j, b, j * 34) # B"
    and "dir_slots v' i = A @ (slot (v' (unat b)) j, b, j * 34) # B"
proof -
  obtain xs ys where bl: "dir_blocks i = xs @ b # ys" "b \<notin> set xs" "b \<notin> set ys"
    using assms(1,2) by (metis dir_wf_def distinct.simps(2) distinct_append not_distinct_conv_prefix split_list_first)
  have other: "v' (unat x) = v (unat x)" if "x \<in> set xs \<or> x \<in> set ys" for x
    using that bl by (intro assms(5)) auto
  have pre: "map (block_slots v') xs = map (block_slots v) xs" "map (block_slots v') ys = map (block_slots v) ys"
    using other by (auto simp: block_slots_def)
  have js: "[0..<15] = [0..<j] @ j # [Suc j..<15]"
    using assms(3) upt_add_eq_append [of 0 j "15 - j"]
    by (metis le_add_diff_inverse less_imp_le_nat upt_conv_Cons zero_le)
  let ?s = "\<lambda>v j. (slot (v (unat b)) j, b, j * 34)"
  have blk: "block_slots w b = map (?s w) [0..<j] @ ?s w j # map (?s w) [Suc j..<15]" for w
    unfolding block_slots_def js by simp
  have "map (?s v') [0..<j] = map (?s v) [0..<j]" "map (?s v') [Suc j..<15] = map (?s v) [Suc j..<15]"
    using assms(3,4) by auto
  with blk [of v] blk [of v'] pre bl(1) show ?thesis
    by (intro that [of "concat (map (block_slots v) xs) @ map (?s v) [0..<j]"
          "map (?s v) [Suc j..<15] @ concat (map (block_slots v) ys)"])
       (simp_all add: dir_slots_def cong: map_cong)
qed

lemma dir_blocks_mtime [simp]: "dir_blocks (i\<lparr>mtime := t\<rparr>) = dir_blocks i"
  by (simp add: dir_blocks_def)

lemma dir_slots_mtime [simp]: "dir_slots v (i\<lparr>mtime := t\<rparr>) = dir_slots v i"
  by (simp add: dir_slots_def)

lemma dir_entries_mtime [simp]: "dir_entries v (i\<lparr>mtime := t\<rparr>) = dir_entries v i"
  by (simp add: dir_entries_def)

lemma inode_wf_mtime [simp]: "inode_wf (i\<lparr>mtime := t\<rparr>) = inode_wf i"
  by (simp add: inode_wf_def)

lemma dir_slots_cong: "(\<And>b. b \<in> set (dir_blocks i) \<Longrightarrow> v' (unat b) = v (unat b)) \<Longrightarrow> dir_slots v' i = dir_slots v i"
  unfolding dir_slots_def by (intro arg_cong [of _ _ concat] map_cong) (auto simp: block_slots_def)

lemma dir_clear_ne: "dir_clear i \<Longrightarrow> b \<in> set (dir_blocks i) \<Longrightarrow> unat b \<noteq> inode_blk (inode_no i)"
  by (metis dir_clear_def imageI)

text \<open>Filling a free slot inserts one entry, clearing a slot deletes one.\<close>

lemma dir_entries_fill:
  assumes "vol v" "dir_wf v i" "b \<in> set (dir_blocks i)" "j < 15" "is_empty (slot (v (unat b)) j)"
    and "entry_wf e" "\<not> is_empty e" "dir_clear i" "inode_wf (i\<lparr>mtime := t\<rparr>)"
    and v': "v' = put_inode (v(unat b := overwrite (v (unat b)) (j * 34) (entry_to_bytes e))) (i\<lparr>mtime := t\<rparr>)"
  obtains A B where "dir_entries v i = A @ B" "dir_entries v' i = A @ (e, b, j * 34) # B"
proof -
  note ne = dir_clear_ne [OF assms(8)]
  have len: "length (v (unat b)) = 512" using assms(1-3) by (auto simp: dir_wf_def)
  have vb: "v' (unat b) = overwrite (v (unat b)) (j * 34) (entry_to_bytes e)"
    using ne [OF assms(3)] by (simp add: v')
  obtain A B where AB: "dir_slots v i = A @ (slot (v (unat b)) j, b, j * 34) # B"
      "dir_slots v' i = A @ (slot (v' (unat b)) j, b, j * 34) # B"
  proof (rule dir_slots_change [OF assms(2-4)])
    show "slot (v' (unat b)) j' = slot (v (unat b)) j'" if "j' < 15" "j' \<noteq> j" for j'
      using that slot_overwrite [OF len assms(4) that(1) assms(6)] by (simp add: vb)
    show "v' (unat b') = v (unat b')" if "b' \<in> set (dir_blocks i)" "b' \<noteq> b" for b'
      using that ne [OF that(1)] by (auto simp: v' dest: word_unat_eq_iff [THEN iffD2])
  qed
  moreover have "slot (v' (unat b)) j = e"
    using slot_overwrite [OF len assms(4,4,6)] by (simp add: vb)
  ultimately show ?thesis
    using assms(5,7) by (intro that [of "filter (\<lambda>x. \<not> is_empty (fst x)) A" "filter (\<lambda>x. \<not> is_empty (fst x)) B"])
      (simp_all add: dir_entries_def)
qed

lemma dir_entries_clear:
  assumes "vol v" "dir_wf v i" "b \<in> set (dir_blocks i)" "j < 15" "\<not> is_empty (slot (v (unat b)) j)" "dir_clear i"
    and v': "v' = put_inode (v(unat b := (v (unat b))[j * 34 + 5 := 0])) (i\<lparr>mtime := t\<rparr>)"
  obtains A B where "dir_entries v i = A @ (slot (v (unat b)) j, b, j * 34) # B" "dir_entries v' i = A @ B"
proof -
  note ne = dir_clear_ne [OF assms(6)]
  have len: "length (v (unat b)) = 512" using assms(1-3) by (auto simp: dir_wf_def)
  have vb: "v' (unat b) = (v (unat b))[j * 34 + 5 := 0]"
    using ne [OF assms(3)] by (simp add: v')
  obtain A B where AB: "dir_slots v i = A @ (slot (v (unat b)) j, b, j * 34) # B"
      "dir_slots v' i = A @ (slot (v' (unat b)) j, b, j * 34) # B"
  proof (rule dir_slots_change [OF assms(2-4)])
    show "slot (v' (unat b)) j' = slot (v (unat b)) j'" if "j' < 15" "j' \<noteq> j" for j'
      using that slot_clear [OF len assms(4) that(1)] by (simp add: vb)
    show "v' (unat b') = v (unat b')" if "b' \<in> set (dir_blocks i)" "b' \<noteq> b" for b'
      using that ne [OF that(1)] by (auto simp: v' dest: word_unat_eq_iff [THEN iffD2])
  qed
  moreover have "is_empty (slot (v' (unat b)) j)"
    using slot_clear [OF len assms(4,4)] by (simp add: vb is_empty_def)
  ultimately show ?thesis
    using assms(5) by (intro that [of "filter (\<lambda>x. \<not> is_empty (fst x)) A" "filter (\<lambda>x. \<not> is_empty (fst x)) B"])
      (simp_all add: dir_entries_def)
qed

section \<open>Lemmas: adding and removing\<close>

lemma add_loop_awp:
  assumes "vol v" "sb_layout sb" "dir_wf v i" "on_disk (inode_no i)" "length eb = 34" "k \<le> unat (block_count i)"
    and full: "(\<And>b j. b \<in> set (drop k (dir_blocks i)) \<Longrightarrow> j < 15 \<Longrightarrow> \<not> is_empty (slot (v (unat b)) j)) \<Longrightarrow> Q None v"
    and place: "\<And>b j t. b \<in> set (dir_blocks i) \<Longrightarrow> j < 15 \<Longrightarrow> is_empty (slot (v (unat b)) j) \<Longrightarrow>
      Q (Some (i\<lparr>mtime := t\<rparr>))
        (put_inode (v(unat b := overwrite (v (unat b)) (j * 34) eb)) (i\<lparr>mtime := t\<rparr>))"
  shows "dwp d (add_loop d sb i eb [k..<unat (block_count i)]) Q v"
  using assms(6) full
proof (induction "unat (block_count i) - k" arbitrary: k)
  case 0
  then have "Q None v" using length_dir_blocks [OF assms(3)] by (intro 0(3)) auto
  with 0 show ?case by (auto intro!: awp_rules simp: fun_eq_iff)
next
  case (Suc m)
  then have k: "k < unat (block_count i)" "m = unat (block_count i) - Suc k" by auto
  let ?b = "dir_blocks i ! k"
  let ?B = "v (unat ?b)"
  note mem = dir_block_of(2) [OF assms(3) k(1)]
  have b: "unat ?b < 20480" using mem assms(3) by (auto simp: dir_wf_def)
  then have len: "length ?B = 512" using assms(1) by simp
  have fs: "free_slot ?B [0..<15] = Some (map_option (\<lambda>j. j * 34) (find (\<lambda>j. is_empty (slot ?B j)) [0..<15]))"
    using len by (intro free_slot_eq) auto
  show ?case
  proof (cases "find (\<lambda>j. is_empty (slot ?B j)) [0..<15]")
    case None
    then have none: "\<And>j. j < 15 \<Longrightarrow> \<not> is_empty (slot ?B j)" by (auto simp: find_None_iff)
    have "dwp d (add_loop d sb i eb [Suc k..<unat (block_count i)]) Q v"
    proof (rule Suc.hyps(1) [OF k(2)])
      assume "\<And>b j. b \<in> set (drop (Suc k) (dir_blocks i)) \<Longrightarrow> j < 15 \<Longrightarrow> \<not> is_empty (slot (v (unat b)) j)"
      with none show "Q None v"
        using dir_slots_drop [OF assms(3) k(1)] by (intro Suc.prems(2)) auto
    qed (use k in simp)
    with fs None b show ?thesis
      unfolding upt_conv_Cons [OF k(1)] ext [OF add_loop.simps(2)]
      by (intro awp_bind dir_get_block_awp [OF assms(1,3) k(1)]) (auto intro!: awp_rules)
  next
    case (Some j)
    then have j: "j < 15" "is_empty (slot ?B j)" by (auto simp: find_Some_iff)
    have v1: "vol (v(unat ?b := overwrite ?B (j * 34) eb))" using j len assms by simp
    show ?thesis
      unfolding upt_conv_Cons [OF k(1)] ext [OF add_loop.simps(2)]
      using fs Some b j len assms(2-5) v1 place [OF mem j]
      by (intro awp_bind dir_get_block_awp [OF assms(1,3) k(1)])
         (auto simp: dir_wf_def Let_def intro!: awp_rules)
  qed
qed

lemma add_grown_facts [simp]:
  "inode_no (add_grown i b t) = inode_no i" "inode_wf (add_grown i b t) = inode_wf i"
  by (simp_all add: add_grown_def inode_wf_def)

lemma dir_extend_awp:
  assumes inv: "alloc_inv v sb" and wf: "dir_wf v i" and od: "on_disk (inode_no i)" and eb: "length eb = 34"
    and nospace: "free_set v = {} \<Longrightarrow> Q (Inl ''no free blocks for directory expansion'', sb, i) v"
    and large: "unat (block_count i) = 10 \<Longrightarrow> Q (Inl ''directory too large'', sb, i) v"
    and grow: "\<And>b v1 t. unat (block_count i) < 10 \<Longrightarrow> 31 \<le> b \<Longrightarrow> b < 20480 \<Longrightarrow> \<not> allocd v b \<Longrightarrow>
      \<forall>x < b. allocd v x \<Longrightarrow>
      bitmap_post v (sb\<lparr>free_blocks := free_blocks sb - 1\<rparr>) (\<lambda>x. x = b \<or> allocd v x) v1 \<Longrightarrow>
      alloc_inv v1 (sb\<lparr>free_blocks := free_blocks sb - 1\<rparr>) \<Longrightarrow>
      Q (Inr (), sb\<lparr>free_blocks := free_blocks sb - 1\<rparr>, add_grown i (of_nat b) t)
        (put_inode (v1(b := overwrite (replicate 512 0) 0 eb)) (add_grown i (of_nat b) t))"
  shows "dwp d (dir_extend d sb i eb) Q v"
proof (cases "unat (block_count i) < 10")
  case False
  with wf large show ?thesis
    by (auto simp: dir_extend_def [abs_def] dir_wf_def intro!: awp_rules)
next
  case True
  have eq: "dir_extend d sb i eb = (\<lambda>s. do {
      ((r, sb), s) \<leftarrow> allocate_block d sb s;
      case r of
        None \<Rightarrow> Some ((Inl ''no free blocks for directory expansion'', sb, i), s)
      | Some b \<Rightarrow> do {
          (_, s) \<leftarrow> write_block d b (overwrite (replicate 512 0) 0 eb) s;
          (now, s) \<leftarrow> current_timestamp (disk_host d) s;
          (_, s) \<leftarrow> write_inode d sb (add_grown i b now) s;
          Some ((Inr (), sb, add_grown i b now), s) } })"
    using True eb by (simp add: dir_extend_def [abs_def] add_grown_def Let_def cong: option.case_cong)
  show ?thesis
    unfolding eq
  proof (rule awp_bind, rule allocate_block_awp [OF inv], goal_cases)
    case 1
    with nospace show ?case by (auto intro!: awp_rules)
  next
    case (2 b v1)
    then have "unat (word_of_nat b :: u32) = b" "vol v1" "sb_layout sb"
      using inv by (auto simp: unat_of_nat alloc_inv_def)
    with 2 grow [OF True 2(2,1,3,4,5,6)] wf od eb show ?case
      by (auto simp: dir_wf_def intro!: awp_rules)
  qed
qed

lemma dir_add_entry_awp:
  assumes inv: "alloc_inv v sb" and wf: "dir_wf v i" and od: "on_disk (inode_no i)"
    and dup: "find (\<lambda>x. entry_name (fst x) = n) (dir_entries v i) \<noteq> None \<Longrightarrow> Q (Inl ''entry already exists'', sb, i) v"
    and place: "\<And>b j t. find (\<lambda>x. entry_name (fst x) = n) (dir_entries v i) = None \<Longrightarrow>
      b \<in> set (dir_blocks i) \<Longrightarrow> j < 15 \<Longrightarrow> is_empty (slot (v (unat b)) j) \<Longrightarrow>
      Q (Inr (), sb, i\<lparr>mtime := t\<rparr>)
        (put_inode (v(unat b := overwrite (v (unat b)) (j * 34) (entry_to_bytes (entry_new c n isd)))) (i\<lparr>mtime := t\<rparr>))"
    and full: "find (\<lambda>x. entry_name (fst x) = n) (dir_entries v i) = None \<Longrightarrow>
      (\<And>b j. b \<in> set (dir_blocks i) \<Longrightarrow> j < 15 \<Longrightarrow> \<not> is_empty (slot (v (unat b)) j)) \<Longrightarrow>
      dwp d (dir_extend d sb i (entry_to_bytes (entry_new c n isd))) Q v"
  shows "dwp d (dir_add_entry d sb i n c isd) Q v"
proof -
  from inv have v: "vol v" "sb_layout sb" by (auto simp: alloc_inv_def)
  let ?hit = "find (\<lambda>x. entry_name (fst x) = n) (dir_entries v i)"
  let ?eb = "entry_to_bytes (entry_new c n isd)"
  have loop: "dwp d (add_loop d sb i ?eb [0..<unat (block_count i)])
      (\<lambda>placed. awp (disk_ok d) (blocks d) (\<lambda>s. case placed of
         Some dir \<Rightarrow> Some ((Inr (), sb, dir), s) | None \<Rightarrow> dir_extend d sb i ?eb s) Q) v"
    if nf: "?hit = None"
    using v wf od place [OF nf] full [OF nf] by (intro add_loop_awp) (auto intro!: awp_rules)
  show ?thesis
  proof (cases ?hit)
    case None
    with loop v wf show ?thesis
      unfolding dir_add_entry_def [abs_def] Let_def
      by (intro awp_bind dir_find_awp) (auto intro!: awp_rules)
  next
    case (Some x)
    then obtain e b p where "?hit = Some (e, b, p)" by (cases x) auto
    with dup v wf show ?thesis
      unfolding dir_add_entry_def [abs_def] Let_def
      by (intro awp_bind dir_find_awp) (auto intro!: awp_rules)
  qed
qed

lemma dir_remove_entry_awp:
  assumes "vol v" "sb_layout sb" and wf: "dir_wf v i" and od: "on_disk (inode_no i)"
    and none: "find (\<lambda>x. entry_name (fst x) = n) (dir_entries v i) = None \<Longrightarrow> Q (Inl ''entry not found'', i) v"
    and some: "\<And>b j t. find (\<lambda>x. entry_name (fst x) = n) (dir_entries v i) = Some (slot (v (unat b)) j, b, j * 34) \<Longrightarrow>
      b \<in> set (dir_blocks i) \<Longrightarrow> j < 15 \<Longrightarrow> \<not> is_empty (slot (v (unat b)) j) \<Longrightarrow> entry_name (slot (v (unat b)) j) = n \<Longrightarrow>
      Q (Inr (), i\<lparr>mtime := t\<rparr>) (put_inode (v(unat b := (v (unat b))[j * 34 + 5 := 0])) (i\<lparr>mtime := t\<rparr>))"
  shows "dwp d (dir_remove_entry d sb i n) Q v"
proof (cases "find (\<lambda>x. entry_name (fst x) = n) (dir_entries v i)")
  case None
  with none show ?thesis
    unfolding dir_remove_entry_def [abs_def] Let_def
    by (intro awp_bind dir_find_awp assms(1) wf) (auto intro!: awp_rules)
next
  case (Some x)
  then have "x \<in> set (dir_entries v i)" "entry_name (fst x) = n"
    by (auto simp: find_Some_iff)
  then obtain b j where x: "x = (slot (v (unat b)) j, b, j * 34)" "b \<in> set (dir_blocks i)" "j < 15"
      "\<not> is_empty (slot (v (unat b)) j)" "entry_name (slot (v (unat b)) j) = n"
    by (auto simp: dir_entries_def dir_slots_def block_slots_def)
  have b: "unat b < 20480" using x wf by (simp add: dir_wf_def)
  with assms(1) have len: "length (v (unat b)) = 512" by simp
  have "vol (v(unat b := (v (unat b))[j * 34 + 5 := 0]))" using assms(1) len by simp
  with Some x b len assms(2) wf od some [of b j] show ?thesis
    unfolding dir_remove_entry_def [abs_def] Let_def
    by (intro awp_bind dir_find_awp assms(1) wf) (auto simp: dir_wf_def intro!: awp_rules)
qed

section \<open>The directory as a map from names\<close>

lemma find_None_names:
  "find (\<lambda>x. f x = n) xs = None \<longleftrightarrow> n \<notin> f ` set xs"
  by (auto simp: find_None_iff)

lemma find_insert:
  "n \<notin> f ` set (A @ B) \<Longrightarrow> f x = n \<Longrightarrow>
   find (\<lambda>y. f y = m) (A @ x # B) = (if m = n then Some x else find (\<lambda>y. f y = m) (A @ B))"
  by (induction A) auto

lemma find_delete:
  "distinct (map f (A @ x # B)) \<Longrightarrow>
   find (\<lambda>y. f y = m) (A @ B) = (if m = f x then None else find (\<lambda>y. f y = m) (A @ x # B))"
  by (induction A) (auto simp: find_None_iff image_iff)

lemma dir_map_None: "dir_map v i n = None \<longleftrightarrow> find (\<lambda>x. entry_name (fst x) = n) (dir_entries v i) = None"
  by (simp add: dir_map_def)

lemma dir_map_mtime [simp]: "dir_map v (i\<lparr>mtime := t\<rparr>) = dir_map v i"
  by (simp add: dir_map_def fun_eq_iff)

lemma names_distinct_mtime [simp]: "names_distinct v (i\<lparr>mtime := t\<rparr>) = names_distinct v i"
  by (simp add: names_distinct_def)

lemma dir_map_insert:
  assumes "dir_map v i n = None" "dir_entries v i = A @ B" "dir_entries v' i' = A @ (e, p) # B" "entry_name e = n"
  shows "dir_map v' i' = (dir_map v i)(n \<mapsto> (entry_inode e, entry_type e))"
    and "names_distinct v i \<Longrightarrow> names_distinct v' i'"
proof -
  have "n \<notin> (\<lambda>x. entry_name (fst x)) ` set (A @ B)"
    using assms(1,2) by (simp add: dir_map_None find_None_names)
  with assms show "dir_map v' i' = (dir_map v i)(n \<mapsto> (entry_inode e, entry_type e))"
    and "names_distinct v i \<Longrightarrow> names_distinct v' i'"
    by (auto simp: dir_map_def fun_eq_iff find_insert [of n "\<lambda>x. entry_name (fst x)"] names_distinct_def)
qed

lemma dir_map_delete:
  assumes "names_distinct v i" "dir_entries v i = A @ (e, p) # B" "dir_entries v' i' = A @ B" "entry_name e = n"
  shows "dir_map v' i' = (dir_map v i)(n := None)" and "names_distinct v' i'"
proof -
  have "distinct (map (\<lambda>x. entry_name (fst x)) (A @ (e, p) # B))"
    using assms(1,2) by (simp add: names_distinct_def)
  from find_delete [OF this] assms show "dir_map v' i' = (dir_map v i)(n := None)" "names_distinct v' i'"
    by (auto simp: dir_map_def fun_eq_iff names_distinct_def)
qed

lemma dir_wf_mtime [simp]: "dir_wf v (i\<lparr>mtime := t\<rparr>) = dir_wf v i"
  by (simp add: dir_wf_def)

lemma entry_type_new [simp]: "entry_type (entry_new c n isd) = (if isd then 2 else 1)"
    "entry_inode (entry_new c n isd) = c"
  by (simp_all add: entry_new_def Let_def)

text \<open>Storing a new entry in a free slot of a directory.\<close>

lemma dir_fill:
  assumes "vol v" "dir_wf v i" "names_distinct v i" "dir_clear i" "name_ok n" "dir_map v i n = None"
    and "b \<in> set (dir_blocks i)" "j < 15" "is_empty (slot (v (unat b)) j)"
    and v': "v' = put_inode (v(unat b := overwrite (v (unat b)) (j * 34) (entry_to_bytes (entry_new c n isd)))) (i\<lparr>mtime := t\<rparr>)"
  shows "vol v'" "dir_wf v' (i\<lparr>mtime := t\<rparr>)" "names_distinct v' (i\<lparr>mtime := t\<rparr>)"
    "dir_map v' (i\<lparr>mtime := t\<rparr>) = (dir_map v i)(n \<mapsto> (c, if isd then 2 else 1))"
    "inode_at v' (inode_no i) = i\<lparr>mtime := t\<rparr>"
proof -
  let ?e = "entry_new c n isd"
  have wf: "inode_wf i" "unat b < 20480" using assms(2,7) by (auto simp: dir_wf_def)
  then have v1: "vol (v(unat b := overwrite (v (unat b)) (j * 34) (entry_to_bytes ?e)))"
    using assms(1,8) by simp
  have od: "on_disk (inode_no i)" using assms(4) by (simp add: dir_clear_def)
  show "vol v'" using v1 wf od by (simp add: v')
  have ne: "\<not> is_empty ?e" using assms(5) by (intro entry_new_not_empty) (simp add: name_ok_def)
  obtain A B where AB: "dir_entries v i = A @ B" "dir_entries v' i = A @ (?e, b, j * 34) # B"
    using dir_entries_fill [OF assms(1,2,7-9) entry_wf_new ne assms(4) _ v'] wf(1) by auto
  from dir_map_insert [OF assms(6) AB entry_name_new [OF assms(5)]] assms(3)
  show "names_distinct v' (i\<lparr>mtime := t\<rparr>)" "dir_map v' (i\<lparr>mtime := t\<rparr>) = (dir_map v i)(n \<mapsto> (c, if isd then 2 else 1))"
    by auto
  have "unat (name_len ?e) \<le> 28" by (simp add: unat_name_len_new)
  with assms(2) AB show "dir_wf v' (i\<lparr>mtime := t\<rparr>)" by (auto simp: dir_wf_def)
  show "inode_at v' (inode_no i) = i\<lparr>mtime := t\<rparr>"
    using inode_at_put_inode [OF v1, of "i\<lparr>mtime := t\<rparr>" "inode_no i"] wf od by (simp add: v')
qed

text \<open>Clearing the slot of a name.\<close>

lemma dir_clear_slot:
  assumes "vol v" "dir_wf v i" "names_distinct v i" "dir_clear i"
    and "b \<in> set (dir_blocks i)" "j < 15" "\<not> is_empty (slot (v (unat b)) j)" "entry_name (slot (v (unat b)) j) = n"
    and v': "v' = put_inode (v(unat b := (v (unat b))[j * 34 + 5 := 0])) (i\<lparr>mtime := t\<rparr>)"
  shows "vol v'" "dir_wf v' (i\<lparr>mtime := t\<rparr>)" "names_distinct v' (i\<lparr>mtime := t\<rparr>)"
    "dir_map v' (i\<lparr>mtime := t\<rparr>) = (dir_map v i)(n := None)"
    "inode_at v' (inode_no i) = i\<lparr>mtime := t\<rparr>"
proof -
  have wf: "inode_wf i" "unat b < 20480" using assms(2,5) by (auto simp: dir_wf_def)
  then have v1: "vol (v(unat b := (v (unat b))[j * 34 + 5 := 0]))" using assms(1) by simp
  have od: "on_disk (inode_no i)" using assms(4) by (simp add: dir_clear_def)
  show "vol v'" using v1 wf od by (simp add: v')
  obtain A B where AB: "dir_entries v i = A @ (slot (v (unat b)) j, b, j * 34) # B" "dir_entries v' i = A @ B"
    using dir_entries_clear [OF assms(1,2,5-7,4) v'] by auto
  from dir_map_delete [OF assms(3) AB assms(8)]
  show "names_distinct v' (i\<lparr>mtime := t\<rparr>)" "dir_map v' (i\<lparr>mtime := t\<rparr>) = (dir_map v i)(n := None)"
    by auto
  from assms(2) AB show "dir_wf v' (i\<lparr>mtime := t\<rparr>)" by (auto simp: dir_wf_def)
  show "inode_at v' (inode_no i) = i\<lparr>mtime := t\<rparr>"
    using inode_at_put_inode [OF v1, of "i\<lparr>mtime := t\<rparr>" "inode_no i"] wf od by (simp add: v')
qed

text \<open>Storing a new entry in a block appended to a full directory.\<close>

lemma slot_zero_block: "j < 15 \<Longrightarrow> is_empty (slot (replicate 512 0) j)"
  by (simp add: slot_def entry_from_bytes_def read_u32_def is_empty_def)

lemma block_slots_new:
  assumes "v (unat b) = overwrite (replicate 512 0) 0 (entry_to_bytes e)" "entry_wf e" "\<not> is_empty e"
  shows "filter (\<lambda>x. \<not> is_empty (fst x)) (block_slots v b) = [(e, b, 0)]"
proof -
  have "slot (v (unat b)) j = (if j = 0 then e else slot (replicate 512 0) j)" if "j < 15" for j
    using slot_overwrite [of "replicate 512 0" 0 j e] assms that by simp
  then have "filter (\<lambda>x. \<not> is_empty (fst x)) (map (\<lambda>j. (slot (v (unat b)) j, b, j * 34)) [1..<15]) = []"
    using slot_zero_block by (auto simp: filter_empty_conv)
  moreover have "[0..<15] = 0 # [1..<15]" by (simp add: upt_conv_Cons)
  moreover have "slot (v (unat b)) 0 = e"
    using slot_overwrite [of "replicate 512 0" 0 0 e] assms by simp
  ultimately show ?thesis
    unfolding block_slots_def using assms(3) by simp
qed

lemma dir_blocks_grown:
  assumes "dir_wf v i" "unat (block_count i) < 10"
  shows "dir_blocks (add_grown i b t) = dir_blocks i @ [b]" "unat (block_count (add_grown i b t)) = unat (block_count i) + 1"
proof -
  show 1: "unat (block_count (add_grown i b t)) = unat (block_count i) + 1"
    using assms(2) by (simp add: add_grown_def unat_word_ariths)
  have "take (unat (block_count i) + 1) ((direct_blocks i)[unat (block_count i) := b]) =
      take (unat (block_count i)) (direct_blocks i) @ [b]"
    using assms by (simp add: dir_wf_def inode_wf_def take_Suc_conv_app_nth)
  with 1 show "dir_blocks (add_grown i b t) = dir_blocks i @ [b]"
    by (simp add: dir_blocks_def) (simp add: add_grown_def)
qed

lemma dir_grow:
  assumes "dir_wf v i" "names_distinct v i" "dir_clear i" "name_ok n" "dir_map v i n = None"
    and "unat (block_count i) < 10" "unat b < 20480" "31 \<le> unat b" "b \<notin> set (dir_blocks i)" "unat b \<noteq> inode_blk (inode_no i)"
    and "vol v1" "\<forall>x \<ge> 6. v1 x = v x"
    and v': "v' = put_inode (v1(unat b := overwrite (replicate 512 0) 0 (entry_to_bytes (entry_new c n isd)))) (add_grown i b t)"
  shows "vol v'" "dir_wf v' (add_grown i b t)" "names_distinct v' (add_grown i b t)"
    "dir_map v' (add_grown i b t) = (dir_map v i)(n \<mapsto> (c, if isd then 2 else 1))"
    "inode_at v' (inode_no i) = add_grown i b t" "dir_clear (add_grown i b t)"
proof -
  let ?e = "entry_new c n isd" and ?i' = "add_grown i b t"
  have ne: "\<not> is_empty ?e" using assms(4) by (intro entry_new_not_empty) (simp add: name_ok_def)
  have wf: "inode_wf i" using assms(1) by (simp add: dir_wf_def)
  have v2: "vol (v1(unat b := overwrite (replicate 512 0) 0 (entry_to_bytes ?e)))" using assms(11) by simp
  have od: "on_disk (inode_no i)" using assms(3) by (simp add: dir_clear_def)
  show "vol v'" using v2 wf od by (simp add: v')
  note bl = dir_blocks_grown [OF assms(1,6), of b t]
  have "dir_slots v' i = dir_slots v i"
  proof (rule dir_slots_cong)
    fix b' assume b': "b' \<in> set (dir_blocks i)"
    then have "31 \<le> unat b'" "unat b' \<noteq> unat b"
      using assms(1,9) by (auto simp: dir_wf_def dest: word_unat_eq_iff [THEN iffD2])
    then show "v' (unat b') = v (unat b')"
      using assms(12) dir_clear_ne [OF assms(3) b'] by (simp add: v')
  qed
  moreover have "filter (\<lambda>x. \<not> is_empty (fst x)) (block_slots v' b) = [(?e, b, 0)]"
    using assms(10) ne by (intro block_slots_new) (simp_all add: v')
  ultimately have ent: "dir_entries v' ?i' = dir_entries v i @ (?e, b, 0) # []"
    using bl by (simp add: dir_entries_def dir_slots_def)
  from dir_map_insert [OF assms(5) _ ent entry_name_new [OF assms(4)]] assms(2)
  show "names_distinct v' ?i'" "dir_map v' ?i' = (dir_map v i)(n \<mapsto> (c, if isd then 2 else 1))"
    by auto
  have "unat (name_len ?e) \<le> 28" by (simp add: unat_name_len_new)
  with assms(1,6-9) ent bl show "dir_wf v' ?i'" by (auto simp: dir_wf_def) (auto simp: add_grown_def)
  show "inode_at v' (inode_no i) = ?i'"
    using inode_at_put_inode [OF v2, of ?i' "inode_no i"] wf od by (simp add: v')
  show "dir_clear ?i'"
    using assms(3,10) bl by (auto simp: dir_clear_def)
qed

section \<open>Interface: a map from names\<close>

text \<open>
  A directory promises a finite map from names: searching reads it, adding a new name extends
  it by one binding (or fails and leaves it), adding a name it has is refused, removing deletes
  one binding. \<open>room\<close> is the condition under which an addition may need space.
\<close>

locale name_map =
  fixes find_op :: "'d \<Rightarrow> 'i \<Rightarrow> str \<Rightarrow> 's \<Rightarrow> ('e option \<times> 's) option"
    and add_op :: "'d \<Rightarrow> 'b \<Rightarrow> 'i \<Rightarrow> str \<Rightarrow> u32 \<Rightarrow> bool \<Rightarrow> 's \<Rightarrow> (((string + unit) \<times> 'b \<times> 'i) \<times> 's) option"
    and remove_op :: "'d \<Rightarrow> 'b \<Rightarrow> 'i \<Rightarrow> str \<Rightarrow> 's \<Rightarrow> (((string + unit) \<times> 'i) \<times> 's) option"
    and ok :: "'d \<Rightarrow> 's \<Rightarrow> bool"
    and view :: "'d \<Rightarrow> 's \<Rightarrow> 'v"
    and inv :: "'v \<Rightarrow> 'b \<Rightarrow> 'i \<Rightarrow> bool"
    and room :: "'v \<Rightarrow> 'i \<Rightarrow> bool"
    and lookup :: "'v \<Rightarrow> 'i \<Rightarrow> str \<Rightarrow> 'x option"
    and info :: "'e \<Rightarrow> 'x"
    and mk :: "u32 \<Rightarrow> bool \<Rightarrow> 'x"
    and valid :: "str \<Rightarrow> bool"
  assumes find_law: "inv v b i \<Longrightarrow>
      awp (ok d) (view d) (find_op d i n) (\<lambda>r v'. v' = v \<and> map_option info r = lookup v i n) v"
    and add_law: "inv v b i \<Longrightarrow> valid n \<Longrightarrow> lookup v i n = None \<Longrightarrow> room v i \<Longrightarrow>
      awp (ok d) (view d) (add_op d b i n c isd) (\<lambda>(r, b', i') v'. inv v' b' i' \<and>
        (case r of Inr _ \<Rightarrow> lookup v' i' = (lookup v i)(n \<mapsto> mk c isd) | Inl _ \<Rightarrow> lookup v' i' = lookup v i)) v"
    and add_dup_law: "inv v b i \<Longrightarrow> lookup v i n \<noteq> None \<Longrightarrow>
      awp (ok d) (view d) (add_op d b i n c isd)
        (\<lambda>r v'. r = (Inl ''entry already exists'', b, i) \<and> v' = v) v"
    and remove_law: "inv v b i \<Longrightarrow> lookup v i n \<noteq> None \<Longrightarrow>
      awp (ok d) (view d) (remove_op d b i n) (\<lambda>(r, i') v'. r = Inr () \<and> inv v' b i' \<and>
        lookup v' i' = (lookup v i)(n := None)) v"
begin

text \<open>What a search returns after an addition that succeeded, and after a removal.\<close>

lemma find_after_add:
  assumes "inv v b i" "valid n" "lookup v i n = None" "room v i"
  shows "awp (ok d) (view d) (\<lambda>s. do {
      ((r, b, i), s) \<leftarrow> add_op d b i n c isd s;
      (hit, s) \<leftarrow> find_op d i m s;
      Some ((r, hit), s) })
    (\<lambda>(r, hit) v'. map_option info hit = (if m = n \<and> r = Inr () then Some (mk c isd) else lookup v i m)) v"
proof (rule awp_bind, rule awp_mono [OF add_law [OF assms]], clarsimp)
  fix r :: "string + unit" and b' i' v'
  assume "inv v' b' i'" and r: "case r of Inr _ \<Rightarrow> lookup v' i' = (lookup v i)(n \<mapsto> mk c isd) | Inl _ \<Rightarrow> lookup v' i' = lookup v i"
  from find_law [OF this(1), of d m]
  show "awp (ok d) (view d) (\<lambda>s. do { (hit, s) \<leftarrow> find_op d i' m s; Some ((r, hit), s) })
    (\<lambda>(r, hit) v'. map_option info hit = (if m = n \<and> r = Inr () then Some (mk c isd) else lookup v i m)) v'"
    using r assms(3) by (intro awp_bind) (auto elim!: awp_mono intro!: awp_rules split: sum.splits)
qed

lemma find_after_remove:
  assumes "inv v b i" "lookup v i n \<noteq> None"
  shows "awp (ok d) (view d) (\<lambda>s. do {
      ((r, i), s) \<leftarrow> remove_op d b i n s;
      (hit, s) \<leftarrow> find_op d i m s;
      Some ((r, hit), s) })
    (\<lambda>(r, hit) v'. r = Inr () \<and> map_option info hit = (if m = n then None else lookup v i m)) v"
  by (rule awp_bind, rule awp_mono [OF remove_law [OF assms]])
     (fastforce intro!: awp_rules awp_mono [OF find_law])

end

section \<open>Directories are maps from names\<close>

lemma allocd_cong: "(\<And>b. b < 6 \<Longrightarrow> v' b = v b) \<Longrightarrow> b < 20480 \<Longrightarrow> allocd v' b = allocd v b"
  by (simp add: allocd_def)

lemma alloc_inv_cong:
  assumes "alloc_inv v sb" "vol v'" "\<And>b. b < 6 \<Longrightarrow> v' b = v b"
  shows "alloc_inv v' sb"
proof -
  have "free_set v' = free_set v"
    using allocd_cong [of v' v] assms(3) by (auto simp: free_set_def)
  with assms allocd_cong [of v' v] show ?thesis by (simp add: alloc_inv_def)
qed

lemma inode_blk_ge [simp]: "6 \<le> inode_blk n"
  by (simp add: inode_blk_def)

lemma put_inode_low: "x < 6 \<Longrightarrow> put_inode v i x = v x"
  by (simp add: put_inode_def inode_blk_def)

lemma dir_find_law:
  "dir_inv v sb i \<Longrightarrow> dwp d (dir_find d i n)
     (\<lambda>r v'. v' = v \<and> map_option (\<lambda>(e, _). (entry_inode e, entry_type e)) r = dir_map v i n) v"
  by (rule dir_find_awp) (auto simp: dir_inv_def alloc_inv_def dir_map_def)

lemma dir_inv_facts:
  assumes "dir_inv v sb i"
  shows "alloc_inv v sb" "dir_wf v i" "on_disk (inode_no i)" "vol v" "sb_layout sb"
  using assms by (auto simp: dir_inv_def dir_clear_def alloc_inv_def)

lemma dir_inv_fill:
  assumes "dir_inv v sb i" "name_ok n" "dir_map v i n = None"
    and "b \<in> set (dir_blocks i)" "j < 15" "is_empty (slot (v (unat b)) j)"
    and v': "v' = put_inode (v(unat b := overwrite (v (unat b)) (j * 34) (entry_to_bytes (entry_new c n isd)))) (i\<lparr>mtime := t\<rparr>)"
  shows "dir_inv v' sb (i\<lparr>mtime := t\<rparr>)"
    "dir_map v' (i\<lparr>mtime := t\<rparr>) = (dir_map v i)(n \<mapsto> (c, if isd then 2 else 1))"
proof -
  have inv: "alloc_inv v sb" "dir_wf v i" "names_distinct v i" "dir_clear i" "vol v"
      "\<forall>b \<in> set (dir_blocks i). allocd v (unat b)"
    using assms(1) by (auto simp: dir_inv_def alloc_inv_def)
  note fill = dir_fill [OF inv(5,2,3,4) assms(2-6) v']
  have "31 \<le> unat b" using inv(2) assms(4) by (simp add: dir_wf_def)
  then have low: "v' x = v x" if "x < 6" for x
    using that by (simp add: v' put_inode_low)
  from fill inv low allocd_cong [of v' v] show "dir_inv v' sb (i\<lparr>mtime := t\<rparr>)"
    by (auto simp: dir_inv_def dir_wf_def dir_clear_def intro: alloc_inv_cong)
  show "dir_map v' (i\<lparr>mtime := t\<rparr>) = (dir_map v i)(n \<mapsto> (c, if isd then 2 else 1))" by (rule fill)
qed

lemma dir_inv_clear_slot:
  assumes "dir_inv v sb i" "b \<in> set (dir_blocks i)" "j < 15" "\<not> is_empty (slot (v (unat b)) j)"
    "entry_name (slot (v (unat b)) j) = n"
    and v': "v' = put_inode (v(unat b := (v (unat b))[j * 34 + 5 := 0])) (i\<lparr>mtime := t\<rparr>)"
  shows "dir_inv v' sb (i\<lparr>mtime := t\<rparr>)" "dir_map v' (i\<lparr>mtime := t\<rparr>) = (dir_map v i)(n := None)"
proof -
  have inv: "alloc_inv v sb" "dir_wf v i" "names_distinct v i" "dir_clear i" "vol v"
      "\<forall>b \<in> set (dir_blocks i). allocd v (unat b)"
    using assms(1) by (auto simp: dir_inv_def alloc_inv_def)
  note clr = dir_clear_slot [OF inv(5,2,3,4) assms(2-5) v']
  have "31 \<le> unat b" using inv(2) assms(2) by (simp add: dir_wf_def)
  then have low: "v' x = v x" if "x < 6" for x
    using that by (simp add: v' put_inode_low)
  from clr inv low allocd_cong [of v' v] show "dir_inv v' sb (i\<lparr>mtime := t\<rparr>)"
    by (auto simp: dir_inv_def dir_wf_def dir_clear_def intro: alloc_inv_cong)
  show "dir_map v' (i\<lparr>mtime := t\<rparr>) = (dir_map v i)(n := None)" by (rule clr)
qed

lemma dir_inv_grow:
  assumes "dir_inv v sb i" "name_ok n" "dir_map v i n = None" "dir_room v i"
    and "unat (block_count i) < 10" "31 \<le> b" "b < 20480" "\<not> allocd v b" "\<forall>x < b. allocd v x"
    and post: "bitmap_post v sb' (\<lambda>x. x = b \<or> allocd v x) v1"
    and inv1: "alloc_inv v1 sb'"
    and v': "v' = put_inode (v1(b := overwrite (replicate 512 0) 0 (entry_to_bytes (entry_new c n isd)))) (add_grown i (of_nat b) t)"
  shows "dir_inv v' sb' (add_grown i (of_nat b) t)"
    "dir_map v' (add_grown i (of_nat b) t) = (dir_map v i)(n \<mapsto> (c, if isd then 2 else 1))"
proof -
  have inv: "dir_wf v i" "names_distinct v i" "dir_clear i" "\<forall>b \<in> set (dir_blocks i). allocd v (unat b)"
    using assms(1) by (auto simp: dir_inv_def)
  let ?b = "word_of_nat b :: u32"
  have ub: "unat ?b = b" using assms(7) by (simp add: unat_of_nat)
  have ne: "b \<noteq> inode_blk (inode_no i)"
    using assms(4,7-9) by (auto simp: dir_room_def next_free_def)
  have nin: "?b \<notin> set (dir_blocks i)" using inv(4) assms(8) ub by metis
  have v1: "vol v1" "\<forall>x \<ge> 6. v1 x = v x" "allocd v1 = (\<lambda>x. x = b \<or> allocd v x)"
    using post by (auto simp: bitmap_post_def)
  note grow = dir_grow [OF inv(1-3) assms(2,3,5), of ?b v1 v' c isd t, unfolded ub, OF assms(7,6) nin ne v1(1,2) v']
  have low: "v' x = v1 x" if "x < 6" for x
    using that assms(6) by (simp add: v' put_inode_low)
  have "alloc_inv v' sb'" using inv1 grow(1) low by (rule alloc_inv_cong)
  moreover have "allocd v' (unat b')" if "b' \<in> set (dir_blocks (add_grown i ?b t))" for b'
  proof -
    have "allocd v1 (unat b')" "unat b' < 20480"
      using that inv(1,4) ub assms(7) by (auto simp: dir_blocks_grown [OF inv(1) assms(5)] v1(3) dir_wf_def)
    then show ?thesis using allocd_cong [OF low] by simp
  qed
  ultimately show "dir_inv v' sb' (add_grown i ?b t)" using grow by (simp add: dir_inv_def)
  show "dir_map v' (add_grown i ?b t) = (dir_map v i)(n \<mapsto> (c, if isd then 2 else 1))" by (rule grow)
qed

text \<open>
  The specification of \<open>dir_add_entry\<close> on a new, valid name: success with the map extended, or
  one of the two failures with nothing changed.
\<close>

lemma dir_add_entry_spec:
  assumes inv: "dir_inv v sb i" and n: "name_ok n" "dir_map v i n = None" and room: "dir_room v i"
  shows "dwp d (dir_add_entry d sb i n c isd) (\<lambda>(r, sb', i') v'. dir_inv v' sb' i' \<and>
      (case r of
         Inr _ \<Rightarrow> dir_map v' i' = (dir_map v i)(n \<mapsto> (c, if isd then 2 else 1))
       | Inl e \<Rightarrow> v' = v \<and> sb' = sb \<and> i' = i \<and> (free_set v = {} \<or> unat (block_count i) = 10))) v"
proof (rule dir_add_entry_awp)
  have nf: "find (\<lambda>x. entry_name (fst x) = n) (dir_entries v i) = None"
    using n(2) by (simp add: dir_map_None)
  let ?Q = "\<lambda>(r, sb', i') v'. dir_inv v' sb' i' \<and>
      (case r of
         Inr _ \<Rightarrow> dir_map v' i' = (dir_map v i)(n \<mapsto> (c, if isd then 2 else 1))
       | Inl e \<Rightarrow> v' = v \<and> sb' = sb \<and> i' = i \<and> (free_set v = {} \<or> unat (block_count i) = 10))"
  show "dwp d (dir_extend d sb i (entry_to_bytes (entry_new c n isd))) ?Q v"
    using inv dir_inv_facts [OF inv] dir_inv_grow [OF inv n room _ _ _ _ _ _ _ refl, where c = c and isd = isd]
    by (intro dir_extend_awp) simp_all
qed (use inv n dir_inv_fill [OF inv n _ _ _ refl] dir_inv_facts [OF inv] in \<open>auto simp: dir_map_None\<close>)

lemma dir_add_entry_dup:
  assumes "dir_inv v sb i" "dir_map v i n \<noteq> None"
  shows "dwp d (dir_add_entry d sb i n c isd) (\<lambda>r v'. r = (Inl ''entry already exists'', sb, i) \<and> v' = v) v"
  using assms dir_inv_facts [OF assms(1)] by (intro dir_add_entry_awp) (simp_all add: dir_map_None)

lemma dir_remove_entry_spec:
  assumes "dir_inv v sb i" "dir_map v i n \<noteq> None"
  shows "dwp d (dir_remove_entry d sb i n) (\<lambda>(r, i') v'. r = Inr () \<and> dir_inv v' sb i' \<and>
      dir_map v' i' = (dir_map v i)(n := None)) v"
  using assms dir_inv_clear_slot [OF assms(1) _ _ _ _ refl] dir_inv_facts [OF assms(1)]
  by (intro dir_remove_entry_awp) (simp_all add: dir_map_None)

interpretation dm: name_map dir_find dir_add_entry dir_remove_entry disk_ok blocks dir_inv dir_room dir_map
    "\<lambda>(e, _). (entry_inode e, entry_type e)" "\<lambda>c isd. (c, if isd then 2 else 1)" name_ok
proof unfold_locales
  fix v sb i d n c isd
  assume "dir_inv v sb i" "name_ok n" "dir_map v i n = None" "dir_room v i"
  from dir_add_entry_spec [OF this, of d c isd]
  show "dwp d (dir_add_entry d sb i n c isd) (\<lambda>(r, b', i') v'. dir_inv v' b' i' \<and>
        (case r of Inr _ \<Rightarrow> dir_map v' i' = (dir_map v i)(n \<mapsto> (c, if isd then 2 else 1))
         | Inl _ \<Rightarrow> dir_map v' i' = dir_map v i)) v"
    by (rule awp_mono) (auto split: sum.splits)
qed (rule dir_find_law dir_add_entry_dup dir_remove_entry_spec; assumption)+

end
