(* ===== verification/FileSystem.thy ===== *)
theory FileSystem
  imports Directory
begin

text \<open>
  The file system, \<open>src/src/fs.rs\<close>: the handlers of the \<open>fuser::Filesystem\<close> trait, formatting
  and mounting, and the entry point of \<open>src/src/main.rs\<close>. A handler takes the file system and
  the arguments it uses, and returns its reply and the file system with the superblock it
  leaves; \<open>None\<close> is a panic. The framework's directory buffer and its mount loop are
  parameters.
\<close>

section \<open>State and replies\<close>

definition MAX_FILE_BLOCKS :: u32 where "MAX_FILE_BLOCKS = 20"

record 's SimpleFS =
  fs_disk :: "'s Disk"
  fs_sb :: SuperBlock
  disk_path :: string

datatype FileType = FT_Directory | FT_RegularFile

datatype Errno = ENOENT | ENOTDIR | EACCES | EEXIST | ENOSPC | ENOTEMPTY | EFBIG | EISDIR

text \<open>A \<open>SystemTime\<close> is its distance from the epoch in seconds; the reserved fields are omitted.\<close>

record FileAttr =
  attr_ino :: u64
  attr_size :: u64
  attr_blocks :: u64
  attr_atime :: nat
  attr_mtime :: nat
  attr_ctime :: nat
  attr_crtime :: nat
  attr_kind :: FileType
  attr_perm :: u16
  attr_nlink :: u32
  attr_uid :: u32
  attr_gid :: u32
  attr_blksize :: u32

text \<open>
  The replies, with the arguments the handlers pass (time to live, handle, generation, flags); an
  entry of a directory as the framework's buffer takes it (inode, offset of the next entry, type, name).
\<close>

type_synonym dirent = "u64 \<times> int \<times> FileType \<times> byte list"

datatype reply =
    ReplyError Errno
  | ReplyAttr nat FileAttr
  | ReplyEntry nat FileAttr u64
  | ReplyOpened u64 u32
  | ReplyData "byte list"
  | ReplyCreated nat FileAttr u64 u64 u32
  | ReplyWritten u32
  | ReplyDirectory "dirent list"
  | ReplyOk

definition system_time_from_timestamp :: "i64 \<Rightarrow> nat" where
  "system_time_from_timestamp ts = nat (max (sint ts) 0)"

definition inode_to_attr :: "Inode \<Rightarrow> FileAttr" where
  "inode_to_attr i =
     \<lparr>attr_ino = ucast (inode_no i), attr_size = ucast (isize i), attr_blocks = ucast (block_count i),
      attr_atime = system_time_from_timestamp (atime i), attr_mtime = system_time_from_timestamp (mtime i),
      attr_ctime = system_time_from_timestamp (ctime i), attr_crtime = system_time_from_timestamp (ctime i),
      attr_kind = (if mode i AND S_IFDIR \<noteq> 0 then FT_Directory else FT_RegularFile),
      attr_perm = mode i, attr_nlink = ucast (nlink i), attr_uid = ucast (uid i), attr_gid = ucast (gid i),
      attr_blksize = of_nat BLOCK_SIZE\<rparr>"

text \<open>\<open>name.to_str().unwrap_or(dflt)\<close> of an \<open>OsStr\<close>, which on Linux is any list of bytes.\<close>

definition os_str_or :: "byte list \<Rightarrow> str \<Rightarrow> str" where
  "os_str_or name dflt = (if utf8_valid name then name else dflt)"

section \<open>Reading handlers\<close>

definition fs_getattr :: "'s SimpleFS \<Rightarrow> u64 \<Rightarrow> 's \<Rightarrow> ((reply \<times> 's SimpleFS) \<times> 's) option" where
  "fs_getattr fs ino s = do {
     (inode, s) \<leftarrow> read_inode (fs_disk fs) (fs_sb fs) (ucast ino) s;
     if nlink inode = 0 then Some ((ReplyError ENOENT, fs), s)
     else Some ((ReplyAttr 1 (inode_to_attr inode), fs), s) }"

text \<open>
  \<open>readdir\<close>: \<open>add\<close> stands for \<open>ReplyDirectory::add\<close>, which appends an entry to the
  framework's buffer and says whether the buffer is full.
\<close>

fun readdir_loop :: "('r \<Rightarrow> u64 \<Rightarrow> int \<Rightarrow> FileType \<Rightarrow> str \<Rightarrow> bool \<times> 'r) \<Rightarrow> i64 \<Rightarrow> int \<Rightarrow>
    (DirEntry \<times> u32 \<times> nat) list \<Rightarrow> 'r \<Rightarrow> 'r option" where
  "readdir_loop add offset entry_offset [] r = Some r"
| "readdir_loop add offset entry_offset ((entry, _, _) # es) r =
     (if entry_offset \<ge> sint offset then do {
        let file_type = (if entry_type entry = 2 then FT_Directory else FT_RegularFile);
        nm \<leftarrow> name_str entry;
        let (full, r) = add r (ucast (entry_inode entry)) (entry_offset + 1) file_type nm;
        if full then Some r else readdir_loop add offset (entry_offset + 1) es r }
      else readdir_loop add offset (entry_offset + 1) es r)"

definition fs_readdir :: "('r \<Rightarrow> u64 \<Rightarrow> int \<Rightarrow> FileType \<Rightarrow> str \<Rightarrow> bool \<times> 'r) \<Rightarrow> 's SimpleFS \<Rightarrow> u64 \<Rightarrow> i64 \<Rightarrow>
    'r \<Rightarrow> 's \<Rightarrow> ((Errno + 'r) \<times> 's) option" where
  "fs_readdir add fs ino offset r s = do {
     (dir_inode, s) \<leftarrow> read_inode (fs_disk fs) (fs_sb fs) (ucast ino) s;
     if mode dir_inode AND S_IFDIR = 0 then Some (Inl ENOTDIR, s)
     else do {
       (entries, s) \<leftarrow> dir_lookup (fs_disk fs) dir_inode s;
       r \<leftarrow> readdir_loop add offset 0 entries r;
       Some (Inr r, s) } }"

definition fs_lookup :: "'s SimpleFS \<Rightarrow> u64 \<Rightarrow> byte list \<Rightarrow> 's \<Rightarrow> ((reply \<times> 's SimpleFS) \<times> 's) option" where
  "fs_lookup fs parent name s = do {
     (parent_inode, s) \<leftarrow> read_inode (fs_disk fs) (fs_sb fs) (ucast parent) s;
     (hit, s) \<leftarrow> dir_find (fs_disk fs) parent_inode (os_str_or name []) s;
     case hit of
       Some (entry, _, _) \<Rightarrow> do {
         (child_inode, s) \<leftarrow> read_inode (fs_disk fs) (fs_sb fs) (entry_inode entry) s;
         Some ((ReplyEntry 1 (inode_to_attr child_inode) 0, fs), s) }
     | None \<Rightarrow> Some ((ReplyError ENOENT, fs), s) }"

definition fs_open :: "'s SimpleFS \<Rightarrow> u32 \<Rightarrow> u32 \<Rightarrow> u64 \<Rightarrow> int \<Rightarrow> 's \<Rightarrow> ((reply \<times> 's SimpleFS) \<times> 's) option" where
  "fs_open fs req_uid req_gid ino flags s = do {
     (inode, s) \<leftarrow> read_inode (fs_disk fs) (fs_sb fs) (ucast ino) s;
     let want_write = (flags AND O_WRONLY \<noteq> 0 \<or> flags AND O_RDWR \<noteq> 0);
     if want_write \<and> \<not> check_permission inode True req_uid req_gid then Some ((ReplyError EACCES, fs), s)
     else Some ((ReplyOpened ino 0, fs), s) }"

text \<open>
  The loop of \<open>read\<close>. \<open>acc\<close> is the filled part \<open>result[..copied]\<close> of the buffer. Every
  round copies at least one byte, so \<open>remaining\<close> rounds are enough fuel.
\<close>

primrec read_loop :: "nat \<Rightarrow> 's Disk \<Rightarrow> Inode \<Rightarrow> nat \<Rightarrow> u32 \<Rightarrow> nat \<Rightarrow> byte list \<Rightarrow> 's \<Rightarrow> (byte list \<times> 's) option" where
  "read_loop 0 d inode remaining block_index block_offset acc s =
     (if remaining = 0 then Some (acc, s) else None)"
| "read_loop (Suc fuel) d inode remaining block_index block_offset acc s =
     (if remaining = 0 then Some (acc, s)
      else do {
        (b, s) \<leftarrow> get_block inode d block_index s;
        case b of
          None \<Rightarrow> Some (acc, s)
        | Some block_num \<Rightarrow> do {
            (block_buf, s) \<leftarrow> read_block d block_num s;
            let to_copy = min remaining (PAGE_SIZE - block_offset);
            part \<leftarrow> slice_range block_buf block_offset (block_offset + to_copy);
            read_loop fuel d inode (remaining - to_copy) (block_index + 1) 0 (acc @ part) s } })"

definition fs_read :: "'s SimpleFS \<Rightarrow> u64 \<Rightarrow> i64 \<Rightarrow> u32 \<Rightarrow> 's \<Rightarrow> ((reply \<times> 's SimpleFS) \<times> 's) option" where
  "fs_read fs ino offset sz s = do {
     (inode, s) \<leftarrow> read_inode (fs_disk fs) (fs_sb fs) (ucast ino) s;
     if sint offset \<ge> uint (isize inode) then Some ((ReplyData [], fs), s)
     else do {
       let actual_size = min sz (of_int (uint (isize inode) - sint offset));
       let remaining = unat actual_size;
       let block_index = (ucast offset :: u32) div of_nat PAGE_SIZE;
       let block_offset = unat offset mod PAGE_SIZE;
       (result, s) \<leftarrow> read_loop remaining (fs_disk fs) inode remaining block_index block_offset [] s;
       Some ((ReplyData result, fs), s) } }"

section \<open>Creating and removing\<close>

text \<open>
  The search for a free inode number (\<open>create\<close> scans 1000..2000, \<open>mkdir\<close> 500..900). The
  candidates stay far below \<open>2^32\<close>, so they are natural numbers here.
\<close>

function find_inode :: "'s Disk \<Rightarrow> SuperBlock \<Rightarrow> nat \<Rightarrow> nat \<Rightarrow> 's \<Rightarrow> (u32 option \<times> 's) option" where
  "find_inode d sb lim candidate s = do {
     (test_inode, s) \<leftarrow> read_inode d sb (of_nat candidate) s;
     if nlink test_inode = 0 then Some (Some (of_nat candidate), s)
     else if candidate + 1 > lim then Some (None, s)
     else find_inode d sb lim (candidate + 1) s }"
  by pat_completeness auto
termination
  by (relation "measure (\<lambda>(d, sb, lim, candidate, s). lim + 1 - candidate)") auto

declare find_inode.simps [simp del]

definition fs_create :: "'s SimpleFS \<Rightarrow> u64 \<Rightarrow> byte list \<Rightarrow> 's \<Rightarrow> ((reply \<times> 's SimpleFS) \<times> 's) option" where
  "fs_create fs parent name s = (let d = fs_disk fs; sb = fs_sb fs; nm = os_str_or name (ascii ''unknown'') in do {
     (parent_inode, s) \<leftarrow> read_inode d sb (ucast parent) s;
     (hit, s) \<leftarrow> dir_find d parent_inode nm s;
     if hit \<noteq> None then Some ((ReplyError EEXIST, fs), s)
     else do {
       (c, s) \<leftarrow> find_inode d sb 2000 1000 s;
       case c of
         None \<Rightarrow> Some ((ReplyError ENOSPC, fs), s)
       | Some new_inode_no \<Rightarrow> do {
           (new_inode, s) \<leftarrow> new_file (disk_host d) new_inode_no s;
           let new_inode = new_inode\<lparr>mode := S_IFREG OR 420\<rparr>;
           (_, s) \<leftarrow> write_inode d sb new_inode s;
           ((r, sb, parent_inode), s) \<leftarrow> dir_add_entry d sb parent_inode nm new_inode_no False s;
           let fs = fs\<lparr>fs_sb := sb\<rparr>;
           case r of
             Inl e \<Rightarrow> Some ((ReplyError (if e = ''entry already exists'' then EEXIST else ENOSPC), fs), s)
           | Inr _ \<Rightarrow> Some ((ReplyCreated 1 (inode_to_attr new_inode) 0 (ucast new_inode_no) 0, fs), s) } } })"

definition fs_mkdir :: "'s SimpleFS \<Rightarrow> u64 \<Rightarrow> byte list \<Rightarrow> 's \<Rightarrow> ((reply \<times> 's SimpleFS) \<times> 's) option" where
  "fs_mkdir fs parent name s = (let d = fs_disk fs; sb = fs_sb fs; nm = os_str_or name (ascii ''unknown'') in do {
     (parent_inode, s) \<leftarrow> read_inode d sb (ucast parent) s;
     (hit, s) \<leftarrow> dir_find d parent_inode nm s;
     if hit \<noteq> None then Some ((ReplyError EEXIST, fs), s)
     else do {
       (c, s) \<leftarrow> find_inode d sb 900 500 s;
       case c of
         None \<Rightarrow> Some ((ReplyError ENOSPC, fs), s)
       | Some new_inode_no \<Rightarrow> do {
           (new_dir_inode, s) \<leftarrow> new_dir (disk_host d) new_inode_no s;
           ((r, sb), s) \<leftarrow> allocate_block d sb s;
           case r of
             None \<Rightarrow> Some ((ReplyError ENOSPC, fs\<lparr>fs_sb := sb\<rparr>), s)
           | Some data_block \<Rightarrow> do {
               let dot = entry_new new_inode_no (ascii ''.'') True;
               let dotdot = entry_new (ucast parent) (ascii ''..'') True;
               block_buf \<leftarrow> copy_from_slice (replicate BLOCK_SIZE 0) 0 DIR_ENTRY_SIZE (entry_to_bytes dot);
               block_buf \<leftarrow> copy_from_slice block_buf DIR_ENTRY_SIZE (DIR_ENTRY_SIZE * 2) (entry_to_bytes dotdot);
               (_, s) \<leftarrow> write_block d data_block block_buf s;
               let new_dir_inode = new_dir_inode\<lparr>direct_blocks := (direct_blocks new_dir_inode)[0 := data_block],
                     block_count := 1, isize := of_nat PAGE_SIZE\<rparr>;
               (_, s) \<leftarrow> write_inode d sb new_dir_inode s;
               ((r, sb, parent_inode), s) \<leftarrow> dir_add_entry d sb parent_inode nm new_inode_no True s;
               case r of
                 Inl _ \<Rightarrow> None
               | Inr _ \<Rightarrow> Some ((ReplyEntry 1 (inode_to_attr new_dir_inode) 0, fs\<lparr>fs_sb := sb\<rparr>), s) } } } })"

text \<open>The loop of \<open>rmdir\<close> and \<open>unlink\<close> that frees the data blocks of an inode.\<close>

fun free_loop :: "'s Disk \<Rightarrow> SuperBlock \<Rightarrow> Inode \<Rightarrow> nat list \<Rightarrow> 's \<Rightarrow> (SuperBlock \<times> 's) option" where
  "free_loop d sb inode [] s = Some (sb, s)"
| "free_loop d sb inode (i # is) s = do {
     (b, s) \<leftarrow> get_block inode d (of_nat i) s;
     case b of
       None \<Rightarrow> free_loop d sb inode is s
     | Some block_num \<Rightarrow> do {
         (sb, s) \<leftarrow> mark_free d sb block_num s;
         free_loop d sb inode is s } }"

definition fs_rmdir :: "'s SimpleFS \<Rightarrow> u64 \<Rightarrow> byte list \<Rightarrow> 's \<Rightarrow> ((reply \<times> 's SimpleFS) \<times> 's) option" where
  "fs_rmdir fs parent name s = (let d = fs_disk fs; sb = fs_sb fs; nm = os_str_or name [] in do {
     (parent_inode, s) \<leftarrow> read_inode d sb (ucast parent) s;
     (hit, s) \<leftarrow> dir_find d parent_inode nm s;
     case hit of
       None \<Rightarrow> Some ((ReplyError ENOENT, fs), s)
     | Some (entry, _, _) \<Rightarrow> do {
         (child_inode, s) \<leftarrow> read_inode d sb (entry_inode entry) s;
         if mode child_inode AND S_IFDIR = 0 then Some ((ReplyError ENOTDIR, fs), s)
         else do {
           (child_entries, s) \<leftarrow> dir_lookup d child_inode s;
           if length child_entries > 2 then Some ((ReplyError ENOTEMPTY, fs), s)
           else do {
             (sb, s) \<leftarrow> free_loop d sb child_inode [0..<unat (block_count child_inode)] s;
             ((r, parent_inode), s) \<leftarrow> dir_remove_entry d sb parent_inode nm s;
             case r of
               Inl _ \<Rightarrow> None
             | Inr _ \<Rightarrow> do {
                 (_, s) \<leftarrow> write_inode d sb (child_inode\<lparr>nlink := 0\<rparr>) s;
                 Some ((ReplyOk, fs\<lparr>fs_sb := sb\<rparr>), s) } } } } })"

definition fs_unlink :: "'s SimpleFS \<Rightarrow> u64 \<Rightarrow> byte list \<Rightarrow> 's \<Rightarrow> ((reply \<times> 's SimpleFS) \<times> 's) option" where
  "fs_unlink fs parent name s = (let d = fs_disk fs; sb = fs_sb fs; nm = os_str_or name [] in do {
     (parent_inode, s) \<leftarrow> read_inode d sb (ucast parent) s;
     (hit, s) \<leftarrow> dir_find d parent_inode nm s;
     case hit of
       None \<Rightarrow> Some ((ReplyError ENOENT, fs), s)
     | Some (entry, _, _) \<Rightarrow> do {
         (inode, s) \<leftarrow> read_inode d sb (entry_inode entry) s;
         if mode inode AND S_IFDIR \<noteq> 0 then Some ((ReplyError EISDIR, fs), s)
         else do {
           (sb, s) \<leftarrow> free_loop d sb inode [0..<unat (block_count inode)] s;
           (sb, s) \<leftarrow> (if indirect_block inode \<noteq> 0 then mark_free d sb (indirect_block inode) s else Some (sb, s));
           (_, s) \<leftarrow> write_inode d sb (inode\<lparr>nlink := 0\<rparr>) s;
           ((r, parent_inode), s) \<leftarrow> dir_remove_entry d sb parent_inode nm s;
           case r of Inl _ \<Rightarrow> None | Inr _ \<Rightarrow> Some ((ReplyOk, fs\<lparr>fs_sb := sb\<rparr>), s) } } })"

section \<open>Writing\<close>

text \<open>
  One round of the allocation loop of \<open>write\<close>: entering the new block into the inode. At index
  10 the indirect block is allocated, and its failure panics.
\<close>

definition attach_block :: "'s Disk \<Rightarrow> SuperBlock \<Rightarrow> Inode \<Rightarrow> u32 \<Rightarrow> 's \<Rightarrow> ((Inode \<times> SuperBlock) \<times> 's) option" where
  "attach_block d sb inode new_block s = (
     let idx = (ucast (block_count inode) :: u32) in
     if idx < of_nat DIRECT_BLOCKS then
       Some ((inode\<lparr>direct_blocks := (direct_blocks inode)[unat idx := new_block]\<rparr>, sb), s)
     else if idx = of_nat DIRECT_BLOCKS then do {
       ((r, sb), s) \<leftarrow> allocate_block d sb s;
       indirect \<leftarrow> r;
       indirect_buf \<leftarrow> copy_from_slice (replicate BLOCK_SIZE 0) 0 2 (to_le_bytes 2 (ucast new_block :: u16));
       (_, s) \<leftarrow> write_block d indirect indirect_buf s;
       Some ((inode\<lparr>indirect_block := indirect\<rparr>, sb), s) }
     else do {
       let indirect_idx = idx - of_nat DIRECT_BLOCKS;
       (indirect_buf, s) \<leftarrow> read_block d (indirect_block inode) s;
       let byte_offset = unat indirect_idx * 2;
       indirect_buf \<leftarrow> copy_from_slice indirect_buf byte_offset (byte_offset + 2) (to_le_bytes 2 (ucast new_block :: u16));
       (_, s) \<leftarrow> write_block d (indirect_block inode) indirect_buf s;
       Some ((inode, sb), s) })"

text \<open>The loop itself; the result \<open>None\<close> of the inode is the early return with \<open>ENOSPC\<close>.\<close>

function grow_loop :: "'s Disk \<Rightarrow> u16 \<Rightarrow> SuperBlock \<Rightarrow> Inode \<Rightarrow> 's \<Rightarrow> ((Inode option \<times> SuperBlock) \<times> 's) option" where
  "grow_loop d required sb inode s =
     (if block_count inode < required then do {
        ((r, sb), s) \<leftarrow> allocate_block d sb s;
        case r of
          None \<Rightarrow> Some ((None, sb), s)
        | Some new_block \<Rightarrow> do {
            ((inode', sb), s) \<leftarrow> attach_block d sb inode new_block s;
            (_, s) \<leftarrow> write_block d new_block (replicate BLOCK_SIZE 0) s;
            grow_loop d required sb (inode'\<lparr>block_count := block_count inode + 1\<rparr>) s } }
      else Some ((Some inode, sb), s))"
  by pat_completeness auto
termination
  by (relation "measure (\<lambda>(d, required, sb, inode, s). unat required - unat (block_count inode))")
     (auto simp: unat_inc word_less_nat_alt)

declare grow_loop.simps [simp del]

text \<open>The second loop, which stores the data; fuel as for \<open>read_loop\<close>.\<close>

primrec write_loop :: "nat \<Rightarrow> 's Disk \<Rightarrow> Inode \<Rightarrow> byte list \<Rightarrow> nat \<Rightarrow> u32 \<Rightarrow> nat \<Rightarrow> nat \<Rightarrow> 's \<Rightarrow> (unit \<times> 's) option" where
  "write_loop 0 d inode data remaining block_index block_offset data_offset s =
     (if remaining = 0 then Some ((), s) else None)"
| "write_loop (Suc fuel) d inode data remaining block_index block_offset data_offset s =
     (if remaining = 0 then Some ((), s)
      else do {
        (b, s) \<leftarrow> get_block inode d block_index s;
        block_num \<leftarrow> b;
        (block_buf, s) \<leftarrow> read_block d block_num s;
        let to_write = min remaining (PAGE_SIZE - block_offset);
        part \<leftarrow> slice_range data data_offset (data_offset + to_write);
        block_buf \<leftarrow> copy_from_slice block_buf block_offset (block_offset + to_write) part;
        (_, s) \<leftarrow> write_block d block_num block_buf s;
        write_loop fuel d inode data (remaining - to_write) (block_index + 1) 0 (data_offset + to_write) s })"

definition fs_write :: "'s SimpleFS \<Rightarrow> u64 \<Rightarrow> i64 \<Rightarrow> byte list \<Rightarrow> 's \<Rightarrow> ((reply \<times> 's SimpleFS) \<times> 's) option" where
  "fs_write fs ino offset data s = (let d = fs_disk fs; sb = fs_sb fs in do {
     (inode, s) \<leftarrow> read_inode d sb (ucast ino) s;
     let write_size = (of_nat (length data) :: u64);
     if write_size = 0 then Some ((ReplyWritten 0, fs), s)
     else do {
       let required_blocks = (ucast ((offset + write_size + of_nat PAGE_SIZE - 1) div of_nat PAGE_SIZE) :: u32);
       if required_blocks > MAX_FILE_BLOCKS then Some ((ReplyError EFBIG, fs), s)
       else do {
         ((g, sb), s) \<leftarrow> grow_loop d (ucast required_blocks) sb inode s;
         case g of
           None \<Rightarrow> Some ((ReplyError ENOSPC, fs\<lparr>fs_sb := sb\<rparr>), s)
         | Some inode \<Rightarrow> do {
             let block_index = (ucast offset :: u32) div of_nat PAGE_SIZE;
             let block_offset = unat offset mod PAGE_SIZE;
             (_, s) \<leftarrow> write_loop (length data) d inode data (length data) block_index block_offset 0 s;
             let new_size = offset + write_size;
             let inode = (if new_size > ucast (isize inode) then inode\<lparr>isize := ucast new_size\<rparr> else inode);
             (now, s) \<leftarrow> current_timestamp (disk_host d) s;
             let inode = inode\<lparr>mtime := now, atime := now\<rparr>;
             (_, s) \<leftarrow> write_inode d sb inode s;
             Some ((ReplyWritten (ucast write_size), fs\<lparr>fs_sb := sb\<rparr>), s) } } } })"

definition fs_setattr :: "'s SimpleFS \<Rightarrow> u64 \<Rightarrow> u32 option \<Rightarrow> 's \<Rightarrow> ((reply \<times> 's SimpleFS) \<times> 's) option" where
  "fs_setattr fs ino new_mode s = (let d = fs_disk fs; sb = fs_sb fs in do {
     (inode, s) \<leftarrow> read_inode d sb (ucast ino) s;
     let inode = (case new_mode of
         Some m \<Rightarrow> inode\<lparr>mode := (mode inode AND 0xF000) OR ucast (m AND 511)\<rparr>
       | None \<Rightarrow> inode);
     (now, s) \<leftarrow> current_timestamp (disk_host d) s;
     let inode = inode\<lparr>mtime := now\<rparr>;
     (_, s) \<leftarrow> write_inode d sb inode s;
     Some ((ReplyAttr 1 (inode_to_attr inode), fs), s) })"

section \<open>Formatting, mounting, starting\<close>

text \<open>Step 3 of \<open>format_new_fs\<close>, the root directory, and the whole function.\<close>

definition format_root_dir :: "'s Disk \<Rightarrow> SuperBlock \<Rightarrow> 's \<Rightarrow> (SuperBlock \<times> 's) option" where
  "format_root_dir d sb s = do {
     let root_inode_no = 1;
     (root, s) \<leftarrow> new_dir (disk_host d) root_inode_no s;
     ((r, sb), s) \<leftarrow> allocate_block d sb s;
     root_data_block \<leftarrow> r;
     let dot = entry_new root_inode_no (ascii ''.'') True;
     let dotdot = entry_new root_inode_no (ascii ''..'') True;
     block_buf \<leftarrow> copy_from_slice (replicate BLOCK_SIZE 0) 0 DIR_ENTRY_SIZE (entry_to_bytes dot);
     block_buf \<leftarrow> copy_from_slice block_buf DIR_ENTRY_SIZE (DIR_ENTRY_SIZE * 2) (entry_to_bytes dotdot);
     (_, s) \<leftarrow> write_block d root_data_block block_buf s;
     let root = root\<lparr>direct_blocks := (direct_blocks root)[0 := root_data_block], block_count := 1,
           isize := of_nat PAGE_SIZE, nlink := 2\<rparr>;
     (_, s) \<leftarrow> write_inode d sb root s;
     let updated_sb = sb\<lparr>root_inode := root_inode_no\<rparr>;
     (_, s) \<leftarrow> write_superblock d updated_sb s;
     Some (updated_sb, s) }"

definition format_new_fs :: "'s Disk \<Rightarrow> 's \<Rightarrow> (SuperBlock \<times> 's) option" where
  "format_new_fs d s = do {
     (sb, s) \<leftarrow> init_superblock d s;
     (_, s) \<leftarrow> init_bitmap d sb s;
     format_root_dir d sb s }"

definition fs_mount :: "'s host \<Rightarrow> string \<Rightarrow> 's \<Rightarrow> ('s SimpleFS \<times> 's) option" where
  "fs_mount h path s = do {
     (d, s) \<leftarrow> disk_open h path s;
     (sz, s) \<leftarrow> disk_size d s;
     (sb, s) \<leftarrow> (if sz = 0 then do {
           (_, s) \<leftarrow> disk_truncate d DISK_SIZE s;
           format_new_fs d s }
         else case read_superblock_io d s of
           (Some sb, s) \<Rightarrow> Some (sb, s)
         | (None, s) \<Rightarrow> do {
             (_, s) \<leftarrow> disk_truncate d DISK_SIZE s;
             format_new_fs d s });
     Some (\<lparr>fs_disk = d, fs_sb = sb, disk_path = path\<rparr>, s) }"

text \<open>
  The Linux \<open>main\<close>: the exit status of the process. \<open>mount2\<close> stands for \<open>fuser::mount2\<close>, the
  framework's loop, which says whether it ended without an error. The usage text names \<open>args[0]\<close>, so
  a process started without even its own name panics.
\<close>

definition main_linux :: "'s host \<Rightarrow> ('s SimpleFS \<Rightarrow> string \<Rightarrow> 's \<Rightarrow> (bool \<times> 's) option) \<Rightarrow> string list \<Rightarrow> 's \<Rightarrow> (int \<times> 's) option" where
  "main_linux h mount2 args s =
     (if length args < 2 then do {
        _ \<leftarrow> index args 0;
        Some (1, s) }
      else do {
        let mount_point = last args;
        (filesystem, s) \<leftarrow> fs_mount h ''disk.img'' s;
        (done_ok, s) \<leftarrow> mount2 filesystem mount_point s;
        Some (if done_ok then 0 else 1, s) })"

section \<open>Specification vocabulary\<close>

text \<open>The first block of a new directory: the entries \<open>.\<close> and \<open>..\<close>.\<close>

definition dots_block :: "u32 \<Rightarrow> u32 \<Rightarrow> byte list" where
  "dots_block c p = overwrite (overwrite (replicate 512 0) 0 (entry_to_bytes (entry_new c (ascii ''.'') True)))
     34 (entry_to_bytes (entry_new p (ascii ''..'') True))"

text \<open>A volume as \<open>format_new_fs\<close> leaves it.\<close>

definition formatted :: "volume \<Rightarrow> SuperBlock \<Rightarrow> bool" where
  "formatted v sb \<longleftrightarrow> alloc_inv v sb \<and> root_inode sb = 1 \<and> free_blocks sb = 20448 \<and>
     (\<forall>b < 20480. allocd v b \<longleftrightarrow> b \<le> 31) \<and>
     dir_inv v sb (inode_at v 1) \<and> nlink (inode_at v 1) = 2 \<and> mode (inode_at v 1) = 0x41ED \<and>
     uid (inode_at v 1) = 1000 \<and> gid (inode_at v 1) = 1000 \<and>
     isize (inode_at v 1) = 510 \<and> block_count (inode_at v 1) = 1 \<and>
     dir_map v (inode_at v 1) = [ascii ''.'' \<mapsto> (1, 2), ascii ''..'' \<mapsto> (1, 2)]"

text \<open>The blocks from \<open>k\<close> on are zero; formatting writes only the first 32 blocks.\<close>

definition zero_from :: "nat \<Rightarrow> volume \<Rightarrow> bool" where
  "zero_from k v \<longleftrightarrow> (\<forall>x. k \<le> x \<and> x < 20480 \<longrightarrow> v x = replicate 512 0)"

text \<open>The blocks of a file with the bytes \<open>c\<close> once it is cut or filled up to the size of a disk.\<close>

definition image_vol :: "byte list \<Rightarrow> volume" where
  "image_vol c x = take BLOCK_SIZE (drop (BLOCK_SIZE * x) (take DISK_SIZE c @ replicate (DISK_SIZE - length c) 0))"

lemma image_vol_empty: "zero_from k (image_vol [])"
  by (auto simp: zero_from_def image_vol_def simp del: DISK_SIZE_eq) (simp add: DISK_SIZE_def)

text \<open>Opening \<open>path\<close> in state \<open>s\<close> gives the descriptor \<open>fd\<close> of a file with the bytes \<open>c\<close>.\<close>

definition opens_image :: "'s host \<Rightarrow> string \<Rightarrow> 's \<Rightarrow> int \<Rightarrow> byte list \<Rightarrow> bool" where
  "opens_image h path s fd c \<longleftrightarrow> posix_host h \<and> CHR 0x00 \<notin> set path \<and> 0 \<le> fd \<and> length c < 2 ^ 63 \<and>
     (\<exists>s1. sys_open h path (O_RDWR + O_CREAT) 438 s = (fd, s1) \<and> file_bytes h fd s1 = Some c)"

text \<open>What mounting does with the image it finds: a file that is empty, short, or without the magic
  number is formatted, any other one is used as it is.\<close>

definition usable :: "byte list \<Rightarrow> bool" where
  "usable c \<longleftrightarrow> 512 \<le> length c \<and> take 13 c = ascii ''SIMPLEFS-RUST''"

section \<open>Lemmas: a fresh directory\<close>

lemma ascii_dot: "ascii ''.'' = [46]" and ascii_dotdot: "ascii ''..'' = [46, 46]"
  by (simp_all add: ascii_def)

lemma name_ok_dots [simp]: "name_ok (ascii ''.'')" "name_ok (ascii ''..'')"
  by (simp_all add: ascii_dot ascii_dotdot name_ok_def utf8_valid.simps)

lemma length_dots_block [simp]: "length (dots_block c p) = 512"
  by (simp add: dots_block_def)

lemma slot_dots:
  assumes "j < 15"
  shows "slot (dots_block c p) j = (if j = 0 then entry_new c (ascii ''.'') True
    else if j = 1 then entry_new p (ascii ''..'') True else slot (replicate 512 0) j)"
proof -
  let ?B = "overwrite (replicate 512 0) 0 (entry_to_bytes (entry_new c (ascii ''.'') True))"
  have "slot (dots_block c p) j = (if j = 1 then entry_new p (ascii ''..'') True else slot ?B j)"
    using slot_overwrite [of ?B 1 j "entry_new p (ascii ''..'') True"] assms by (simp add: dots_block_def)
  moreover have "slot ?B j = (if j = 0 then entry_new c (ascii ''.'') True else slot (replicate 512 0) j)"
    using slot_overwrite [of "replicate 512 0" 0 j "entry_new c (ascii ''.'') True"] assms by simp
  ultimately show ?thesis by (cases "j = 1") simp_all
qed

lemma dots_entries:
  assumes "dir_blocks i = [b]" "v (unat b) = dots_block c p"
  shows "dir_entries v i = [(entry_new c (ascii ''.'') True, b, 0), (entry_new p (ascii ''..'') True, b, 34)]"
proof -
  let ?s = "\<lambda>j. (slot (dots_block c p) j, b, j * 34)"
  have "filter (\<lambda>x. \<not> is_empty (fst x)) (map ?s [2..<15]) = []"
    using slot_zero_block by (auto simp: filter_empty_conv slot_dots)
  moreover have "[0..<15] = 0 # 1 # [2..<15]" by (simp add: upt_conv_Cons)
  moreover have "\<not> is_empty (entry_new c (ascii ''.'') True)" "\<not> is_empty (entry_new p (ascii ''..'') True)"
    using entry_new_not_empty by (simp_all add: ascii_dot ascii_dotdot)
  ultimately show ?thesis
    using assms by (simp add: dir_entries_def dir_slots_def block_slots_def slot_dots)
qed

lemma dots_map:
  assumes "dir_blocks i = [b]" "v (unat b) = dots_block c p"
  shows "dir_map v i = [ascii ''.'' \<mapsto> (c, 2), ascii ''..'' \<mapsto> (p, 2)]" "names_distinct v i"
  using dots_entries [of i b v, OF assms] entry_name_new [OF name_ok_dots(1)] entry_name_new [OF name_ok_dots(2)]
  by (auto simp: dir_map_def names_distinct_def fun_eq_iff ascii_dot ascii_dotdot)

lemma dots_wf:
  assumes "dir_blocks i = [b]" "v (unat b) = dots_block c p" "inode_wf i" "block_count i = 1"
    "31 \<le> unat b" "unat b < 20480" "indirect_block i = 0"
  shows "dir_wf v i"
  using assms dots_entries [of i b v, OF assms(1,2)] by (auto simp: dir_wf_def unat_name_len_new)

section \<open>Lemmas: formatting\<close>

lemma new_dir_awp [awp_rules]:
  assumes "\<And>t. Q \<lparr>inode_no = n, mode = 0x41ED, uid = 1000, gid = 1000, isize = 0, nlink = 2,
       block_count = 0, mtime = t, atime = t, ctime = t,
       direct_blocks = replicate 10 0, indirect_block = 0\<rparr> v"
  shows "dwp d (new_dir (disk_host d) n) Q v"
proof -
  have "S_IFDIR OR 493 = 0x41ED" by (simp add: S_IFDIR_def)
  with assms show ?thesis by (auto simp: new_dir_def [abs_def] intro!: awp_rules)
qed

lemma sb_root_inode [simp]: "sb_layout (sb\<lparr>root_inode := n\<rparr>) = sb_layout sb"
  by (simp add: sb_layout_def)

lemma alloc_inv_root:
  assumes "alloc_inv v sb"
  shows "alloc_inv (v(0 := sb_block (sb\<lparr>root_inode := n\<rparr>))) (sb\<lparr>root_inode := n\<rparr>)"
proof -
  have "allocd (v(0 := x)) = allocd v" for x by (auto simp: allocd_def)
  with assms show ?thesis by (auto simp: alloc_inv_def free_set_def)
qed

lemma alloc_inv_init:
  assumes "vol v" "sb_layout sb" "v 0 = sb_block sb" "free_blocks sb = 20449"
    and "\<And>b. b < 20480 \<Longrightarrow> allocd v b = (b < 31)"
  shows "alloc_inv v sb"
proof -
  have "free_set v = {31..<20480}" using assms(5) by (auto simp: free_set_def)
  with assms show ?thesis by (simp add: alloc_inv_def)
qed

lemma formattedI:
  assumes inv: "alloc_inv v sb" and root: "root_inode sb = 1" "free_blocks sb = 20448"
    and bits: "\<And>b. b < 20480 \<Longrightarrow> allocd v b \<longleftrightarrow> b \<le> 31"
    and at: "inode_at v 1 = i" and blk: "dir_blocks i = [31]" "v 31 = dots_block 1 1" "inode_wf i"
    and i: "inode_no i = 1" "block_count i = 1" "indirect_block i = 0" "nlink i = 2" "mode i = 0x41ED"
      "uid i = 1000" "gid i = 1000" "isize i = 510"
  shows "formatted v sb"
proof -
  have "unat (31 :: u32) = 31" by simp
  with blk have v31: "v (unat (31 :: u32)) = dots_block 1 1" by simp
  note dots = dots_map [of i 31 v, OF blk(1) v31]
  have "dir_wf v i"
    using dots_wf [of i 31 v 1 1] blk v31 i by simp
  moreover have "dir_clear i"
    using blk(1) i(1) by (simp add: dir_clear_def on_disk_def inode_blk_def)
  ultimately have "dir_inv v sb i"
    using inv dots(2) bits [of 31] blk(1) by (simp add: dir_inv_def)
  with inv root bits at i dots(1) show ?thesis by (simp add: formatted_def)
qed

lemma take_first_block: "take (Suc 0) ((replicate 10 x)[0 := y]) = [y]"
  by (simp add: numeral_eq_Suc)

lemma format_root:
  assumes inv: "alloc_inv v sb" and bits: "\<And>b. b < 20480 \<Longrightarrow> allocd v b \<longleftrightarrow> b \<le> 31"
    and free: "free_blocks sb = 20448" and i: "i = \<lparr>inode_no = 1, mode = 0x41ED, uid = 1000, gid = 1000, isize = 510,
      nlink = 2, block_count = 1, mtime = t, atime = t, ctime = t, direct_blocks = (replicate 10 0)[0 := 31], indirect_block = 0\<rparr>"
    and v': "v' = (put_inode (v(31 := dots_block 1 1)) i)(0 := sb_block (sb\<lparr>root_inode := 1\<rparr>))"
  shows "formatted v' (sb\<lparr>root_inode := 1\<rparr>)"
proof -
  let ?v1 = "v(31 := dots_block 1 1)"
  have v1: "vol ?v1" using inv by (simp add: alloc_inv_def)
  have wf: "inode_wf i" "on_disk 1" "inode_no i = 1"
    by (simp_all add: i inode_wf_def on_disk_def inode_blk_def)
  let ?v2 = "put_inode ?v1 i"
  have inv2: "alloc_inv ?v2 sb"
    using inv v1 wf by (intro alloc_inv_cong [OF inv]) (auto simp: put_inode_low)
  have at: "inode_at v' 1 = i"
    using inode_at_put_inode [OF v1, of i 1] wf inode_at_cong [of v' 1 ?v2] by (simp add: v' inode_blk_def)
  have low: "allocd v' b = allocd v b" if "b < 20480" for b
  proof -
    have "allocd v' b = allocd ?v2 b" by (simp add: v' allocd_def)
    also have "\<dots> = allocd v b" using that by (intro allocd_cong) (auto simp: put_inode_low)
    finally show ?thesis .
  qed
  show ?thesis
  proof (rule formattedI [OF _ _ _ _ at])
    show "alloc_inv v' (sb\<lparr>root_inode := 1\<rparr>)" unfolding v' by (rule alloc_inv_root [OF inv2])
    show "v' 31 = dots_block 1 1" by (simp add: v' wf put_inode_def inode_blk_def)
  qed (use bits low free wf in \<open>simp_all add: i dir_blocks_def take_first_block\<close>)
qed

lemma format_root_dir_awp:
  assumes inv: "alloc_inv v sb" and free: "free_blocks sb = 20449"
    and bits: "\<And>b. b < 20480 \<Longrightarrow> allocd v b = (b < 31)"
    and Q: "\<And>sb v'. formatted v' sb \<Longrightarrow> \<forall>x \<ge> 32. v' x = v x \<Longrightarrow> Q sb v'"
  shows "dwp d (format_root_dir d sb) Q v"
proof -
  have eq: "format_root_dir d sb = (\<lambda>s. do {
       (root, s) \<leftarrow> new_dir (disk_host d) 1 s;
       ((r, sb), s) \<leftarrow> allocate_block d sb s;
       b \<leftarrow> r;
       (_, s) \<leftarrow> write_block d b (dots_block 1 1) s;
       (_, s) \<leftarrow> write_inode d sb (root\<lparr>direct_blocks := (direct_blocks root)[0 := b], block_count := 1,
           isize := 510, nlink := 2\<rparr>) s;
       (_, s) \<leftarrow> write_superblock d (sb\<lparr>root_inode := 1\<rparr>) s;
       Some (sb\<lparr>root_inode := 1\<rparr>, s) })"
    by (simp add: format_root_dir_def [abs_def] Let_def dots_block_def)
  show ?thesis
    unfolding eq
  proof (intro awp_bind new_dir_awp, unfold prod.case, rule awp_bind, rule allocate_block_awp [OF inv], goal_cases)
    case (1 t)
    have "31 \<in> free_set v" using bits by (simp add: free_set_def)
    with 1 show ?case by simp
  next
    case (2 t b v3)
    have "\<not> 31 < b" using 2(4) bits [of 31] by auto
    with 2(2) have b: "b = 31" by simp
    have lay: "vol v3" "sb_layout sb" using 2(6) by (auto simp: alloc_inv_def)
    have bits3: "allocd v3 x \<longleftrightarrow> x \<le> 31" if "x < 20480" for x
      using 2(5) bits [OF that] b by (auto simp: bitmap_post_def)
    let ?i = "\<lparr>inode_no = 1, mode = 0x41ED, uid = 1000, gid = 1000, isize = 510, nlink = 2, block_count = 1,
      mtime = t, atime = t, ctime = t, direct_blocks = (replicate 10 0)[0 := 31], indirect_block = 0\<rparr>"
    let ?sb = "sb\<lparr>free_blocks := free_blocks sb - 1\<rparr>"
    have "free_blocks ?sb = 20448" using free by simp
    note f = format_root [OF 2(6) bits3 this refl refl, where t = t]
    have "\<forall>x \<ge> 32. ((put_inode (v3(31 := dots_block 1 1)) ?i)(0 := sb_block (?sb\<lparr>root_inode := 1\<rparr>))) x = v x"
      using 2(5) by (auto simp: bitmap_post_def put_inode_def inode_blk_def)
    with f have "Q (?sb\<lparr>root_inode := 1\<rparr>) ((put_inode (v3(31 := dots_block 1 1)) ?i)(0 := sb_block (?sb\<lparr>root_inode := 1\<rparr>)))"
      by (rule Q)
    then show ?case
      using lay b by (auto simp: inode_wf_def on_disk_def inode_blk_def intro!: awp_rules)
  qed
qed

lemma format_new_fs_awp:
  assumes "\<And>sb v'. formatted v' sb \<Longrightarrow> \<forall>x \<ge> 32. v' x = v x \<Longrightarrow> Q sb v'"
  shows "dwp d (format_new_fs d) Q v"
proof (rule dwp_vol)
  assume "vol v"
  then show "dwp d (format_new_fs d) Q v"
    unfolding format_new_fs_def [abs_def]
    using assms format_root_dir_awp
    by (intro awp_bind init_superblock_awp)
       (auto intro!: awp_bind init_bitmap_awp format_root_dir_awp alloc_inv_init)
qed

section \<open>Lemmas: mounting\<close>

lemma mount_opens:
  assumes "opens_image h path s fd c" and d: "d = \<lparr>disk_host = h, disk_fd = fd\<rparr>"
  shows "\<exists>s1 s2. disk_open h path s = Some (d, s1) \<and> disk_size d s1 = Some (of_nat (length c), s2) \<and>
    disk_image d s2 = Some c"
proof -
  obtain s1 where s1: "sys_open h path (O_RDWR + O_CREAT) 438 s = (fd, s1)" "file_bytes h fd s1 = Some c"
    using assms(1) by (auto simp: opens_image_def)
  obtain s2 where "sys_fstat h fd s1 = ((0, int (length c)), s2)" "file_bytes h fd s2 = Some c"
    using posix_fstat [of h fd s1 c] s1 assms(1) by (auto simp: opens_image_def)
  with s1 assms show ?thesis
    by (auto simp: opens_image_def disk_open_def disk_size_def disk_image_def)
qed

lemma size_zero: "length c < 2 ^ 63 \<Longrightarrow> (of_nat (length c) :: u64) = 0 \<longleftrightarrow> c = []"
  by (auto simp: word_unat_eq_iff unat_of_nat)

lemma truncate_full:
  assumes "posix_host (disk_host d)" "disk_image d s = Some c"
  shows "\<exists>s'. disk_truncate d DISK_SIZE s = Some ((), s') \<and> disk_ok d s' \<and> blocks d s' = image_vol c"
proof -
  obtain s' where "sys_ftruncate (disk_host d) (disk_fd d) (int DISK_SIZE) s = (0, s')"
      "file_bytes (disk_host d) (disk_fd d) s' = Some (take DISK_SIZE c @ replicate (DISK_SIZE - length c) 0)"
    using posix_ftruncate [of "disk_host d" "disk_fd d" s c DISK_SIZE] assms by (auto simp: disk_image_def)
  moreover have "length (take DISK_SIZE c @ replicate (DISK_SIZE - length c) (0 :: byte)) = DISK_SIZE" by simp
  ultimately show ?thesis
    using assms(1)
    by (auto simp: disk_truncate_def disk_ok_def disk_image_def image_vol_def blocks_def fun_eq_iff simp del: DISK_SIZE_eq)
qed

lemma truncate_format:
  assumes "posix_host (disk_host d)" "disk_image d s = Some c"
  shows "\<exists>s1 sb s'. disk_truncate d DISK_SIZE s = Some ((), s1) \<and> format_new_fs d s1 = Some (sb, s') \<and>
    disk_ok d s' \<and> formatted (blocks d s') sb \<and> (\<forall>x \<ge> 32. blocks d s' x = image_vol c x)"
proof -
  obtain s1 where s1: "disk_truncate d DISK_SIZE s = Some ((), s1)" "disk_ok d s1" "blocks d s1 = image_vol c"
    using truncate_full [OF assms] by auto
  have "dwp d (format_new_fs d) (\<lambda>sb v. formatted v sb \<and> (\<forall>x \<ge> 32. v x = blocks d s1 x)) (blocks d s1)"
    by (rule format_new_fs_awp) auto
  from dwp_run [OF this s1(2)] s1 show ?thesis by auto
qed

lemma read_superblock_io_image:
  assumes "posix_host (disk_host d)" "disk_image d s = Some c"
  shows "\<exists>s'. disk_image d s' = Some c \<and> read_superblock_io d s =
    (if 512 \<le> length c then
       (case sb_from_bytes (take 512 c) of
          Some sb \<Rightarrow> if sb_is_valid sb then Some sb else None
        | None \<Rightarrow> None)
     else None, s')"
  using read_block_io_image [OF assms, of 0]
  by (auto simp: read_superblock_io_def split: option.splits)

lemma sb_from_bytes_total: "44 \<le> length c \<Longrightarrow> \<exists>sb. sb_from_bytes c = Some sb \<and> magic sb = take 16 c"
  by (simp add: sb_from_bytes_def read_u32_def)

lemma mount_formats:
  assumes o: "opens_image h path s fd c" and d: "d = \<lparr>disk_host = h, disk_fd = fd\<rparr>" and "\<not> usable c"
  shows "\<exists>fs s'. fs_mount h path s = Some (fs, s') \<and> fs_disk fs = d \<and> disk_path fs = path \<and>
    disk_ok d s' \<and> formatted (blocks d s') (fs_sb fs) \<and> (\<forall>x \<ge> 32. blocks d s' x = image_vol c x)"
proof -
  obtain s1 s2 where s2: "disk_open h path s = Some (d, s1)" "disk_size d s1 = Some (of_nat (length c), s2)"
      "disk_image d s2 = Some c"
    using mount_opens [OF o d] by auto
  have h: "posix_host (disk_host d)" "length c < 2 ^ 63" using o d by (auto simp: opens_image_def)
  show ?thesis
  proof (cases "c = []")
    case True
    with s2 truncate_format [OF h(1) s2(3)] show ?thesis by (auto simp: fs_mount_def)
  next
    case False
    obtain s3 where s3: "disk_image d s3 = Some c" "read_superblock_io d s2 = (None, s3)"
      using read_superblock_io_image [OF h(1) s2(3)] assms(3) sb_from_bytes_total [of "take 512 c"]
      by (fastforce simp: usable_def sb_is_valid_def)
    with s2 False size_zero [OF h(2)] truncate_format [OF h(1) s3(1)] show ?thesis
      by (auto simp: fs_mount_def)
  qed
qed

lemma mount_keeps:
  assumes o: "opens_image h path s fd c" and d: "d = \<lparr>disk_host = h, disk_fd = fd\<rparr>" and u: "usable c"
  shows "\<exists>fs s'. fs_mount h path s = Some (fs, s') \<and> fs_disk fs = d \<and> disk_path fs = path \<and>
    disk_image d s' = Some c \<and> sb_from_bytes (take 512 c) = Some (fs_sb fs)"
proof -
  obtain s1 s2 where s2: "disk_open h path s = Some (d, s1)" "disk_size d s1 = Some (of_nat (length c), s2)"
      "disk_image d s2 = Some c"
    using mount_opens [OF o d] by auto
  have h: "posix_host (disk_host d)" "length c < 2 ^ 63" using o d by (auto simp: opens_image_def)
  obtain sb where sb: "sb_from_bytes (take 512 c) = Some sb" "sb_is_valid sb"
    using sb_from_bytes_total [of "take 512 c"] u by (auto simp: usable_def sb_is_valid_def)
  obtain s3 where s3: "disk_image d s3 = Some c" "read_superblock_io d s2 = (Some sb, s3)"
    using read_superblock_io_image [OF h(1) s2(3)] u sb by (auto simp: usable_def)
  have "c \<noteq> []" using u by (auto simp: usable_def)
  with s2 s3 sb size_zero [OF h(2)] show ?thesis by (auto simp: fs_mount_def)
qed

end
