(* ===== verification/Memory_Host.thy ===== *)
theory Memory_Host
  imports FileSystem
begin

text \<open>
  A host in memory: one regular file, open at descriptor 3, and a clock that stands still. It
  satisfies \<open>posix_host\<close>, so the hypotheses of the theorems about the disk can hold; the
  theorems at concrete inputs use it, from the blank image or from the image that
  \<open>format_new_fs\<close> makes of it.
\<close>

record mem =
  mem_bytes :: "byte list"
  mem_pos :: nat

definition mem_host :: "mem host" where
  "mem_host = \<lparr>
     sys_open = (\<lambda>path flags perm s. (3, s\<lparr>mem_pos := 0\<rparr>)),
     sys_fstat = (\<lambda>fd s. ((0, int (length (mem_bytes s))), s)),
     sys_ftruncate = (\<lambda>fd n s. (0, s\<lparr>mem_bytes := take (nat n) (mem_bytes s) @
        replicate (nat n - length (mem_bytes s)) 0\<rparr>)),
     sys_lseek = (\<lambda>fd off s. (off, s\<lparr>mem_pos := nat off\<rparr>)),
     sys_read = (\<lambda>fd n s. let bs = take n (drop (mem_pos s) (mem_bytes s))
        in ((int (length bs), bs), s\<lparr>mem_pos := mem_pos s + length bs\<rparr>)),
     sys_write = (\<lambda>fd bs s. (int (length bs),
        s\<lparr>mem_bytes := overwrite (mem_bytes s) (mem_pos s) bs, mem_pos := mem_pos s + length bs\<rparr>)),
     sys_fsync = (\<lambda>fd s. (0, s)),
     sys_close = (\<lambda>fd s. (0, s)),
     sys_time = (\<lambda>s. (1700000000, s)),
     file_bytes = (\<lambda>fd s. if fd = 3 then Some (mem_bytes s) else None),
     file_pos = (\<lambda>fd s. mem_pos s)\<rparr>"

definition mem_disk :: "mem Disk" where
  "mem_disk = \<lparr>disk_host = mem_host, disk_fd = 3\<rparr>"

text \<open>An empty file, a full-size image of zeros, and that image formatted.\<close>

definition mem_empty :: mem where "mem_empty = \<lparr>mem_bytes = [], mem_pos = 0\<rparr>"
definition mem_blank :: mem where "mem_blank = \<lparr>mem_bytes = replicate DISK_SIZE 0, mem_pos = 0\<rparr>"

definition fmt_sb :: SuperBlock where "fmt_sb = fst (the (format_new_fs mem_disk mem_blank))"
definition fmt_state :: mem where "fmt_state = snd (the (format_new_fs mem_disk mem_blank))"

definition fmt_fs :: "mem SimpleFS" where
  "fmt_fs = \<lparr>fs_disk = mem_disk, fs_sb = fmt_sb, disk_path = ''disk.img''\<rparr>"

abbreviation fmt_vol :: volume where "fmt_vol \<equiv> blocks mem_disk fmt_state"

lemma mem_host_posix [simp]: "posix_host mem_host"
  by (auto simp: posix_host_def mem_host_def Let_def)

lemma mem_disk_sel [simp]: "disk_host mem_disk = mem_host" "disk_fd mem_disk = 3"
  by (simp_all add: mem_disk_def)

lemma mem_blank_ok: "disk_ok mem_disk mem_blank"
  by (simp add: disk_ok_def disk_image_def mem_blank_def) (simp add: mem_host_def)

lemma fmt_facts:
  shows fmt_run: "format_new_fs mem_disk mem_blank = Some (fmt_sb, fmt_state)"
    and fmt_ok: "disk_ok mem_disk fmt_state"
    and fmt_formatted: "formatted fmt_vol fmt_sb"
    and fmt_zero: "zero_from 32 fmt_vol"
proof -
  have "dwp mem_disk (format_new_fs mem_disk) (\<lambda>sb v. formatted v sb \<and> (\<forall>x \<ge> 32. v x = blocks mem_disk mem_blank x))
      (blocks mem_disk mem_blank)"
    by (rule format_new_fs_awp) auto
  from dwp_run [OF this mem_blank_ok] obtain sb s where
    "format_new_fs mem_disk mem_blank = Some (sb, s)" "disk_ok mem_disk s" "formatted (blocks mem_disk s) sb"
      "\<forall>x \<ge> 32. blocks mem_disk s x = blocks mem_disk mem_blank x"
    by auto
  moreover have "blocks mem_disk mem_blank x = replicate 512 0" if "x < 20480" for x
    using that by (simp add: blocks_def disk_image_def mem_blank_def) (simp add: mem_host_def)
  ultimately show "format_new_fs mem_disk mem_blank = Some (fmt_sb, fmt_state)" "disk_ok mem_disk fmt_state"
      "formatted fmt_vol fmt_sb" "zero_from 32 fmt_vol"
    by (simp_all add: fmt_sb_def fmt_state_def zero_from_def)
qed

lemma fmt_inv: "alloc_inv fmt_vol fmt_sb" "vol fmt_vol" "sb_layout fmt_sb"
    "dir_inv fmt_vol fmt_sb (inode_at fmt_vol 1)"
  using fmt_formatted by (auto simp: formatted_def alloc_inv_def)

lemma fmt_fs_sel [simp]: "fs_disk fmt_fs = mem_disk" "fs_sb fmt_fs = fmt_sb"
  by (simp_all add: fmt_fs_def)

lemma mem_opens: "length (mem_bytes s) < 2 ^ 63 \<Longrightarrow> opens_image mem_host ''disk.img'' s 3 (mem_bytes s)"
  by (simp add: opens_image_def) (simp add: mem_host_def)

lemma fmt_bytes: "length (mem_bytes fmt_state) = 10485760" "take 512 (mem_bytes fmt_state) = fmt_vol 0"
proof -
  have "file_bytes mem_host 3 s = Some (mem_bytes s)" for s by (simp add: mem_host_def)
  with fmt_ok show "length (mem_bytes fmt_state) = 10485760" "take 512 (mem_bytes fmt_state) = fmt_vol 0"
    by (auto simp: disk_ok_def disk_image_def blocks_def)
qed

lemma fmt_sb_block: "fmt_vol 0 = sb_block fmt_sb"
  using fmt_inv(1) by (simp add: alloc_inv_def)

lemma fmt_root: "dir_map fmt_vol (inode_at fmt_vol 1) = [ascii ''.'' \<mapsto> (1, 2), ascii ''..'' \<mapsto> (1, 2)]"
    "dir_room fmt_vol (inode_at fmt_vol 1)"
proof -
  show "dir_map fmt_vol (inode_at fmt_vol 1) = [ascii ''.'' \<mapsto> (1, 2), ascii ''..'' \<mapsto> (1, 2)]"
    using fmt_formatted by (simp add: formatted_def)
  have "inode_no (inode_at fmt_vol 1) = 1"
    using inode_at_decode(3) [OF fmt_inv(2), of 1] by (simp add: on_disk_def inode_blk_def)
  then show "dir_room fmt_vol (inode_at fmt_vol 1)"
    using fmt_formatted by (simp add: dir_room_def next_free_def inode_blk_def formatted_def)
qed

text \<open>The formatted image with an empty file, inode 1000.\<close>

definition mem_inode :: Inode where
  "mem_inode = \<lparr>inode_no = 1000, mode = 0x81A4, uid = 1000, gid = 1000, isize = 0, nlink = 1, block_count = 0,
     mtime = 0, atime = 0, ctime = 0, direct_blocks = replicate 10 0, indirect_block = 0\<rparr>"

definition file_state :: mem where "file_state = snd (the (write_inode mem_disk fmt_sb mem_inode fmt_state))"

abbreviation file_vol :: volume where "file_vol \<equiv> blocks mem_disk file_state"

lemma mem_inode_sel [simp]: "inode_no mem_inode = 1000" "inode_wf mem_inode" "block_count mem_inode = 0" "isize mem_inode = 0"
    "indirect_block mem_inode = 0" "on_disk 1000" "inode_blk 1000 = 172" "nlink mem_inode = 1" "mode mem_inode = 0x81A4"
  by (simp_all add: mem_inode_def inode_wf_def on_disk_def inode_blk_def)

lemma file_state_facts:
  shows file_state_ok: "disk_ok mem_disk file_state" and file_vol: "file_vol = put_inode fmt_vol mem_inode"
proof -
  have "dwp mem_disk (write_inode mem_disk fmt_sb mem_inode) (\<lambda>_ v. v = put_inode fmt_vol mem_inode) fmt_vol"
    using fmt_inv by (intro write_inode_awp) auto
  from dwp_run [OF this fmt_ok] show "disk_ok mem_disk file_state" "file_vol = put_inode fmt_vol mem_inode"
    by (auto simp: file_state_def)
qed

lemma file_allocd: "b < 20480 \<Longrightarrow> allocd file_vol b \<longleftrightarrow> b \<le> 31"
proof -
  assume b: "b < 20480"
  have "allocd file_vol b = allocd fmt_vol b"
    using b by (intro allocd_cong) (simp_all add: file_vol put_inode_low)
  with b fmt_formatted show ?thesis by (simp add: formatted_def)
qed

lemma file_alloc_inv: "alloc_inv file_vol fmt_sb"
  using alloc_inv_cong [OF fmt_inv(1), of file_vol] disk_ok_vol [OF file_state_ok]
  by (simp add: file_vol put_inode_low)

lemma file_inode_at [simp]: "inode_at file_vol 1000 = mem_inode"
  using inode_at_put_inode [OF fmt_inv(2), of mem_inode 1000] by (simp add: file_vol)

end
