(* ===== verification/Storage_Properties.thy ===== *)
theory Storage_Properties
  imports Memory_Host
begin

text \<open>
  The main theorems about the storage layers: the disk, the superblock, the bitmap allocator,
  the inode table and the directories. Each theorem with hypotheses is followed by an instance
  at the formatted image of the memory host.
\<close>

section \<open>The disk\<close>

text \<open>C33. Reading a block after writing a block returns the written bytes for the same block and
  the old contents for every other block, and neither call panics.\<close>

theorem read_after_write:
  assumes "disk_ok d s" "unat b < 20480" "unat c < 20480" "length buf = 512"
  shows "\<exists>s1 s2. write_block d b buf s = Some ((), s1) \<and> disk_ok d s2 \<and>
    read_block d c s1 = Some (if c = b then buf else blocks d s (unat c), s2)"
  using assms by (rule dev.rd_after_wr)

theorem read_after_write_witness:
  "\<exists>s1 s2. write_block mem_disk 7 (replicate 512 1) mem_blank = Some ((), s1) \<and> disk_ok mem_disk s2 \<and>
    read_block mem_disk 7 s1 = Some (replicate 512 1, s2)"
  using read_after_write [OF mem_blank_ok, of 7 7 "replicate 512 1"] by simp

text \<open>\<open>write_partial\<close> stores the part of the data that fits before the last two bytes of the
  block and changes nothing else; \<open>read_partial\<close> reads it back.\<close>

theorem partial_roundtrip:
  assumes "disk_ok d s" "unat b < 20480" "off + length data \<le> 510" "length buf = length data"
  shows "\<exists>s1 s2. write_partial d b off data s = Some ((), s1) \<and>
    blocks d s1 = (blocks d s)(unat b := overwrite (blocks d s (unat b)) off data) \<and>
    read_partial d b off (length data) buf s1 = Some (data, s2) \<and> disk_ok d s2 \<and> blocks d s2 = blocks d s1"
proof -
  let ?v = "blocks d s"
  let ?v1 = "?v(unat b := overwrite (?v (unat b)) off data)"
  have len: "length (?v (unat b)) = 512" using assms by (simp add: blocks_length)
  have "dwp d (write_partial d b off data) (\<lambda>_ v. v = ?v1) ?v"
    unfolding write_partial_def [abs_def] Let_def
    using assms len by (intro awp_bind read_block_awp) (auto simp: min_def intro!: awp_rules)
  from dwp_run [OF this assms(1)] obtain s1 where
    s1: "write_partial d b off data s = Some ((), s1)" "disk_ok d s1" "blocks d s1 = ?v1" by auto
  have "dwp d (read_partial d b off (length data) buf) (\<lambda>r v. r = data \<and> v = ?v1) ?v1"
    unfolding read_partial_def [abs_def] Let_def
    using assms len splice_same [of off data "?v (unat b)"]
    by (intro awp_bind read_block_awp) (auto simp: min_def overwrite_def intro!: awp_rules)
  then have "dwp d (read_partial d b off (length data) buf) (\<lambda>r v. r = data \<and> v = ?v1) (blocks d s1)"
    by (simp add: s1)
  from dwp_run [OF this s1(2)] s1 show ?thesis by auto
qed

theorem partial_roundtrip_witness:
  "\<exists>s1 s2. write_partial mem_disk 40 500 [1, 2, 3] mem_blank = Some ((), s1) \<and>
    read_partial mem_disk 40 500 3 [0, 0, 0] s1 = Some ([1, 2, 3], s2)"
  using partial_roundtrip [OF mem_blank_ok, of 40 500 "[1, 2, 3]" "[0, 0, 0]"]
  by (auto simp: numeral_3_eq_3)

section \<open>The superblock\<close>

text \<open>A superblock with a valid magic number that is written to the disk is read back field by
  field, and only block 0 changes.\<close>

theorem superblock_roundtrip:
  assumes "disk_ok d s" "sb_wf sb" "sb_is_valid sb"
  shows "\<exists>s1 s2. write_superblock d sb s = Some ((), s1) \<and> read_superblock d s1 = Some (sb, s2) \<and>
    disk_ok d s2 \<and> blocks d s2 = (blocks d s)(0 := sb_block sb)"
proof -
  let ?v = "(blocks d s)(0 := sb_block sb)"
  have "dwp d (write_superblock d sb) (\<lambda>_ v. v = ?v) (blocks d s)"
    using assms by (intro write_superblock_awp) auto
  from dwp_run [OF this assms(1)] obtain s1 where
    s1: "write_superblock d sb s = Some ((), s1)" "disk_ok d s1" "blocks d s1 = ?v" by auto
  have "dwp d (read_superblock d) (\<lambda>r v. r = sb \<and> v = ?v) (blocks d s1)"
    using assms s1 by (intro read_superblock_awp [where sb = sb]) auto
  from dwp_run [OF this s1(2)] s1 show ?thesis by auto
qed

theorem superblock_roundtrip_witness:
  "\<exists>s1 s2. write_superblock mem_disk fmt_sb mem_blank = Some ((), s1) \<and>
    read_superblock mem_disk s1 = Some (fmt_sb, s2)"
  using superblock_roundtrip [OF mem_blank_ok sb_layout_wf [OF fmt_inv(3)] sb_layout_valid [OF fmt_inv(3)]]
  by blast

text \<open>On an image whose first 13 bytes are not the magic number \<open>read_superblock\<close> panics.\<close>

theorem read_superblock_invalid:
  assumes "disk_ok d s" "take 13 (blocks d s 0) \<noteq> ascii ''SIMPLEFS-RUST''"
  shows "read_superblock d s = None"
proof -
  obtain s' where r: "read_block d 0 s = Some (blocks d s 0, s')"
    using read_block_law [OF assms(1), of 0] by auto
  have len: "length (blocks d s 0) = 512" using assms(1) by (simp add: blocks_length)
  have "\<not> sb_is_valid sb" if "sb_from_bytes (blocks d s 0) = Some sb" for sb
    using that assms(2) len
    by (auto simp: sb_from_bytes_def sb_is_valid_def read_u32_def split: Option.bind_splits)
  with r show ?thesis
    by (auto simp: read_superblock_def read_superblock_io_def read_block_def
        split: prod.splits option.splits)
qed

theorem read_superblock_invalid_witness: "read_superblock mem_disk mem_blank = None"
proof (rule read_superblock_invalid [OF mem_blank_ok])
  have "blocks mem_disk mem_blank 0 = replicate 512 0"
    by (simp add: blocks_def disk_image_def mem_blank_def) (simp add: mem_host_def)
  then have "hd (take 13 (blocks mem_disk mem_blank 0)) = 0" by simp
  moreover have "hd (ascii ''SIMPLEFS-RUST'') \<noteq> 0" by (simp add: ascii_def)
  ultimately show "take 13 (blocks mem_disk mem_blank 0) \<noteq> ascii ''SIMPLEFS-RUST''" by metis
qed

section \<open>The allocator\<close>

text \<open>C13. On a consistent volume \<open>allocate_block\<close> returns the least free block and marks exactly
  that block, or reports that there is none exactly when every block is in use; the volume stays
  consistent (bitmap, free count and the superblock on the disk agree) and no block outside the
  superblock and the bitmap changes.\<close>

theorem allocate_block_correct:
  assumes "disk_ok d s" "alloc_inv (blocks d s) sb"
  shows "\<exists>r sb' s'. allocate_block d sb s = Some ((r, sb'), s') \<and> disk_ok d s' \<and>
    alloc_inv (blocks d s') sb' \<and> (\<forall>i \<ge> 6. blocks d s' i = blocks d s i) \<and>
    r = (if free_set (blocks d s) = {} then None else Some (of_nat (Min (free_set (blocks d s))))) \<and>
    free_set (blocks d s') = free_set (blocks d s) - {Min (free_set (blocks d s))}"
proof -
  let ?v = "blocks d s"
  have "dwp d (allocate_block d sb) (\<lambda>(r, sb') v'. alloc_inv v' sb' \<and> (\<forall>i \<ge> 6. v' i = ?v i) \<and>
      r = (if free_set ?v = {} then None else Some (of_nat (Min (free_set ?v)))) \<and>
      free_set v' = free_set ?v - {Min (free_set ?v)}) ?v"
  proof (rule allocate_block_awp [OF assms(2)], goal_cases)
    case 1
    with assms(2) show ?case by simp
  next
    case (2 b v')
    then have "b \<in> free_set ?v" by (simp add: free_set_def)
    moreover from this 2(4) have "Min (free_set ?v) = b"
      by (intro Min_eqI) (auto simp: free_set_def not_less [symmetric])
    ultimately show ?case
      using 2(5,6) by (auto simp: bitmap_post_def free_set_def)
  qed
  from dwp_run [OF this assms(1)] show ?thesis by auto
qed

theorem allocate_block_correct_witness:
  "\<exists>r sb' s'. allocate_block mem_disk fmt_sb fmt_state = Some ((r, sb'), s') \<and>
    alloc_inv (blocks mem_disk s') sb'"
  using allocate_block_correct [OF fmt_ok fmt_inv(1)] by blast

text \<open>C31. Allocating a block and releasing it again leaves the set of allocated blocks and every
  block outside the superblock and the bitmap as they were.\<close>

theorem allocate_release_restores:
  assumes "disk_ok d s" "alloc_inv (blocks d s) sb"
  shows "\<exists>r sb1 s1. allocate_block d sb s = Some ((r, sb1), s1) \<and>
    (\<forall>n. r = Some n \<longrightarrow> (\<exists>sb2 s2. mark_free d sb1 n s1 = Some (sb2, s2) \<and> disk_ok d s2 \<and>
       alloc_inv (blocks d s2) sb2 \<and> allocd (blocks d s2) = allocd (blocks d s) \<and>
       (\<forall>i \<ge> 6. blocks d s2 i = blocks d s i)))"
  using dwp_run [OF bm.alloc_release [OF assms(2)] assms(1)]
  by (fastforce split: Option.bind_splits prod.splits option.splits)

theorem allocate_release_restores_witness:
  "\<exists>r sb1 s1. allocate_block mem_disk fmt_sb fmt_state = Some ((r, sb1), s1) \<and>
    (\<forall>n. r = Some n \<longrightarrow> (\<exists>sb2 s2. mark_free mem_disk sb1 n s1 = Some (sb2, s2) \<and>
       allocd (blocks mem_disk s2) = allocd fmt_vol))"
  using allocate_release_restores [OF fmt_ok fmt_inv(1)] by fast

text \<open>Two allocations in a row never return the same block.\<close>

theorem allocate_twice_distinct:
  assumes "disk_ok d s" "alloc_inv (blocks d s) sb"
  shows "\<exists>r1 sb1 s1 r2 sb2 s2. allocate_block d sb s = Some ((r1, sb1), s1) \<and>
    allocate_block d sb1 s1 = Some ((r2, sb2), s2) \<and> alloc_inv (blocks d s2) sb2 \<and>
    (\<forall>n. r1 = Some n \<longrightarrow> r2 \<noteq> Some n \<and> allocd (blocks d s2) (unat n))"
proof -
  from dwp_run [OF bm.alloc_twice [OF assms(2)] assms(1)] obtain r1 r2 sb2 s2 where
    run: "do { ((r1, b), s) \<leftarrow> allocate_block d sb s; ((r2, b), s) \<leftarrow> allocate_block d b s;
        Some ((r1, r2, b), s) } = Some ((r1, r2, sb2), s2)" and
    post: "alloc_inv (blocks d s2) sb2" "\<forall>n. r1 = Some n \<longrightarrow> r2 \<noteq> Some n \<and> allocd (blocks d s2) (unat n)"
    by auto
  then show ?thesis by (auto split: Option.bind_splits prod.splits)
qed

theorem allocate_twice_distinct_witness:
  "\<exists>r1 sb1 s1 r2 sb2 s2. allocate_block mem_disk fmt_sb fmt_state = Some ((r1, sb1), s1) \<and>
    allocate_block mem_disk sb1 s1 = Some ((r2, sb2), s2) \<and> (r1 \<noteq> None \<longrightarrow> r1 \<noteq> r2)"
  using allocate_twice_distinct [OF fmt_ok fmt_inv(1)] by fast

text \<open>\<open>is_allocated\<close> reads the bit of the block, and answers true for a number that is not
  on the disk; it changes nothing.\<close>

theorem is_allocated_correct:
  assumes "disk_ok d s"
  shows "\<exists>s'. is_allocated d sb b s = Some (20480 \<le> unat b \<or> allocd (blocks d s) (unat b), s') \<and>
    disk_ok d s' \<and> blocks d s' = blocks d s"
proof -
  have "dwp d (is_allocated d sb b) (\<lambda>r v. r = (20480 \<le> unat b \<or> allocd (blocks d s) (unat b)) \<and> v = blocks d s) (blocks d s)"
    using disk_ok_vol [OF assms] by (intro is_allocated_awp) auto
  from dwp_run [OF this assms] show ?thesis by auto
qed

theorem is_allocated_correct_witness:
  "\<exists>s'. is_allocated mem_disk fmt_sb 31 fmt_state = Some (True, s')"
  using is_allocated_correct [OF fmt_ok, of fmt_sb 31] fmt_formatted by (auto simp: formatted_def)

section \<open>The inode table\<close>

text \<open>C24. An inode that is written to the table is read back exactly, and every other inode on
  the disk keeps its value.\<close>

theorem inode_table_roundtrip:
  assumes "disk_ok d s" "sb_layout sb" "inode_wf i" "on_disk (inode_no i)" "on_disk n"
  shows "\<exists>s1 s2. write_inode d sb i s = Some ((), s1) \<and> disk_ok d s2 \<and>
    read_inode d sb n s1 = Some (if n = inode_no i then i else inode_at (blocks d s) n, s2)"
proof -
  let ?v = "blocks d s"
  have v: "vol ?v" using assms(1) by (rule disk_ok_vol)
  have "dwp d (write_inode d sb i) (\<lambda>_ v. v = put_inode ?v i) ?v"
    using assms v by (intro write_inode_awp) auto
  from dwp_run [OF this assms(1)] obtain s1 where
    s1: "write_inode d sb i s = Some ((), s1)" "disk_ok d s1" "blocks d s1 = put_inode ?v i" by auto
  have "dwp d (read_inode d sb n) (\<lambda>r _. r = inode_at (put_inode ?v i) n) (blocks d s1)"
    using assms v s1 by (intro read_inode_awp) auto
  from dwp_run [OF this s1(2)] s1 inode_at_put_inode [OF v assms(4,3,5)] show ?thesis by auto
qed

theorem inode_table_roundtrip_witness:
  "\<exists>s1 s2. write_inode mem_disk fmt_sb (inode_at fmt_vol 7\<lparr>nlink := 5\<rparr>) fmt_state = Some ((), s1) \<and>
    read_inode mem_disk fmt_sb 1 s1 = Some (inode_at fmt_vol 1, s2)"
  using inode_table_roundtrip [OF fmt_ok fmt_inv(3), of "inode_at fmt_vol 7\<lparr>nlink := 5\<rparr>" 1]
    inode_at_decode(2,3) [OF fmt_inv(2), of 7]
  by (auto simp: inode_wf_def on_disk_def inode_blk_def)

text \<open>Block pointers: after \<open>set_block\<close> at a direct index, or at an indirect index with an
  indirect block on the disk, \<open>get_block\<close> at that index returns the block that was set.\<close>

theorem block_pointer_roundtrip:
  assumes "disk_ok d s" "inode_wf i" "unat idx < 265" "b \<noteq> 0" "unat b < 65536"
    and "unat (indirect_block i) < 20480" "10 \<le> unat idx \<Longrightarrow> indirect_block i \<noteq> 0"
  shows "\<exists>i' s1 s2. set_block i d idx b s = Some (i', s1) \<and> get_block i' d idx s1 = Some (Some b, s2) \<and>
    disk_ok d s2 \<and> (unat idx < 10 \<longrightarrow> blocks d s2 = blocks d s) \<and>
    (10 \<le> unat idx \<longrightarrow> i' = i \<and> (\<forall>x. x \<noteq> unat (indirect_block i) \<longrightarrow> blocks d s2 x = blocks d s x))"
proof -
  let ?v = "blocks d s"
  have v: "vol ?v" using assms(1) by (rule disk_ok_vol)
  let ?post = "\<lambda>i' v'. vol v' \<and> inode_wf i' \<and> indirect_block i' = indirect_block i \<and> block_of v' i' (unat idx) = Some b \<and>
    (unat idx < 10 \<longrightarrow> v' = ?v) \<and> (10 \<le> unat idx \<longrightarrow> i' = i \<and> (\<forall>x. x \<noteq> unat (indirect_block i) \<longrightarrow> v' x = ?v x))"
  have "dwp d (set_block i d idx b) ?post ?v"
  proof (rule set_block_awp [OF v assms(2)])
    assume lt: "unat idx < 10"
    have "inode_wf (i\<lparr>direct_blocks := (direct_blocks i)[unat idx := b]\<rparr>)"
      using assms(2) by (simp add: inode_wf_def)
    with lt v block_of_set_direct [OF lt assms(2,4)]
    show "?post (i\<lparr>direct_blocks := (direct_blocks i)[unat idx := b]\<rparr>) ?v" by auto
  next
    assume ge: "10 \<le> unat idx"
    note set = block_of_set_indirect [OF v ge assms(3) assms(7) [OF ge] assms(6,4,5)]
    have "2 * (unat idx - 10) + 2 \<le> 512" using assms(3) by linarith
    then have "length (overwrite (?v (unat (indirect_block i))) (2 * (unat idx - 10)) (to_le_bytes 2 (ucast b :: u16))) = 512"
      using v assms(6) by simp
    then have "vol (?v(unat (indirect_block i) := overwrite (?v (unat (indirect_block i))) (2 * (unat idx - 10)) (to_le_bytes 2 (ucast b :: u16))))"
      using v by (rule vol_upd [rotated])
    with ge assms(2,3,6) set show "unat (indirect_block i) < 20480 \<and> unat idx < 266 \<and>
      ?post i (?v(unat (indirect_block i) := overwrite (?v (unat (indirect_block i))) (2 * (unat idx - 10)) (to_le_bytes 2 (ucast b :: u16))))"
      by (intro conjI impI allI) (simp_all only: fun_upd_apply if_False)
  qed
  from dwp_run [OF this assms(1)] obtain i' s1 where
    s1: "set_block i d idx b s = Some (i', s1)" "disk_ok d s1" "?post i' (blocks d s1)" by auto
  have "dwp d (get_block i' d idx) (\<lambda>r v'. r = Some b \<and> v' = blocks d s1) (blocks d s1)"
    using s1 assms(6) by (intro get_block_awp) auto
  from dwp_run [OF this s1(2)] s1 show ?thesis by auto
qed

theorem block_pointer_roundtrip_witness:
  "\<exists>i' s1 s2. set_block (inode_at fmt_vol 1) mem_disk 3 40 fmt_state = Some (i', s1) \<and>
    get_block i' mem_disk 3 s1 = Some (Some 40, s2)"
  using block_pointer_roundtrip [OF fmt_ok inode_at_decode(2) [OF fmt_inv(2)], of 1 3 40] fmt_inv(4)
  by (auto simp: on_disk_def inode_blk_def dir_inv_def dir_wf_def)

section \<open>Directories\<close>

text \<open>C32. The encoding of a directory entry is 34 bytes, decoding inverts it, and an entry made by
  \<open>DirEntry::new\<close> from a valid name of at most 28 bytes has that name.\<close>

theorem dir_entry_roundtrip:
  assumes "name_ok n"
  shows "length (entry_to_bytes (entry_new ino n isd)) = 34 \<and>
    entry_from_bytes (entry_to_bytes (entry_new ino n isd)) = Some (entry_new ino n isd) \<and>
    name_str (entry_new ino n isd) = Some n \<and> \<not> is_empty (entry_new ino n isd)"
  using assms name_str_new [of n ino isd] entry_new_not_empty [of n ino isd] de.dec_enc [OF entry_wf_new]
  by (auto simp: name_ok_def)

theorem dir_entry_roundtrip_witness:
  "entry_from_bytes (entry_to_bytes (entry_new 1000 (ascii ''a.c'') False)) = Some (entry_new 1000 (ascii ''a.c'') False)"
  using dir_entry_roundtrip [of "ascii ''a.c''" 1000 False]
  by (simp add: name_ok_def ascii_def utf8_valid.simps)

text \<open>C39. A name longer than 28 bytes is cut: an entry made from it never answers to the full
  name, so the entry cannot be found again under the name it was created with.\<close>

theorem long_name_truncated:
  assumes "28 < length n"
  shows "name_str (entry_new ino n isd) \<noteq> Some n \<and>
    (utf8_valid (take 28 n) \<longrightarrow> name_str (entry_new ino n isd) = Some (take 28 n))"
proof -
  have "name_str (entry_new ino n isd) \<noteq> Some n"
    using assms name_str_length [OF entry_wf_new, of ino n isd n] by auto
  with name_str_new [of n ino isd] show ?thesis by blast
qed

theorem long_name_truncated_witness:
  "name_str (entry_new 1000 (replicate 30 97) False) \<noteq> Some (replicate 30 97)"
  using long_name_truncated [of "replicate 30 97" 1000 False] by simp

text \<open>On a well-formed directory \<open>dir_lookup\<close> lists the entries of all slots in order, and
  \<open>dir_find\<close> returns the first of them that has the name; both leave the disk as it is.\<close>

theorem dir_find_is_first_match:
  assumes "disk_ok d s" "dir_wf (blocks d s) i"
  shows "\<exists>es s1 s2. dir_lookup d i s = Some (es, s1) \<and>
    dir_find d i n s = Some (find (\<lambda>x. name_str (fst x) = Some n) es, s2) \<and>
    blocks d s1 = blocks d s \<and> blocks d s2 = blocks d s"
proof -
  let ?v = "blocks d s"
  have v: "vol ?v" using assms(1) by (rule disk_ok_vol)
  have names: "name_str (fst x) = Some n \<longleftrightarrow> entry_name (fst x) = n" if "x \<in> set (dir_entries ?v i)" for x
    using dir_entry_name [OF v assms(2) that] by simp
  have "dwp d (dir_lookup d i) (\<lambda>r v'. r = dir_entries ?v i \<and> v' = ?v) ?v"
    using v assms(2) by (intro dir_lookup_awp) auto
  from dwp_run [OF this assms(1)] obtain s1 where
    s1: "dir_lookup d i s = Some (dir_entries ?v i, s1)" "blocks d s1 = ?v" by auto
  have "dwp d (dir_find d i n) (\<lambda>r v'. r = find (\<lambda>x. entry_name (fst x) = n) (dir_entries ?v i) \<and> v' = ?v) ?v"
    using v assms(2) by (intro dir_find_awp) auto
  from dwp_run [OF this assms(1)] obtain s2 where
    s2: "dir_find d i n s = Some (find (\<lambda>x. entry_name (fst x) = n) (dir_entries ?v i), s2)" "blocks d s2 = ?v" by auto
  have "find (\<lambda>x. entry_name (fst x) = n) (dir_entries ?v i) = find (\<lambda>x. name_str (fst x) = Some n) (dir_entries ?v i)"
    using names by (intro find_cong) auto
  with s1 s2 show ?thesis by auto
qed

theorem dir_find_is_first_match_witness:
  "\<exists>es s1 s2. dir_lookup mem_disk (inode_at fmt_vol 1) fmt_state = Some (es, s1) \<and>
    dir_find mem_disk (inode_at fmt_vol 1) (ascii ''..'') fmt_state =
      Some (find (\<lambda>x. name_str (fst x) = Some (ascii ''..'')) es, s2)"
  using dir_find_is_first_match [OF fmt_ok dir_inv_facts(2) [OF fmt_inv(4)]] by fast

text \<open>C14. Adding a valid new name to a consistent directory either succeeds, and then searching
  finds the new entry under that name and every other name as before, or fails because the
  disk or the directory is full, and then nothing has changed. Excluded by \<open>dir_room\<close> is that the next
  free block is the one with the directory's own inode.\<close>

theorem dir_add_then_find:
  assumes "disk_ok d s" "dir_inv (blocks d s) sb i" "name_ok n" "dir_map (blocks d s) i n = None"
    "dir_room (blocks d s) i"
  shows "\<exists>r sb' i' s1 hit s2. dir_add_entry d sb i n c isd s = Some ((r, sb', i'), s1) \<and>
    dir_inv (blocks d s1) sb' i' \<and> dir_find d i' m s1 = Some (hit, s2) \<and>
    map_option (\<lambda>(e, _). (entry_inode e, entry_type e)) hit =
      (if m = n \<and> r = Inr () then Some (c, if isd then 2 else 1) else dir_map (blocks d s) i m) \<and>
    (r \<noteq> Inr () \<longrightarrow> blocks d s1 = blocks d s \<and> (free_set (blocks d s) = {} \<or> unat (block_count i) = 10))"
proof -
  from dwp_run [OF dir_add_entry_spec [OF assms(2-5)] assms(1)] obtain r sb' i' s1 where
    add: "dir_add_entry d sb i n c isd s = Some ((r, sb', i'), s1)" "dir_inv (blocks d s1) sb' i'"
      "r \<noteq> Inr () \<longrightarrow> blocks d s1 = blocks d s \<and> (free_set (blocks d s) = {} \<or> unat (block_count i) = 10)"
    by (fastforce split: sum.splits)
  from dwp_run [OF dm.find_after_add [OF assms(2-5)] assms(1), of c isd m] add(1) obtain hit s2 where
    "dir_find d i' m s1 = Some (hit, s2)"
    "map_option (\<lambda>(e, _). (entry_inode e, entry_type e)) hit =
      (if m = n \<and> r = Inr () then Some (c, if isd then 2 else 1) else dir_map (blocks d s) i m)"
    by (auto split: Option.bind_splits)
  with add show ?thesis by blast
qed

theorem dir_add_then_find_witness:
  "\<exists>r sb' i' s1 hit s2. dir_add_entry mem_disk fmt_sb (inode_at fmt_vol 1) (ascii ''a'') 1000 False fmt_state =
      Some ((r, sb', i'), s1) \<and>
    dir_find mem_disk i' (ascii ''a'') s1 = Some (hit, s2) \<and> (r = Inr () \<longrightarrow> hit \<noteq> None)"
proof -
  have "name_ok (ascii ''a'')" by (simp add: name_ok_def ascii_def utf8_valid.simps)
  moreover have "dir_map fmt_vol (inode_at fmt_vol 1) (ascii ''a'') = None"
    by (simp add: fmt_root ascii_def)
  ultimately show ?thesis
    using dir_add_then_find [OF fmt_ok fmt_inv(4) _ _ fmt_root(2), of "ascii ''a''" 1000 False "ascii ''a''"]
    by fastforce
qed

text \<open>Adding a name that the directory already has is refused and changes nothing.\<close>

theorem dir_add_duplicate:
  assumes "disk_ok d s" "dir_inv (blocks d s) sb i" "dir_map (blocks d s) i n \<noteq> None"
  shows "\<exists>s'. dir_add_entry d sb i n c isd s = Some ((Inl ''entry already exists'', sb, i), s') \<and>
    disk_ok d s' \<and> blocks d s' = blocks d s"
  using dwp_run [OF dir_add_entry_dup [OF assms(2,3)] assms(1)] by auto

theorem dir_add_duplicate_witness:
  "\<exists>s'. dir_add_entry mem_disk fmt_sb (inode_at fmt_vol 1) (ascii ''..'') 1000 False fmt_state =
      Some ((Inl ''entry already exists'', fmt_sb, inode_at fmt_vol 1), s')"
  using dir_add_duplicate [OF fmt_ok fmt_inv(4), of "ascii ''..''" 1000 False] by (auto simp: fmt_root)

text \<open>C15. Removing a name that a consistent directory has succeeds; afterwards the name is not found
  and every other name is found as before.\<close>

theorem dir_remove_then_find:
  assumes "disk_ok d s" "dir_inv (blocks d s) sb i" "dir_map (blocks d s) i n \<noteq> None"
  shows "\<exists>i' s1 hit s2. dir_remove_entry d sb i n s = Some ((Inr (), i'), s1) \<and>
    dir_inv (blocks d s1) sb i' \<and> dir_find d i' m s1 = Some (hit, s2) \<and>
    map_option (\<lambda>(e, _). (entry_inode e, entry_type e)) hit =
      (if m = n then None else dir_map (blocks d s) i m)"
proof -
  from dwp_run [OF dir_remove_entry_spec [OF assms(2,3)] assms(1)] obtain i' s1 where
    rm: "dir_remove_entry d sb i n s = Some ((Inr (), i'), s1)" "dir_inv (blocks d s1) sb i'"
    by auto
  from dwp_run [OF dm.find_after_remove [OF assms(2,3)] assms(1), of m] rm(1) obtain hit s2 where
    "dir_find d i' m s1 = Some (hit, s2)"
    "map_option (\<lambda>(e, _). (entry_inode e, entry_type e)) hit = (if m = n then None else dir_map (blocks d s) i m)"
    by (auto split: Option.bind_splits)
  with rm show ?thesis by blast
qed

theorem dir_remove_then_find_witness:
  "\<exists>i' s1 s2. dir_remove_entry mem_disk fmt_sb (inode_at fmt_vol 1) (ascii ''..'') fmt_state = Some ((Inr (), i'), s1) \<and>
    dir_find mem_disk i' (ascii ''..'') s1 = Some (None, s2)"
  using dir_remove_then_find [OF fmt_ok fmt_inv(4), of "ascii ''..''" "ascii ''..''"] by (auto simp: fmt_root)

section \<open>Mounting\<close>

text \<open>C19. Mounting an image that a consistent file system left behind recovers exactly its superblock
  and changes no byte of it, so the state survives a restart.\<close>

theorem mount_recovers:
  assumes "opens_image h path s fd c" "length c = DISK_SIZE" "take 512 c = sb_block sb" "sb_layout sb"
  shows "\<exists>fs s'. fs_mount h path s = Some (fs, s') \<and> fs_sb fs = sb \<and> disk_ok (fs_disk fs) s' \<and>
    disk_image (fs_disk fs) s' = Some c"
proof -
  have sb: "sb_from_bytes (take 512 c) = Some sb" "sb_is_valid sb"
    using assms(3,4) by (simp_all add: sb_block_decode)
  have "magic sb = take 16 (take 512 c)" using sb(1) assms(2) sb_from_bytes_total [of "take 512 c"] by auto
  with sb(2) assms(2) have "usable c" by (simp add: usable_def sb_is_valid_def)
  from mount_keeps [OF assms(1) refl this] sb(1) assms(1,2) show ?thesis
    by (auto simp: disk_ok_def opens_image_def)
qed

theorem mount_recovers_witness:
  "\<exists>fs s'. fs_mount mem_host ''disk.img'' fmt_state = Some (fs, s') \<and> fs_sb fs = fmt_sb"
  using mount_recovers [OF mem_opens [of fmt_state] _ _ fmt_inv(3)]
  by (auto simp: fmt_bytes fmt_sb_block)

text \<open>C29. An image that is cut short but still has its superblock is accepted: \<open>mount\<close> does not look at the
  size, and the first request that needs a block behind the end panics.\<close>

theorem mount_short_image_panics:
  assumes "opens_image h path s fd c" "usable c" "sb_from_bytes (take 512 c) = Some sb"
    "length c < 512 * (unat (fst (inode_block_location sb (ucast ino))) + 1)"
  shows "\<exists>fs s'. fs_mount h path s = Some (fs, s') \<and> fs_getattr fs ino s' = None"
proof -
  from mount_keeps [OF assms(1) refl assms(2)] assms(3) obtain fs s' where
    m: "fs_mount h path s = Some (fs, s')" "disk_image (fs_disk fs) s' = Some c" "fs_sb fs = sb" "disk_host (fs_disk fs) = h"
    by auto
  have "posix_host h" using assms(1) by (simp add: opens_image_def)
  with m assms(4) have "read_block (fs_disk fs) (fst (inode_block_location (fs_sb fs) (ucast ino))) s' = None"
    by (intro read_block_short) auto
  then have "fs_getattr fs ino s' = None" by (simp add: fs_getattr_def read_inode_def split_def)
  with m(1) show ?thesis by blast
qed

theorem mount_short_image_panics_witness:
  "\<exists>fs s'. fs_mount mem_host ''disk.img'' \<lparr>mem_bytes = sb_block fmt_sb, mem_pos = 0\<rparr> = Some (fs, s') \<and>
    fs_getattr fs 1 s' = None"
proof -
  let ?s = "\<lparr>mem_bytes = sb_block fmt_sb, mem_pos = 0\<rparr>"
  have len: "length (sb_block fmt_sb) = 512" using fmt_inv by (simp add: sb_layout_def)
  have sb: "sb_from_bytes (take 512 (sb_block fmt_sb)) = Some fmt_sb" "sb_is_valid fmt_sb"
    using fmt_inv(3) len by (simp_all add: sb_block_decode)
  then have "usable (sb_block fmt_sb)"
    using len sb_from_bytes_total [of "take 512 (sb_block fmt_sb)"] by (auto simp: usable_def sb_is_valid_def)
  moreover have "opens_image mem_host ''disk.img'' ?s 3 (sb_block fmt_sb)" using mem_opens [of ?s] len by simp
  moreover have "unat (fst (inode_block_location fmt_sb (ucast (1 :: u64)))) = 6"
    using fmt_inv(3) by (simp add: inode_block_location_def sb_layout_def)
  ultimately show ?thesis
    using mount_short_image_panics [OF _ _ sb(1), of mem_host "''disk.img''" ?s 3 1] len by simp
qed

end
