(* ===== verification/File_Content.thy ===== *)
theory File_Content
  imports FileSystem
begin

text \<open>
  The contents of a file as a list of bytes, and the loops of \<open>read\<close> and \<open>write\<close> in
  \<open>src/src/fs.rs\<close> that move bytes between that list and the blocks. \<open>file_data\<close> is the
  concatenation of the first 510 bytes of the blocks of the file, \<open>file_contents\<close> its first
  \<open>size\<close> bytes. \<open>file_inv\<close> is the invariant of one file together with the allocator.
\<close>

section \<open>Specification vocabulary\<close>

definition file_blocks :: "volume \<Rightarrow> Inode \<Rightarrow> nat list" where
  "file_blocks v i = map (\<lambda>k. unat (the (block_of v i k))) [0..<unat (block_count i)]"

text \<open>The data blocks with the indirect block, which exists from the eleventh data block on.\<close>

definition file_all :: "volume \<Rightarrow> Inode \<Rightarrow> nat list" where
  "file_all v i = file_blocks v i @ (if 10 < unat (block_count i) then [unat (indirect_block i)] else [])"

definition data_of :: "volume \<Rightarrow> nat list \<Rightarrow> byte list" where
  "data_of v bs = concat (map (\<lambda>b. take 510 (v b)) bs)"

definition file_data :: "volume \<Rightarrow> Inode \<Rightarrow> byte list" where
  "file_data v i = data_of v (file_blocks v i)"

definition file_contents :: "volume \<Rightarrow> Inode \<Rightarrow> byte list" where
  "file_contents v i = take (unat (isize i)) (file_data v i)"

text \<open>
  The blocks of the inode are on the disk, in use, pairwise distinct and not the block that holds
  the inode; the bytes after the end of the file are zero.
\<close>

definition file_wf :: "volume \<Rightarrow> Inode \<Rightarrow> bool" where
  "file_wf v i \<longleftrightarrow> vol v \<and> inode_wf i \<and> on_disk (inode_no i) \<and> unat (block_count i) \<le> 20 \<and>
     (\<forall>k < unat (block_count i). block_of v i k \<noteq> None) \<and>
     (10 < unat (block_count i) \<longleftrightarrow> indirect_block i \<noteq> 0) \<and>
     distinct (file_all v i) \<and>
     (\<forall>b \<in> set (file_all v i). 31 \<le> b \<and> b < 20480 \<and> b \<noteq> inode_blk (inode_no i))"

definition file_inv :: "volume \<Rightarrow> SuperBlock \<Rightarrow> Inode \<Rightarrow> bool" where
  "file_inv v sb i \<longleftrightarrow> alloc_inv v sb \<and> file_wf v i \<and> (\<forall>b \<in> set (file_all v i). allocd v b) \<and>
     unat (isize i) \<le> 510 * unat (block_count i) \<and>
     (\<forall>p. unat (isize i) \<le> p \<and> p < 510 * unat (block_count i) \<longrightarrow> file_data v i ! p = 0)"

text \<open>Reading and writing at a position of a byte list; a gap before the position is filled with zeros.\<close>

definition read_at :: "byte list \<Rightarrow> nat \<Rightarrow> nat \<Rightarrow> byte list" where
  "read_at c off n = take n (drop off c)"

definition write_at :: "byte list \<Rightarrow> nat \<Rightarrow> byte list \<Rightarrow> byte list" where
  "write_at c off bs = overwrite (c @ replicate (off + length bs - length c) 0) off bs"

section \<open>Lemmas: the bytes of a list of blocks\<close>

lemma concat_nth:
  "(\<And>x. x \<in> set xs \<Longrightarrow> length (f x) = m) \<Longrightarrow> p < m * length xs \<Longrightarrow>
   concat (map f xs) ! p = f (xs ! (p div m)) ! (p mod m)"
proof (induction xs arbitrary: p)
  case Nil
  then show ?case by simp
next
  case (Cons x xs)
  then have m: "0 < m" by (cases m) auto
  show ?case
  proof (cases "p < m")
    case True
    with Cons show ?thesis by (simp add: nth_append)
  next
    case False
    then have "p div m = Suc ((p - m) div m)" "p mod m = (p - m) mod m"
      using m by (auto simp: le_div_geq le_mod_geq)
    with False Cons show ?thesis by (simp add: nth_append)
  qed
qed

lemma length_data_of [simp]:
  "vol v \<Longrightarrow> \<forall>b \<in> set bs. b < 20480 \<Longrightarrow> length (data_of v bs) = 510 * length bs"
  by (induction bs) (auto simp: data_of_def)

lemma data_of_nth:
  "vol v \<Longrightarrow> \<forall>b \<in> set bs. b < 20480 \<Longrightarrow> p < 510 * length bs \<Longrightarrow>
   data_of v bs ! p = v (bs ! (p div 510)) ! (p mod 510)"
  unfolding data_of_def by (subst concat_nth [where m = 510]) auto

lemma data_of_slice:
  assumes v: "vol v" and bs: "\<forall>b \<in> set bs. b < 20480" and k: "k < length bs" and n: "off + n \<le> 510"
  shows "take n (drop (510 * k + off) (data_of v bs)) = take n (drop off (v (bs ! k)))"
proof (rule nth_equalityI)
  have le: "510 * k + off + n \<le> 510 * length bs"
  proof -
    have "510 * (k + 1) \<le> 510 * length bs" using k by (intro mult_le_mono2) simp
    with n show ?thesis by simp
  qed
  have len: "length (v (bs ! k)) = 512" using v bs k by simp
  show "length (take n (drop (510 * k + off) (data_of v bs))) = length (take n (drop off (v (bs ! k))))"
    using le len n v bs by simp
  fix p assume "p < length (take n (drop (510 * k + off) (data_of v bs)))"
  then have p: "p < n" by simp
  then have "(510 * k + off + p) div 510 = k" "(510 * k + off + p) mod 510 = off + p"
    using n by (simp_all add: div_nat_eqI add.assoc)
  with p le len n v bs show "take n (drop (510 * k + off) (data_of v bs)) ! p = take n (drop off (v (bs ! k))) ! p"
    by (simp add: data_of_nth)
qed

lemma data_of_change:
  assumes v: "vol v" and bs: "\<forall>b \<in> set bs. b < 20480" "distinct bs" and k: "k < length bs"
    and n: "off + length part \<le> 510"
  shows "data_of (v(bs ! k := overwrite (v (bs ! k)) off part)) bs = overwrite (data_of v bs) (510 * k + off) part"
proof (rule nth_equalityI)
  let ?v' = "v(bs ! k := overwrite (v (bs ! k)) off part)"
  have len: "length (v (bs ! k)) = 512" using v bs k by simp
  with n v have v': "vol ?v'" by simp
  have le: "510 * k + off + length part \<le> 510 * length bs"
  proof -
    have "510 * (k + 1) \<le> 510 * length bs" using k by (intro mult_le_mono2) simp
    with n show ?thesis by simp
  qed
  show "length (data_of ?v' bs) = length (overwrite (data_of v bs) (510 * k + off) part)"
    using v v' bs le by simp
  fix p assume "p < length (data_of ?v' bs)"
  then have p: "p < 510 * length bs" using v' bs by simp
  have lhs: "data_of ?v' bs ! p = ?v' (bs ! (p div 510)) ! (p mod 510)"
    using v' bs p by (simp add: data_of_nth)
  have rhs: "overwrite (data_of v bs) (510 * k + off) part ! p =
      (if 510 * k + off \<le> p \<and> p < 510 * k + off + length part then part ! (p - (510 * k + off))
       else v (bs ! (p div 510)) ! (p mod 510))"
    using v bs p le by (simp add: nth_splice data_of_nth)
  have pk: "p div 510 < length bs" using p by (simp add: less_mult_imp_div_less mult.commute)
  have split: "p = 510 * (p div 510) + p mod 510" "p mod 510 < 510" by simp_all
  show "data_of ?v' bs ! p = overwrite (data_of v bs) (510 * k + off) part ! p"
  proof (cases "p div 510 = k")
    case True
    then have "510 * k + off \<le> p \<longleftrightarrow> off \<le> p mod 510"
        "p < 510 * k + off + length part \<longleftrightarrow> p mod 510 < off + length part"
        "p - (510 * k + off) = p mod 510 - off"
      using split by linarith+
    moreover have "p mod 510 < 512" using split(2) by simp
    ultimately show ?thesis
      unfolding lhs rhs using True len n by (simp add: nth_splice)
  next
    case False
    then have ne: "bs ! (p div 510) \<noteq> bs ! k" using bs(2) k pk by (simp add: nth_eq_iff_index_eq)
    have "\<not> (510 * k + off \<le> p \<and> p < 510 * k + off + length part)"
    proof
      assume "510 * k + off \<le> p \<and> p < 510 * k + off + length part"
      then have "510 * k \<le> p" "p < 510 * k + 510" using n by linarith+
      then have "p div 510 = k" by (simp add: div_nat_eqI)
      with False show False by simp
    qed
    with ne show ?thesis unfolding lhs rhs by auto
  qed
qed

lemma data_of_cong: "(\<And>b. b \<in> set bs \<Longrightarrow> v' b = v b) \<Longrightarrow> data_of v' bs = data_of v bs"
  by (auto simp: data_of_def intro!: arg_cong [of _ _ concat])

lemma data_of_append [simp]: "data_of v (as @ bs) = data_of v as @ data_of v bs"
  by (simp add: data_of_def)

lemma splice_nil [simp]: "overwrite xs p [] = xs"
  by (simp add: overwrite_def)

lemma splice_splice:
  "p + length a + length b \<le> length xs \<Longrightarrow> overwrite (overwrite xs p a) (p + length a) b = overwrite xs p (a @ b)"
  by (simp add: overwrite_def ac_simps)

section \<open>Lemmas: the blocks of a file\<close>

lemma file_wf_facts:
  assumes "file_wf v i"
  shows "vol v" "inode_wf i" "on_disk (inode_no i)" "unat (block_count i) \<le> 20"
    "length (file_blocks v i) = unat (block_count i)" "distinct (file_blocks v i)"
    "\<forall>b \<in> set (file_blocks v i). b < 20480" "unat (indirect_block i) < 20480"
    "length (file_data v i) = 510 * unat (block_count i)"
proof -
  show "vol v" "inode_wf i" "on_disk (inode_no i)" "unat (block_count i) \<le> 20"
      "length (file_blocks v i) = unat (block_count i)" "distinct (file_blocks v i)"
      and bs: "\<forall>b \<in> set (file_blocks v i). b < 20480"
    using assms by (auto simp: file_wf_def file_blocks_def file_all_def)
  show "unat (indirect_block i) < 20480"
    using assms by (cases "indirect_block i = 0") (auto simp: file_wf_def file_all_def)
  show "length (file_data v i) = 510 * unat (block_count i)"
    using assms bs by (simp add: file_data_def file_wf_def file_blocks_def)
qed

lemma file_block_of:
  assumes "file_wf v i" "k < unat (block_count i)"
  obtains b where "block_of v i k = Some b" "file_blocks v i ! k = unat b" "31 \<le> unat b" "unat b < 20480"
    "unat b \<in> set (file_blocks v i)"
proof -
  obtain b where b: "block_of v i k = Some b" using assms by (auto simp: file_wf_def)
  then have nth: "file_blocks v i ! k = unat b" using assms(2) by (simp add: file_blocks_def)
  moreover have mem: "unat b \<in> set (file_blocks v i)"
    using nth assms(2) by (metis file_wf_facts(5) [OF assms(1)] nth_mem)
  ultimately show ?thesis using that [OF b] assms(1) by (auto simp: file_wf_def file_all_def)
qed

lemma file_get_block_awp:
  assumes "file_wf v i" "unat idx < unat (block_count i)"
    and "\<And>b. file_blocks v i ! unat idx = unat b \<Longrightarrow> unat b < 20480 \<Longrightarrow> unat b \<in> set (file_blocks v i) \<Longrightarrow> Q (Some b) v"
  shows "dwp d (get_block i d idx) Q v"
proof -
  obtain b where "block_of v i (unat idx) = Some b" "file_blocks v i ! unat idx = unat b" "unat b < 20480"
      "unat b \<in> set (file_blocks v i)"
    using file_block_of [OF assms(1,2)] .
  with assms file_wf_facts [OF assms(1)] show ?thesis by (intro get_block_awp) auto
qed

lemma file_blocks_cong:
  assumes "indirect_block i \<noteq> 0 \<longrightarrow> v' (unat (indirect_block i)) = v (unat (indirect_block i))"
  shows "block_of v' i = block_of v i" "file_blocks v' i = file_blocks v i" "file_all v' i = file_all v i"
proof -
  show b: "block_of v' i = block_of v i" using assms by (auto simp: block_of_def fun_eq_iff Let_def)
  then show "file_blocks v' i = file_blocks v i" by (simp add: file_blocks_def)
  then show "file_all v' i = file_all v i" by (simp add: file_all_def)
qed

text \<open>Changing the bytes of a data block of the file keeps the file well formed.\<close>

lemma file_wf_upd:
  assumes "file_wf v i" "b \<in> set (file_blocks v i)" "length buf = 512"
  shows "file_wf (v(b := buf)) i" "file_blocks (v(b := buf)) i = file_blocks v i" "file_all (v(b := buf)) i = file_all v i"
proof -
  have ne: "indirect_block i \<noteq> 0 \<longrightarrow> (v(b := buf)) (unat (indirect_block i)) = v (unat (indirect_block i))"
    using assms(1,2) by (auto simp: file_wf_def file_all_def)
  note cong = file_blocks_cong [of i "v(b := buf)" v, OF ne]
  show "file_blocks (v(b := buf)) i = file_blocks v i" "file_all (v(b := buf)) i = file_all v i"
    by (rule cong)+
  with cong(1) assms show "file_wf (v(b := buf)) i" by (simp add: file_wf_def)
qed

section \<open>Lemmas: reading\<close>

lemma unat_inc_small: "unat (k :: u32) < 20 \<Longrightarrow> unat (k + 1) = unat k + 1"
  using unat_inc [of k 20] by (simp add: word_less_nat_alt)

text \<open>One round of the data loops: it starts in a block of the file and leaves the rest to the next one.\<close>

lemma loop_round:
  fixes off n k c :: nat
  assumes "off < 510" "n \<noteq> 0" "510 * k + off + n \<le> 510 * c"
  shows "k < c" "510 * (k + 1) + (n - min n (510 - off)) \<le> 510 * c"
proof -
  have "510 * k < 510 * c" using assms(2,3) by linarith
  then show k: "k < c" by simp
  show "510 * (k + 1) + (n - min n (510 - off)) \<le> 510 * c"
  proof (cases "n \<le> 510 - off")
    case True
    from k have "510 * (k + 1) \<le> 510 * c" by (intro mult_le_mono2) simp
    with True show ?thesis by simp
  qed (use assms in simp)
qed

lemma take_round:
  assumes "off < 510"
  shows "take (min n (510 - off)) (drop (510 * k + off) D) @ take (n - min n (510 - off)) (drop (510 * (k + 1)) D)
    = take n (drop (510 * k + off) D)"
proof (cases "n \<le> 510 - off")
  case False
  let ?c = "min n (510 - off)"
  have "510 * (k + 1) = ?c + (510 * k + off)" "n = ?c + (n - ?c)" using False assms by auto
  then show ?thesis by (metis drop_drop take_add)
qed simp

lemma read_loop_awp:
  assumes "file_wf v i" "off < 510" "510 * unat k + off + n \<le> 510 * unat (block_count i)" "n \<le> fuel"
    and "Q (acc @ take n (drop (510 * unat k + off) (file_data v i))) v"
  shows "dwp d (read_loop fuel d i n k off acc) Q v"
  using assms(2-5)
proof (induction fuel arbitrary: n k off acc)
  case 0
  then show ?case by (auto intro!: awp_rules)
next
  case (Suc fuel)
  note wf = file_wf_facts [OF assms(1)]
  show ?case
  proof (cases "n = 0")
    case True
    with Suc.prems show ?thesis by (auto intro!: awp_rules)
  next
    case False
    let ?c = "min n (510 - off)"
    note r = loop_round [OF Suc.prems(1) False Suc.prems(2)]
    have k: "unat k < unat (block_count i)" by (rule r(1))
    with wf(4) have k1: "unat (k + 1) = unat k + 1" by (intro unat_inc_small) simp
    show ?thesis
      unfolding ext [OF read_loop.simps(2)]
    proof (simp add: False, intro awp_bind file_get_block_awp [OF assms(1) k], simp, intro awp_bind read_block_awp, simp, goal_cases)
      case (1 b)
      have len: "length (v (unat b)) = 512" using 1 wf(1) by simp
      have slice: "take ?c (drop off (v (unat b))) = take ?c (drop (510 * unat k + off) (file_data v i))"
        using data_of_slice [OF wf(1) wf(7), of "unat k" off ?c] k wf(5) 1(1) Suc.prems(1)
        by (simp add: file_data_def)
      have "dwp d (read_loop fuel d i (n - ?c) (k + 1) 0 (acc @ take ?c (drop off (v (unat b))))) Q v"
      proof (rule Suc.IH)
        show "510 * unat (k + 1) + 0 + (n - ?c) \<le> 510 * unat (block_count i)" using r(2) by (simp add: k1)
        show "Q ((acc @ take ?c (drop off (v (unat b)))) @ take (n - ?c) (drop (510 * unat (k + 1) + 0) (file_data v i))) v"
          using Suc.prems(4) slice take_round [OF Suc.prems(1), of n "unat k" "file_data v i"] by (simp add: k1)
      qed (use Suc.prems False in auto)
      moreover have "off + ?c \<le> 512" using Suc.prems(1) by auto
      ultimately show ?case using len by (simp add: slice_range_def Let_def)
    qed
  qed
qed

section \<open>Lemmas: writing within the blocks of a file\<close>

text \<open>What the data loop of \<open>write\<close> does to the volume: the bytes of the file change, nothing else.\<close>

definition data_post :: "volume \<Rightarrow> Inode \<Rightarrow> nat \<Rightarrow> byte list \<Rightarrow> volume \<Rightarrow> bool" where
  "data_post v i pos bs v' \<longleftrightarrow> file_wf v' i \<and> file_blocks v' i = file_blocks v i \<and> file_all v' i = file_all v i \<and>
     (\<forall>b. b \<notin> set (file_blocks v i) \<longrightarrow> v' b = v b) \<and> file_data v' i = overwrite (file_data v i) pos bs"

lemma data_post_nil: "file_wf v i \<Longrightarrow> data_post v i pos [] v"
  by (simp add: data_post_def)

lemma data_post_step:
  assumes wf: "file_wf v i" and k: "k < unat (block_count i)" and b: "file_blocks v i ! k = b"
    and n: "off + length part \<le> 510" "510 * k + off + length part + length rest \<le> 510 * unat (block_count i)"
    and post: "data_post (v(b := overwrite (v b) off part)) i (510 * k + off + length part) rest v'"
  shows "data_post v i (510 * k + off) (part @ rest) v'"
proof -
  note f = file_wf_facts [OF wf]
  have mem: "b \<in> set (file_blocks v i)" using b k f(5) by (metis nth_mem)
  then have "length (v b) = 512" using f(1,7) by simp
  then have "length (overwrite (v b) off part) = 512" using n(1) by simp
  note upd = file_wf_upd [OF wf mem this]
  have "file_data (v(b := overwrite (v b) off part)) i = overwrite (file_data v i) (510 * k + off) part"
    using data_of_change [OF f(1) f(7) f(6), of k off part] k b n(1) f(5) upd(2) by (simp add: file_data_def)
  moreover have "overwrite (overwrite (file_data v i) (510 * k + off) part) (510 * k + off + length part) rest =
      overwrite (file_data v i) (510 * k + off) (part @ rest)"
    using n(2) f(9) by (intro splice_splice) simp
  ultimately show ?thesis using post upd mem by (auto simp: data_post_def)
qed

text \<open>One round and the rest: the round ends within its block, or at the end of it.\<close>

lemma data_post_round:
  fixes k :: u32 and n off pos :: nat and bs :: "byte list"
  defines "c \<equiv> min n (510 - off)"
  assumes wf: "file_wf v i" and k: "unat k < unat (block_count i)" "unat (k + 1) = unat k + 1" and off: "off < 510"
    and n: "pos + n = length bs" and b: "file_blocks v i ! unat k = b"
    and fits: "510 * unat k + off + n \<le> 510 * unat (block_count i)"
    and post: "data_post (v(b := overwrite (v b) off (take c (drop pos bs)))) i (510 * unat (k + 1)) (drop (pos + c) bs) v'"
  shows "data_post v i (510 * unat k + off) (drop pos bs) v'"
proof -
  let ?part = "take c (drop pos bs)"
  let ?v1 = "v(b := overwrite (v b) off ?part)"
  have c: "length ?part = c" "off + c \<le> 510" using off n by (auto simp: c_def)
  have "data_post v i (510 * unat k + off) (?part @ drop (pos + c) bs) v'"
  proof (rule data_post_step [OF wf k(1) b])
    show "data_post ?v1 i (510 * unat k + off + length ?part) (drop (pos + c) bs) v'"
    proof (cases "n \<le> 510 - off")
      case True
      with n have "drop (pos + c) bs = []" by (simp add: c_def)
      with post show ?thesis by (simp add: data_post_def)
    next
      case False
      with c off n have "510 * unat k + off + length ?part = 510 * unat (k + 1)" by (simp add: k(2) c_def)
      with post show ?thesis by (simp only:)
    qed
  qed (use c n fits in auto)
  moreover have "drop pos bs = ?part @ drop (pos + c) bs" by (metis append_take_drop_id drop_drop add.commute)
  ultimately show ?thesis by simp
qed

lemma write_loop_awp:
  assumes "file_wf v i" "off < 510" "pos + n = length bs" "510 * unat k + off + n \<le> 510 * unat (block_count i)" "n \<le> fuel"
    and "\<And>v'. data_post v i (510 * unat k + off) (drop pos bs) v' \<Longrightarrow> Q () v'"
  shows "dwp d (write_loop fuel d i bs n k off pos) Q v"
  using assms
proof (induction fuel arbitrary: n k off pos v)
  case 0
  then show ?case by (auto intro!: awp_rules data_post_nil simp: file_wf_facts(9))
next
  case (Suc fuel)
  note wf = file_wf_facts [OF Suc.prems(1)]
  show ?case
  proof (cases "n = 0")
    case True
    with Suc.prems(3,6) data_post_nil [OF Suc.prems(1)] show ?thesis by (auto intro!: awp_rules)
  next
    case False
    let ?c = "min n (510 - off)"
    let ?part = "take ?c (drop pos bs)"
    have c: "length ?part = ?c" "off + ?c \<le> 510" using Suc.prems(2,3) by auto
    note r = loop_round [OF Suc.prems(2) False Suc.prems(4)]
    have k: "unat k < unat (block_count i)" by (rule r(1))
    with wf(4) have k1: "unat (k + 1) = unat k + 1" by (intro unat_inc_small) simp
    show ?thesis
      unfolding ext [OF write_loop.simps(2)]
    proof (simp add: False, intro awp_bind file_get_block_awp [OF Suc.prems(1) k], simp, intro awp_bind read_block_awp, simp, goal_cases)
      case (1 b)
      have len: "length (v (unat b)) = 512" using 1 wf(1) by simp
      let ?v1 = "v(unat b := overwrite (v (unat b)) off ?part)"
      have "length (overwrite (v (unat b)) off ?part) = 512" using len c by simp
      note upd = file_wf_upd [OF Suc.prems(1) 1(3) this]
      have "dwp d (write_loop fuel d i bs (n - ?c) (k + 1) 0 (pos + ?c)) Q ?v1"
      proof (rule Suc.IH [OF upd(1)])
        show "510 * unat (k + 1) + 0 + (n - ?c) \<le> 510 * unat (block_count i)" using r(2) by (simp add: k1)
        fix v' assume "data_post ?v1 i (510 * unat (k + 1) + 0) (drop (pos + ?c) bs) v'"
        then show "Q () v'"
          using data_post_round [OF Suc.prems(1) k k1 Suc.prems(2,3) 1(1) Suc.prems(4)] Suc.prems(6) by simp
      qed (use Suc.prems False in auto)
      with 1 len c Suc.prems(2,3) show ?case
        by (auto simp: slice_range_def Let_def intro!: awp_rules)
    qed
  qed
qed

section \<open>Lemmas: growing a file\<close>

text \<open>How many free blocks lie below \<open>L\<close>: allocation takes the lowest ones.\<close>

definition room :: "volume \<Rightarrow> nat \<Rightarrow> nat" where
  "room v L = card {x. x < L \<and> \<not> allocd v x}"

text \<open>
  Growing takes free blocks below \<open>L\<close>; that of the file's own inode is not among them if it lies
  above, or if the bitmap reports it used.
\<close>

definition keeps_ino :: "volume \<Rightarrow> nat \<Rightarrow> u32 \<Rightarrow> bool" where
  "keeps_ino v L n \<longleftrightarrow> L \<le> inode_blk n \<or> allocd v (inode_blk n)"

lemma keeps_inoD: "keeps_ino v L n \<Longrightarrow> b < L \<Longrightarrow> \<not> allocd v b \<Longrightarrow> b \<noteq> inode_blk n"
  by (auto simp: keeps_ino_def)

lemma room_all: "room v 20480 = card (free_set v)"
  by (simp add: room_def free_set_def)

text \<open>
  A file \<open>i\<close> that has grown by \<open>m\<close> blocks taken below \<open>L\<close> into \<open>i'\<close>: the new bytes are zero,
  the old ones are kept, and the only blocks changed belong to the file.
\<close>

definition grown :: "volume \<Rightarrow> Inode \<Rightarrow> nat \<Rightarrow> nat \<Rightarrow> volume \<Rightarrow> SuperBlock \<Rightarrow> Inode \<Rightarrow> bool" where
  "grown v i m L v' sb' i' \<longleftrightarrow> file_inv v' sb' i' \<and>
     i' = i\<lparr>direct_blocks := direct_blocks i', indirect_block := indirect_block i', block_count := block_count i + of_nat m\<rparr> \<and>
     file_data v' i' = file_data v i @ replicate (510 * m) 0 \<and>
     (\<forall>x \<ge> 6. x \<notin> set (file_all v' i') \<longrightarrow> v' x = v x) \<and>
     (\<forall>x < 20480. allocd v' x \<longleftrightarrow> allocd v x \<or> x \<in> set (file_all v' i')) \<and>
     set (file_all v i) \<subseteq> set (file_all v' i') \<and>
     (\<forall>x \<in> set (file_all v' i') - set (file_all v i). x < L \<and> \<not> allocd v x \<and> (\<forall>y < x. allocd v' y)) \<and>
     (\<exists>bs. file_blocks v' i' = file_blocks v i @ bs)"

lemma file_inv_facts:
  assumes "file_inv v sb i"
  shows "alloc_inv v sb" "file_wf v i" "\<forall>b \<in> set (file_all v i). allocd v b \<and> 31 \<le> b \<and> b < 20480"
  using assms by (auto simp: file_inv_def file_wf_def)

lemma grown_inv: "grown v i m L v' sb' i' \<Longrightarrow> file_inv v' sb' i'"
  by (simp only: grown_def)

lemma grown_fields:
  assumes "grown v i m L v' sb' i'"
  shows "inode_no i' = inode_no i" "isize i' = isize i" "mode i' = mode i" "nlink i' = nlink i"
    "block_count i' = block_count i + of_nat m" "meta_of i' = (meta_of i)\<lparr>m_blocks := block_count i + of_nat m\<rparr>"
proof -
  from assms have "i' = i\<lparr>direct_blocks := direct_blocks i', indirect_block := indirect_block i', block_count := block_count i + of_nat m\<rparr>"
    by (simp only: grown_def)
  from arg_cong [OF this, of inode_no] arg_cong [OF this, of isize] arg_cong [OF this, of mode]
    arg_cong [OF this, of nlink] arg_cong [OF this, of block_count] arg_cong [OF this, of uid] arg_cong [OF this, of gid]
  show "inode_no i' = inode_no i" "isize i' = isize i" "mode i' = mode i" "nlink i' = nlink i"
      "block_count i' = block_count i + of_nat m" "meta_of i' = (meta_of i)\<lparr>m_blocks := block_count i + of_nat m\<rparr>"
    by (simp_all add: meta_of_def)
qed

lemma grown_keeps_ino:
  assumes "grown v i m L v' sb' i'" "keeps_ino v L (inode_no i)"
  shows "keeps_ino v' L (inode_no i')"
proof -
  have "inode_blk (inode_no i) < 20480"
    using assms(1) grown_fields(1) [OF assms(1)] by (simp add: grown_def file_inv_def file_wf_def on_disk_def)
  with assms grown_fields(1) [OF assms(1)] show ?thesis by (auto simp: keeps_ino_def grown_def)
qed

lemma grown_new:
  assumes "grown v i m L v' sb' i'" "x \<in> set (file_all v' i')" "x \<notin> set (file_all v i)"
  shows "x < L \<and> \<not> allocd v x \<and> (\<forall>y < x. allocd v' y)"
proof -
  have "\<forall>x \<in> set (file_all v' i') - set (file_all v i). x < L \<and> \<not> allocd v x \<and> (\<forall>y < x. allocd v' y)"
    using assms(1) unfolding grown_def by (elim conjE)
  with assms(2,3) show ?thesis by blast
qed

lemma grown_refl: "file_inv v sb i \<Longrightarrow> grown v i 0 L v sb i"
  by (auto simp: grown_def file_inv_def)

lemma grown_trans:
  assumes "grown v i m L v1 sb1 i1" "grown v1 i1 n L v2 sb2 i2"
  shows "grown v i (m + n) L v2 sb2 i2"
proof -
  have all2: "x < 20480" if "x \<in> set (file_all v2 i2)" for x
    using that assms(2) file_inv_facts(3) [of v2 sb2 i2] by (auto simp: grown_def)
  have i1: "i1 = i\<lparr>direct_blocks := direct_blocks i1, indirect_block := indirect_block i1, block_count := block_count i + of_nat m\<rparr>"
    using assms(1) by (simp add: grown_def)
  have i2: "i2 = i1\<lparr>direct_blocks := direct_blocks i2, indirect_block := indirect_block i2, block_count := block_count i1 + of_nat n\<rparr>"
    using assms(2) by (simp add: grown_def)
  have bc: "block_count i1 = block_count i + of_nat m" by (subst i1) simp
  have "i2 = i\<lparr>direct_blocks := direct_blocks i2, indirect_block := indirect_block i2, block_count := block_count i + of_nat (m + n)\<rparr>"
    by (subst i2, subst i1) (simp add: bc add.assoc)
  moreover have "x < L \<and> \<not> allocd v x \<and> (\<forall>y < x. allocd v2 y)"
    if x: "x \<in> set (file_all v2 i2) - set (file_all v i)" for x
  proof -
    have al: "allocd v1 y \<longleftrightarrow> allocd v y \<or> y \<in> set (file_all v1 i1)"
        "allocd v2 y \<longleftrightarrow> allocd v1 y \<or> y \<in> set (file_all v2 i2)" if "y < 20480" for y
      using assms that by (simp_all add: grown_def)
    note new = grown_new [OF assms(1), of x] grown_new [OF assms(2), of x]
    have x20: "x < 20480" using x all2 by simp
    show ?thesis
    proof (cases "x \<in> set (file_all v1 i1)")
      case True
      with new(1) x have n: "x < L" "\<not> allocd v x" "\<And>y. y < x \<Longrightarrow> allocd v1 y" by auto
      show ?thesis
      proof (intro conjI allI impI n(1,2))
        show "allocd v2 y" if "y < x" for y using n(3) [OF that] al(2) [of y] that x20 by simp
      qed
    next
      case False
      with new(2) x have "x < L" "\<not> allocd v1 x" "\<And>y. y < x \<Longrightarrow> allocd v2 y" by auto
      with al(1) [of x] x20 show ?thesis by simp
    qed
  qed
  ultimately show ?thesis
    using assms all2 by (auto simp: grown_def replicate_add [symmetric] distrib_left)
qed

text \<open>
  The blocks of a file with a new last block \<open>b\<close>, which at index 10 also brings a block of pointers.
\<close>

lemma grown_blocks:
  fixes i :: Inode and b :: nat
  defines "c \<equiv> unat (block_count i)"
  assumes inv: "file_inv v sb i" and bc: "unat (block_count i') = c + 1" and b: "b < 20480" "\<not> allocd v b"
    and ind: "indirect_block i' = ind" "c \<noteq> 10 \<Longrightarrow> ind = indirect_block i" "c = 10 \<Longrightarrow> \<not> allocd v (unat ind) \<and> unat ind \<noteq> b"
    and bl: "\<And>k. k \<le> c \<Longrightarrow> block_of v' i' k = (if k = c then Some (of_nat b) else block_of v i k)"
  shows "file_blocks v' i' = file_blocks v i @ [b]"
    "set (file_all v' i') = set (file_all v i) \<union> {b} \<union> (if c = 10 then {unat ind} else {})"
    "10 \<le> c \<Longrightarrow> unat ind \<notin> set (file_blocks v i)" "distinct (file_all v' i')"
proof -
  note f = file_inv_facts [OF inv]
  have ub: "unat (of_nat b :: u32) = b" using b(1) by (simp add: unat_of_nat)
  show bs: "file_blocks v' i' = file_blocks v i @ [b]"
    using bl ub by (simp add: file_blocks_def bc c_def cong: map_cong)
  show "set (file_all v' i') = set (file_all v i) \<union> {b} \<union> (if c = 10 then {unat ind} else {})"
    using ind(2) by (auto simp: file_all_def bs bc c_def ind(1))
  have ne: "b \<noteq> unat ind" if "10 \<le> c"
  proof (cases "c = 10")
    case False
    with that have "unat ind \<in> set (file_all v i)" using ind(2) by (simp add: file_all_def c_def)
    with f(3) b(2) show ?thesis by auto
  qed (use ind(3) in auto)
  show ptr: "unat ind \<notin> set (file_blocks v i)" if "10 \<le> c"
    using that f(2,3) ind(2,3) by (cases "c = 10") (auto simp: file_all_def c_def file_wf_def)
  show "distinct (file_all v' i')"
    using f(2,3) b(2) ne ptr by (auto simp: file_wf_def file_all_def bs bc c_def ind(1))
qed

lemma grownI:
  fixes i :: Inode and b :: nat
  defines "c \<equiv> unat (block_count i)"
  assumes inv: "file_inv v sb i" and c: "c < 20" and inv': "alloc_inv v' sb'"
    and i': "i' = i\<lparr>direct_blocks := ds, indirect_block := ind, block_count := block_count i + 1\<rparr>" "length ds = 10"
    and ind: "10 \<le> c \<longleftrightarrow> ind \<noteq> 0" "c \<noteq> 10 \<Longrightarrow> ind = indirect_block i"
      "c = 10 \<Longrightarrow> 31 \<le> unat ind \<and> unat ind < L \<and> \<not> allocd v (unat ind) \<and> unat ind \<noteq> b \<and>
        (\<forall>y < unat ind. y \<noteq> b \<longrightarrow> allocd v y)"
    and bl: "\<And>k. k \<le> c \<Longrightarrow> block_of v' i' k = (if k = c then Some (of_nat b) else block_of v i k)"
    and b: "31 \<le> b" "b < L" "\<not> allocd v b" "\<forall>y < b. allocd v y" and L: "L \<le> 20480" "keeps_ino v L (inode_no i)"
    and frame: "\<And>x. 6 \<le> x \<Longrightarrow> x \<noteq> b \<Longrightarrow> c < 10 \<or> x \<noteq> unat ind \<Longrightarrow> v' x = v x"
    and zero: "v' b = replicate 512 0"
    and al: "\<And>x. x < 20480 \<Longrightarrow> allocd v' x \<longleftrightarrow> allocd v x \<or> x = b \<or> c = 10 \<and> x = unat ind"
  shows "grown v i 1 L v' sb' i'"
proof -
  note f = file_inv_facts [OF inv]
  note w = file_wf_facts [OF f(2)]
  have bc: "unat (block_count i') = c + 1" "unat (block_count i + 1) = c + 1"
    using c i'(1) unat_inc [of "block_count i" 20] by (simp_all add: c_def word_less_nat_alt)
  have sel: "indirect_block i' = ind" "inode_no i' = inode_no i" "isize i' = isize i" "inode_wf i'"
    using i' by (simp_all add: inode_wf_def)
  have b': "b < 20480" using b(2) L(1) by simp
  note g = grown_blocks [OF inv, folded c_def, OF bc(1) b' b(3) sel(1) ind(2) _ bl]
  have bs: "file_blocks v' i' = file_blocks v i @ [b]" and ptr: "10 \<le> c \<Longrightarrow> unat ind \<notin> set (file_blocks v i)"
    and all: "set (file_all v' i') = set (file_all v i) \<union> {b} \<union> (if c = 10 then {unat ind} else {})"
    and dist: "distinct (file_all v' i')" using g ind(3) by auto
  have old: "v' x = v x" if "x \<in> set (file_blocks v i)" for x
  proof (rule frame)
    have "allocd v x" "31 \<le> x" using that f(3) by (simp_all add: file_all_def)
    with b(3) show "6 \<le> x" "x \<noteq> b" by auto
    show "c < 10 \<or> x \<noteq> unat ind" using that ptr by (cases "c < 10") auto
  qed
  have data: "file_data v' i' = file_data v i @ replicate 510 0"
    using data_of_cong [of "file_blocks v i" v' v] old by (simp add: file_data_def bs data_of_def zero)
  have range: "31 \<le> x \<and> x < 20480 \<and> x \<noteq> inode_blk (inode_no i')" if "x \<in> set (file_all v' i')" for x
    using that f(2) b L(1) ind(3) keeps_inoD [OF L(2)] by (auto simp: all sel file_wf_def split: if_splits)
  have "\<forall>k < c. block_of v i k \<noteq> None" using f(2) by (simp add: file_wf_def c_def)
  then have wf: "file_wf v' i'"
    using inv' w c dist range bl ind(1) by (auto simp: file_wf_def bc alloc_inv_def sel c_def)
  have alset: "\<forall>x < 20480. allocd v' x \<longleftrightarrow> allocd v x \<or> x \<in> set (file_all v' i')"
    using al f(3) by (auto simp: all)
  have "file_inv v' sb' i'"
    using inv inv' wf data w(9) alset range
    by (auto simp: file_inv_def bc c_def sel nth_append split: if_splits)
  moreover have "i' = i\<lparr>direct_blocks := direct_blocks i', indirect_block := indirect_block i', block_count := block_count i + of_nat 1\<rparr>"
    unfolding i'(1) by simp
  moreover have "\<forall>x \<ge> 6. x \<notin> set (file_all v' i') \<longrightarrow> v' x = v x"
    using frame by (auto simp: file_all_def bs bc sel)
  moreover have "x < L \<and> \<not> allocd v x \<and> (\<forall>y < x. allocd v' y)"
    if x: "x \<in> set (file_all v' i') - set (file_all v i)" for x
  proof -
    have "x = b \<or> c = 10 \<and> x = unat ind" using x by (auto simp: all split: if_splits)
    then have "x < L" "\<not> allocd v x" "\<And>y. y < x \<Longrightarrow> allocd v y \<or> y = b" using b ind(3) by auto
    with al L(1) show ?thesis by (meson less_le_trans less_trans)
  qed
  ultimately show ?thesis
    using data alset by (auto simp: grown_def all bs)
qed

lemma indirect_entry:
  assumes "length B = 512" "j < 250" "m < 250" "unat b < 65536"
  shows "(ucast (from_le_bytes (take 2 (drop (2 * m) (overwrite B (2 * j) (to_le_bytes 2 (ucast b :: u16))))) :: u16) :: u32) =
    (if m = j then b else ucast (from_le_bytes (take 2 (drop (2 * m) B)) :: u16))"
proof (cases "m = j")
  case True
  with assms show ?thesis using overwrite_pair [of "2 * j" B "ucast b"] by (simp add: u16_u32_u16)
next
  case False
  then have "take 2 (drop (2 * m) (overwrite B (2 * j) (to_le_bytes 2 (ucast b :: u16)))) = take 2 (drop (2 * m) B)"
    using assms by (intro splice_other) auto
  with False show ?thesis by simp
qed

text \<open>The three ways in which \<open>write\<close> enters the new block \<open>b\<close> into the inode.\<close>

lemma block_of_attach_direct:
  assumes "inode_wf i" "k \<le> c" "c < 10" "b \<noteq> 0"
  shows "block_of v' (i\<lparr>direct_blocks := (direct_blocks i)[c := b], indirect_block := ind, block_count := n\<rparr>) k =
    (if k = c then Some b else block_of v i k)"
  using assms by (simp add: block_of_def inode_wf_def)

lemma block_of_attach_indirect:
  assumes "k \<le> c" "10 \<le> c" "c < 20" "b \<noteq> 0" "unat b < 65536" "ind \<noteq> 0" "length B = 512"
    and "c \<noteq> 10 \<Longrightarrow> ind = indirect_block i \<and> B = v (unat ind)"
    and "v' (unat ind) = overwrite B (2 * (c - 10)) (to_le_bytes 2 (ucast b :: u16))"
  shows "block_of v' (i\<lparr>direct_blocks := direct_blocks i, indirect_block := ind, block_count := n\<rparr>) k =
    (if k = c then Some b else block_of v i k)"
proof (cases "k < 10")
  case True
  with assms show ?thesis by (simp add: block_of_def)
next
  case False
  then have "k - 10 < 250" "c - 10 < 250" "k - 10 = c - 10 \<longleftrightarrow> k = c" using assms(1-3) by auto
  note entry = indirect_entry [OF assms(7) this(2,1) assms(5), unfolded this(3)]
  show ?thesis
  proof (cases "k = c")
    case True
    with entry False assms show ?thesis by (simp add: block_of_def)
  next
    case ne: False
    with assms(1,2) False have "c \<noteq> 10" by auto
    with entry False ne assms show ?thesis by (simp add: block_of_def)
  qed
qed

lemma room_pos: "0 < room v L \<Longrightarrow> \<forall>x < b. allocd v x \<Longrightarrow> b < L"
  by (metis (mono_tags, lifting) card_eq_0_iff empty_Collect_eq neq0_conv not_less_iff_gr_or_eq order_less_trans room_def)

lemma room_step:
  assumes "b < L" "\<not> allocd v b" "\<And>x. x < L \<Longrightarrow> allocd v' x \<longleftrightarrow> x = b \<or> allocd v x"
  shows "room v' L = room v L - 1"
proof -
  have "{x. x < L \<and> \<not> allocd v' x} = {x. x < L \<and> \<not> allocd v x} - {b}" using assms(3) by auto
  with assms(1,2) show ?thesis by (simp add: room_def)
qed

lemma ucast_count_lt: "unat (ucast (n :: u16) :: u32) = unat n"
  using unsigned_less [of n, where ?'a = nat]
  by (simp add: unsigned_ucast_eq unsigned_take_bit_eq take_bit_nat_eq_self)

text \<open>
  Entering the block \<open>b\<close>, just allocated in the volume \<open>v\<close>, into the inode: \<open>attaching\<close> is the
  situation, and \<open>attached\<close> what has been reached when the new block is filled with zeros.
\<close>

definition attaching :: "volume \<Rightarrow> SuperBlock \<Rightarrow> Inode \<Rightarrow> nat \<Rightarrow> nat \<Rightarrow> volume \<Rightarrow> SuperBlock \<Rightarrow> bool" where
  "attaching v sb i L b v1 sb1 \<longleftrightarrow> file_inv v sb i \<and> unat (block_count i) < 20 \<and> L \<le> 20480 \<and> keeps_ino v L (inode_no i) \<and>
     31 \<le> b \<and> b < L \<and> \<not> allocd v b \<and> (\<forall>y < b. allocd v y) \<and> bitmap_post v sb1 (\<lambda>x. x = b \<or> allocd v x) v1 \<and> alloc_inv v1 sb1"

definition attached :: "volume \<Rightarrow> Inode \<Rightarrow> nat \<Rightarrow> nat \<Rightarrow> volume \<Rightarrow> Inode \<Rightarrow> SuperBlock \<Rightarrow> volume \<Rightarrow> bool" where
  "attached v i L b v1 i' sb' v' \<longleftrightarrow> vol v' \<and>
     grown v i 1 L (v'(b := replicate 512 0)) sb' (i'\<lparr>block_count := block_count i + 1\<rparr>) \<and>
     room (v'(b := replicate 512 0)) L = room v1 L - (if unat (block_count i) = 10 then 1 else 0)"

lemma attachingD:
  assumes "attaching v sb i L b v1 sb1"
  shows "file_inv v sb i" "unat (block_count i) < 20" "L \<le> 20480" "keeps_ino v L (inode_no i)" "31 \<le> b" "b < L" "\<not> allocd v b"
    "alloc_inv v1 sb1" "vol v1" "allocd v1 = (\<lambda>x. x = b \<or> allocd v x)" "\<And>x. 6 \<le> x \<Longrightarrow> v1 x = v x"
    "unat (of_nat b :: u32) = b" "(of_nat b :: u32) \<noteq> 0" "unat (of_nat b :: u32) < 65536"
    "unat (ucast (block_count i) :: u32) = unat (block_count i)" "\<forall>y < b. allocd v y"
  using assms by (auto simp: attaching_def bitmap_post_def unat_of_nat word_unat_eq_iff ucast_count_lt)

text \<open>A volume that differs from \<open>v1\<close> in data blocks only.\<close>

lemma data_change:
  assumes "alloc_inv v1 sb1" "vol w" "\<And>x. x < 6 \<Longrightarrow> w x = v1 x"
  shows "alloc_inv w sb1" "\<And>x. x < 20480 \<Longrightarrow> allocd w x = allocd v1 x"
  using alloc_inv_cong [OF assms] allocd_cong [of w v1] assms(3) by auto

lemma room_same: "L \<le> 20480 \<Longrightarrow> (\<And>x. x < 20480 \<Longrightarrow> allocd w x = allocd v x) \<Longrightarrow> room w L = room v L"
  by (simp add: room_def cong: conj_cong)

lemma attach_direct_awp:
  assumes at: "attaching v sb i L b v1 sb1" and c: "unat (block_count i) < 10"
    and Q: "\<And>i' sb' v'. attached v i L b v1 i' sb' v' \<Longrightarrow> Q (i', sb') v'"
  shows "dwp d (attach_block d sb1 i (of_nat b)) Q v1"
proof -
  note a = attachingD [OF at] and f = file_inv_facts [OF attachingD(1) [OF at]]
  note w = file_wf_facts [OF f(2)]
  let ?c = "unat (block_count i)" and ?v' = "v1(b := replicate 512 0)"
  let ?i' = "i\<lparr>direct_blocks := (direct_blocks i)[?c := of_nat b]\<rparr>"
  have eq: "attach_block d sb1 i (of_nat b) = (\<lambda>s. Some ((?i', sb1), s))"
    using c a(15) by (simp add: attach_block_def [abs_def] word_less_nat_alt)
  note ch = data_change [OF a(8), of ?v']
  have ch': "alloc_inv ?v' sb1" "\<And>x. x < 20480 \<Longrightarrow> allocd ?v' x = allocd v1 x" using ch a(5,9) by auto
  have "grown v i 1 L ?v' sb1 (?i'\<lparr>block_count := block_count i + 1\<rparr>)"
  proof (rule grownI [OF a(1,2) ch'(1), where ds = "(direct_blocks i)[?c := of_nat b]" and ind = "indirect_block i"])
    fix k assume "k \<le> ?c"
    then show "block_of ?v' (?i'\<lparr>block_count := block_count i + 1\<rparr>) k = (if k = ?c then Some (of_nat b) else block_of v i k)"
      using block_of_attach_direct [OF w(2), where ind = "indirect_block i" and k = k and c = ?c and b = "of_nat b"
          and v' = ?v' and v = v and n = "block_count i + 1"] c a(13) by simp
  qed (use c w f a ch'(2) in \<open>auto simp: inode_wf_def file_wf_def\<close>)
  moreover have "room ?v' L = room v1 L" using a(3) ch'(2) by (rule room_same)
  ultimately show ?thesis unfolding eq using c a(9) by (intro awp_return Q) (simp add: attached_def)
qed

lemma attach_first_awp:
  assumes at: "attaching v sb i L b v1 sb1" and c: "unat (block_count i) = 10" and more: "0 < room v1 L"
    and Q: "\<And>i' sb' v'. attached v i L b v1 i' sb' v' \<Longrightarrow> Q (i', sb') v'"
  shows "dwp d (attach_block d sb1 i (of_nat b)) Q v1"
proof -
  note a = attachingD [OF at] and f = file_inv_facts [OF attachingD(1) [OF at]]
  note w = file_wf_facts [OF f(2)]
  let ?B = "overwrite (replicate 512 0) 0 (to_le_bytes 2 (ucast (of_nat b :: u32) :: u16))"
  have "(ucast (block_count i) :: u32) = 10" using a(15) c by (intro unat_eqD) simp
  then have eq: "attach_block d sb1 i (of_nat b) = (\<lambda>s. do {
      ((r, sb), s) \<leftarrow> allocate_block d sb1 s;
      e \<leftarrow> r;
      (_, s) \<leftarrow> write_block d e ?B s;
      Some ((i\<lparr>indirect_block := e\<rparr>, sb), s) })"
    by (simp add: attach_block_def [abs_def])
  show ?thesis
    unfolding eq
  proof (rule awp_bind, rule allocate_block_awp [OF a(8)], goal_cases)
    case 1
    obtain x where "x < L" "\<not> allocd v1 x" using more by (auto simp: room_def card_gt_0_iff)
    with 1 a(3) show ?case by (auto simp: free_set_def)
  next
    case e: (2 e v2)
    let ?sb2 = "sb1\<lparr>free_blocks := free_blocks sb1 - 1\<rparr>" and ?i' = "i\<lparr>indirect_block := of_nat e\<rparr>"
    let ?v' = "v2(e := ?B)"
    let ?v'' = "?v'(b := replicate 512 0)"
    have eL: "e < L" using room_pos [OF more e(4)] .
    have p2: "vol v2" "allocd v2 = (\<lambda>x. x = e \<or> allocd v1 x)" "\<And>x. 6 \<le> x \<Longrightarrow> v2 x = v1 x"
      using e(5) by (auto simp: bitmap_post_def)
    have ne: "e \<noteq> b" "\<not> allocd v e" using e(3) a(10) by auto
    have ue: "unat (of_nat e :: u32) = e" "(of_nat e :: u32) \<noteq> 0"
      using e(1,2) by (auto simp: unat_of_nat word_unat_eq_iff)
    have vol': "vol ?v'" "vol ?v''" using p2(1) by simp_all
    note ch = data_change [OF e(6) vol'(2)]
    have ch': "alloc_inv ?v'' ?sb2" "\<And>x. x < 20480 \<Longrightarrow> allocd ?v'' x = allocd v2 x" using ch a(5) e(2) by auto
    have "grown v i 1 L ?v'' ?sb2 (?i'\<lparr>block_count := block_count i + 1\<rparr>)"
    proof (rule grownI [OF a(1,2) ch'(1), where ds = "direct_blocks i" and ind = "of_nat e"])
      fix k assume "k \<le> unat (block_count i)"
      then show "block_of ?v'' (?i'\<lparr>block_count := block_count i + 1\<rparr>) k =
          (if k = unat (block_count i) then Some (of_nat b) else block_of v i k)"
        using block_of_attach_indirect [where i = i and k = k and c = 10 and b = "of_nat b" and ind = "of_nat e"
            and v = v and B = "replicate 512 0" and v' = ?v'' and n = "block_count i + 1"] c a(13,14) ue ne by simp
    qed (use c w f a p2 ch'(2) ue ne e(2,4) eL in \<open>auto simp: inode_wf_def\<close>)
    moreover have "room ?v'' L = room v1 L - 1"
      using ch'(2) a(3) eL e(3) p2(2) by (intro room_step) auto
    ultimately have "Q (?i', ?sb2) ?v'" using c vol'(1) by (intro Q) (simp add: attached_def)
    with e(1) ue show ?case by (auto intro!: awp_rules)
  qed
qed

lemma attach_indirect_awp:
  assumes at: "attaching v sb i L b v1 sb1" and c: "10 < unat (block_count i)"
    and Q: "\<And>i' sb' v'. attached v i L b v1 i' sb' v' \<Longrightarrow> Q (i', sb') v'"
  shows "dwp d (attach_block d sb1 i (of_nat b)) Q v1"
proof -
  note a = attachingD [OF at] and f = file_inv_facts [OF attachingD(1) [OF at]]
  note w = file_wf_facts [OF f(2)]
  let ?c = "unat (block_count i)" and ?ind = "indirect_block i"
  let ?B = "overwrite (v1 (unat ?ind)) (2 * (?c - 10)) (to_le_bytes 2 (ucast (of_nat b :: u32) :: u16))"
  let ?v' = "v1(unat ?ind := ?B)"
  let ?v'' = "?v'(b := replicate 512 0)"
  have ind: "?ind \<noteq> 0" "unat ?ind \<in> set (file_all v i)" using c f(2) by (simp_all add: file_wf_def file_all_def)
  then have ind': "31 \<le> unat ?ind" "unat ?ind < 20480" "unat ?ind \<noteq> b" using f(3) a(7) by auto
  have len: "length (v1 (unat ?ind)) = 512" using a(9) ind' by simp
  then have lenB: "length ?B = 512" using a(2) by simp
  have off: "unat (ucast (block_count i) - 10 :: u32) * 2 = 2 * (?c - 10)"
    using c a(15) by (simp add: unat_sub word_le_nat_alt)
  have eq: "attach_block d sb1 i (of_nat b) = (\<lambda>s. do {
      (buf, s) \<leftarrow> read_block d ?ind s;
      buf \<leftarrow> copy_from_slice buf (2 * (?c - 10)) (2 * (?c - 10) + 2) (to_le_bytes 2 (ucast (of_nat b :: u32) :: u16));
      (_, s) \<leftarrow> write_block d ?ind buf s;
      Some ((i, sb1), s) })"
    using c a(15) off by (simp add: attach_block_def [abs_def] word_less_nat_alt word_unat_eq_iff Let_def mult.commute)
  have vol': "vol ?v'" "vol ?v''" using a(9) lenB by simp_all
  note ch = data_change [OF a(8) vol'(2)]
  have ch': "alloc_inv ?v'' sb1" "\<And>x. x < 20480 \<Longrightarrow> allocd ?v'' x = allocd v1 x" using ch a(5) ind' by auto
  have "grown v i 1 L ?v'' sb1 (i\<lparr>block_count := block_count i + 1\<rparr>)"
  proof (rule grownI [OF a(1,2) ch'(1), where ds = "direct_blocks i" and ind = ?ind])
    fix k assume "k \<le> ?c"
    then show "block_of ?v'' (i\<lparr>block_count := block_count i + 1\<rparr>) k = (if k = ?c then Some (of_nat b) else block_of v i k)"
      using block_of_attach_indirect [where i = i and k = k and c = ?c and b = "of_nat b" and ind = ?ind
          and v = v and B = "v1 (unat ?ind)" and v' = ?v'' and n = "block_count i + 1"] c a(2,11,13,14) ind ind' len by simp
  qed (use c w f a ch'(2) ind ind' in \<open>auto simp: inode_wf_def\<close>)
  moreover have "room ?v'' L = room v1 L" using a(3) ch'(2) by (rule room_same)
  ultimately have "Q (i, sb1) ?v'" using c vol'(1) by (intro Q) (simp add: attached_def)
  with ind' len lenB a(2) show ?thesis
    unfolding eq by (intro awp_bind read_block_awp) (auto intro!: awp_rules)
qed

lemma attach_block_awp:
  assumes "attaching v sb i L b v1 sb1" "unat (block_count i) = 10 \<Longrightarrow> 0 < room v1 L"
    and "\<And>i' sb' v'. attached v i L b v1 i' sb' v' \<Longrightarrow> Q (i', sb') v'"
  shows "dwp d (attach_block d sb1 i (of_nat b)) Q v1"
  using attach_direct_awp [OF assms(1)] attach_first_awp [OF assms(1)] attach_indirect_awp [OF assms(1)] assms(2,3)
  by (metis linorder_neqE_nat)

text \<open>The free blocks that growing from \<open>c\<close> to \<open>r\<close> data blocks takes.\<close>

definition grow_need :: "nat \<Rightarrow> nat \<Rightarrow> nat" where
  "grow_need c r = (r - c) + (if c \<le> 10 \<and> 10 < r then 1 else 0)"

lemma grow_need_step: "c < r \<Longrightarrow> grow_need c r = grow_need (c + 1) r + (if c = 10 then 2 else 1)"
  by (auto simp: grow_need_def)

lemma grow_loop_round:
  "block_count i < req \<Longrightarrow> grow_loop d req sb i = (\<lambda>s. do {
      ((r, sb), s) \<leftarrow> allocate_block d sb s;
      case r of
        None \<Rightarrow> Some ((None, sb), s)
      | Some new_block \<Rightarrow> do {
          ((inode', sb), s) \<leftarrow> attach_block d sb i new_block s;
          (_, s) \<leftarrow> write_block d new_block (replicate 512 0) s;
          grow_loop d req sb (inode'\<lparr>block_count := block_count i + 1\<rparr>) s } })"
  by (subst grow_loop.simps [abs_def]) (simp cong: option.case_cong)

text \<open>One round of the loop; the eleventh block of a file takes a block of pointers along.\<close>

lemma grow_round_awp:
  fixes i :: Inode
  defines "k \<equiv> if unat (block_count i) = 10 then 2 else (1 :: nat)"
  assumes inv: "file_inv v sb i" and L: "L \<le> 20480" "keeps_ino v L (inode_no i)"
    and c: "unat (block_count i) < 20" and lt: "block_count i < req" and need: "k \<le> room v L"
    and Q: "\<And>v' sb' i'. grown v i 1 L v' sb' i' \<Longrightarrow> room v' L = room v L - k \<Longrightarrow> dwp d (grow_loop d req sb' i') Q v'"
  shows "dwp d (grow_loop d req sb i) Q v"
proof -
  have pos: "0 < room v L" using need by (auto simp: k_def split: if_splits)
  show ?thesis
    unfolding grow_loop_round [OF lt]
  proof (rule awp_bind, rule allocate_block_awp [OF file_inv_facts(1) [OF inv]], goal_cases)
    case 1
    obtain x where "x < L" "\<not> allocd v x" using pos by (auto simp: room_def card_gt_0_iff)
    with 1 L(1) show ?case by (auto simp: free_set_def)
  next
    case (2 b v1)
    let ?sb1 = "sb\<lparr>free_blocks := free_blocks sb - 1\<rparr>"
    have bL: "b < L" using room_pos [OF pos 2(4)] .
    have p1: "allocd v1 = (\<lambda>x. x = b \<or> allocd v x)" using 2(5) by (simp add: bitmap_post_def)
    have room1: "room v1 L = room v L - 1" using bL 2(3) by (rule room_step) (simp add: p1)
    have ub: "unat (of_nat b :: u32) = b" using 2(1) by (simp add: unat_of_nat)
    have at: "attaching v sb i L b v1 ?sb1" using inv L c 2 bL by (simp add: attaching_def)
    have "dwp d (\<lambda>s. do {
          ((inode', sb), s) \<leftarrow> attach_block d ?sb1 i (of_nat b) s;
          (_, s) \<leftarrow> write_block d (of_nat b) (replicate 512 0) s;
          grow_loop d req sb (inode'\<lparr>block_count := block_count i + 1\<rparr>) s }) Q v1"
    proof (rule awp_bind, rule attach_block_awp [OF at], goal_cases)
      case 1
      with need room1 show ?case by (simp add: k_def)
    next
      case (2 i' sb' v')
      have "dwp d (grow_loop d req sb' (i'\<lparr>block_count := block_count i + 1\<rparr>)) Q (v'(b := replicate 512 0))" "vol v'"
        using 2 room1 by (auto simp: attached_def k_def intro!: Q)
      with ub bL L(1) show ?case by (auto intro!: awp_rules)
    qed
    then show ?case by simp
  qed
qed

lemma grow_loop_awp:
  assumes "file_inv v sb i" "unat req \<le> 20" "L \<le> 20480" "keeps_ino v L (inode_no i)"
    and "grow_need (unat (block_count i)) (unat req) \<le> room v L"
    and "\<And>v' sb' i'. grown v i (unat req - unat (block_count i)) L v' sb' i' \<Longrightarrow>
      room v' L = room v L - grow_need (unat (block_count i)) (unat req) \<Longrightarrow> Q (Some i', sb') v'"
  shows "dwp d (grow_loop d req sb i) Q v"
  using assms
proof (induction "unat req - unat (block_count i)" arbitrary: i sb v)
  case 0
  then have "\<not> block_count i < req" by (simp add: word_less_nat_alt)
  moreover have "Q (Some i, sb) v"
    using 0 grown_refl [of v sb i L] by (intro 0(7)) (auto simp: grow_need_def)
  ultimately show ?case
    by (simp add: grow_loop.simps [abs_def] awp_return)
next
  case (Suc m)
  let ?c = "unat (block_count i)"
  have lt: "block_count i < req" "?c < unat req" "m = unat req - (?c + 1)"
    using Suc.hyps(2) by (auto simp: word_less_nat_alt)
  have need: "grow_need ?c (unat req) = grow_need (?c + 1) (unat req) + (if ?c = 10 then 2 else 1)"
    using lt(2) by (rule grow_need_step)
  show ?case
  proof (rule grow_round_awp [OF Suc.prems(1,3,4) _ lt(1)], goal_cases)
    case (3 v1 sb1 i1)
    have bc: "unat (block_count i1) = ?c + 1" using unat_inc [OF lt(1)] grown_fields(5) [OF 3(1)] by simp
    show ?case
    proof (rule Suc.hyps(1) [OF _ grown_inv [OF 3(1)] Suc.prems(2,3)])
      fix v3 sb3 i3
      assume g: "grown v1 i1 (unat req - unat (block_count i1)) L v3 sb3 i3"
        and r: "room v3 L = room v1 L - grow_need (unat (block_count i1)) (unat req)"
      have "1 + (unat req - (?c + 1)) = unat req - ?c" using lt(2) by simp
      with grown_trans [OF 3(1) g] have "grown v i (unat req - ?c) L v3 sb3 i3" by (simp add: bc)
      then show "Q (Some i3, sb3) v3" using r 3(2) need by (intro Suc.prems(6)) (auto simp: bc)
    qed (use lt bc grown_keeps_ino [OF 3(1) Suc.prems(4)] Suc.prems(5) need 3(2) in auto)
  qed (use lt(2) need Suc.prems(2,5) in auto)
qed

text \<open>Below \<open>L\<close> nothing is free, above all blocks are used.\<close>

lemma room_full:
  assumes "room v L = 0" "\<And>x. L \<le> x \<Longrightarrow> x < 20480 \<Longrightarrow> allocd v x"
  shows "x < 20480 \<Longrightarrow> allocd v x" "free_set v = {}"
proof -
  have low: "allocd v x" if "x < L" for x using assms(1) that by (auto simp: room_def)
  then show al: "x < 20480 \<Longrightarrow> allocd v x" for x using assms(2) by (cases "x < L") auto
  then show "free_set v = {}" by (auto simp: free_set_def)
qed

text \<open>Growing in two steps, and growing when the disk becomes full after \<open>r\<close> blocks.\<close>

lemma grow_loop_split:
  "req' \<le> req \<Longrightarrow> grow_loop d req sb i s = do {
     ((g, sb), s) \<leftarrow> grow_loop d req' sb i s;
     case g of None \<Rightarrow> Some ((None, sb), s) | Some i \<Rightarrow> grow_loop d req sb i s }"
proof (induction d req' sb i s rule: grow_loop.induct)
  case (1 d req' sb i s)
  show ?case
  proof (cases "block_count i < req'")
    case True
    with 1(2) have r: "block_count i < req" by simp
    note IH = 1(1) [OF True _ _ _ _ _ _ _ _ _ 1(2)]
    show ?thesis
      unfolding grow_loop.simps [of d req sb i] grow_loop.simps [of d req' sb i]
      using True r IH by (auto simp: Option.bind_eq_Some_conv split: Option.bind_splits option.splits)
  next
    case False
    then show ?thesis by (subst (2) grow_loop.simps) simp
  qed
qed


lemma grow_loop_full_awp:
  assumes inv: "file_inv v sb i" and L: "L \<le> 20480" "keeps_ino v L (inode_no i)"
    and r: "unat (block_count i) \<le> r" "r < unat req" "unat req \<le> 20" "grow_need (unat (block_count i)) r = room v L"
    and used: "\<And>x. L \<le> x \<Longrightarrow> x < 20480 \<Longrightarrow> allocd v x"
    and Q: "\<And>v' sb' i'. grown v i (r - unat (block_count i)) L v' sb' i' \<Longrightarrow> free_set v' = {} \<Longrightarrow> Q (None, sb') v'"
  shows "dwp d (grow_loop d req sb i) Q v"
proof -
  let ?r = "of_nat r :: u16"
  have ur: "unat ?r = r" using r(2,3) by (simp add: unat_of_nat)
  then have le: "?r \<le> req" using r(2) by (simp add: word_le_nat_alt)
  have "dwp d (\<lambda>s. do {
      ((g, sb), s) \<leftarrow> grow_loop d ?r sb i s;
      case g of None \<Rightarrow> Some ((None, sb), s) | Some i \<Rightarrow> grow_loop d req sb i s }) Q v"
  proof (rule awp_bind, rule grow_loop_awp [OF inv _ L], goal_cases)
    case (3 v1 sb1 i1)
    note g = 3(1) [unfolded ur] and rm = 3(2) [unfolded ur]
    note full = room_full [of v1 L]
    have "room v1 L = 0" using rm r(4) by simp
    moreover have "allocd v1 x" if "L \<le> x" "x < 20480" for x using used [OF that] that(2) g by (simp add: grown_def)
    ultimately have al: "\<And>x. x < 20480 \<Longrightarrow> allocd v1 x" and fr: "free_set v1 = {}" using full by blast+
    have "unat (block_count i1) = r"
      using grown_fields(5) [OF g] r(1-3) by (simp add: unat_word_ariths unat_of_nat)
    then have lt: "block_count i1 < req" using r(2) by (simp add: word_less_nat_alt)
    have inv1: "alloc_inv v1 sb1" using file_inv_facts(1) [OF grown_inv [OF g]] .
    have "dwp d (grow_loop d req sb1 i1) Q v1"
      unfolding grow_loop_round [OF lt]
    proof (rule awp_bind, rule allocate_block_awp [OF inv1], goal_cases)
      case 1
      from Q [OF g fr] show ?case by (auto intro: awp_return)
    next
      case (2 b v2)
      with al show ?case by blast
    qed
    then show ?case by simp
  qed (use r ur in simp_all)
  then show ?thesis by (simp only: grow_loop_split [OF le, symmetric])
qed

end
