(* ===== verification/File_Handlers.thy ===== *)
theory File_Handlers
  imports File_Content
begin

text \<open>
  The handlers \<open>read\<close> and \<open>write\<close> of \<open>src/src/fs.rs\<close> refine reading and writing at a
  position of the byte list \<open>file_contents\<close>.
\<close>

section \<open>Offsets\<close>

lemma sint_nonneg:
  assumes "0 \<le> sint (w :: i64)"
  shows "sint w = int (unat w)"
proof -
  have bit63: "\<not> bit (uint w) 63"
    using assms by (simp add: sint_uint)
  then have "n < 63" if "bit w n" for n
    using that bit_imp_le_length [OF that] by (cases "n = 63") (auto simp: bit_unsigned_iff)
  then have "take_bit 63 (uint w) = uint w"
    by (intro bit_eqI) (auto simp: bit_simps)
  with bit63 show ?thesis by (simp add: sint_uint signed_take_bit_eq_if_positive)
qed

lemma sint_small:
  assumes "unat (w :: i64) < 2 ^ 63"
  shows "0 \<le> sint w"
proof -
  have "\<not> bit w 63"
  proof
    assume "bit w 63"
    then have "bit (unat w) 63" by (simp add: bit_unsigned_iff)
    with assms show False by (simp add: bit_iff_odd)
  qed
  then show ?thesis by (simp add: sint_uint bit_unsigned_iff)
qed

lemma unat_size_diff:
  fixes a :: u32
  assumes "off \<le> unat a"
  shows "unat (of_int (uint a - int off) :: u32) = unat a - off"
proof -
  have "of_int (uint a - int off) = a - of_nat off" by simp
  moreover have "unat (of_nat off :: u32) = off"
    using assms unsigned_less [of a, where ?'a = nat] by (simp add: unat_of_nat)
  ultimately show ?thesis using assms by (simp add: unat_sub word_le_nat_alt)
qed

lemma unat_low32: "unat (w :: u64) < 2 ^ 32 \<Longrightarrow> unat (ucast w :: u32) = unat w"
  by (simp add: unsigned_ucast_eq unsigned_take_bit_eq take_bit_nat_eq_self)

lemma unat_min: "unat (min a b) = min (unat a) (unat (b :: 'a::len word))"
  by (simp add: min_def word_le_nat_alt)

section \<open>The handler \<open>read\<close>\<close>

lemma length_file_contents: "file_inv v sb i \<Longrightarrow> length (file_contents v i) = unat (isize i)"
  using file_wf_facts(9) [of v i] by (auto simp: file_contents_def file_inv_def)

lemma fs_read_awp:
  fixes fs :: "'s SimpleFS" and ino :: u64 and sz :: u32
  defines "n \<equiv> ucast ino :: u32"
  assumes inv: "file_inv v (fs_sb fs) (inode_at v n)" "on_disk n" and pos: "0 \<le> sint offset"
    and Q: "Q (ReplyData (read_at (file_contents v (inode_at v n)) (unat offset) (unat sz)), fs) v"
  shows "dwp (fs_disk fs) (fs_read fs ino offset sz) Q v"
proof -
  let ?i = "inode_at v n" and ?off = "unat offset"
  note f = file_inv_facts [OF inv(1)]
  note w = file_wf_facts [OF f(2)]
  have lay: "vol v" "sb_layout (fs_sb fs)" using f(1) by (auto simp: alloc_inv_def)
  have "uint (isize ?i) = int (unat (isize ?i))" by simp
  then have ge: "sint offset \<ge> uint (isize ?i) \<longleftrightarrow> unat (isize ?i) \<le> ?off"
    by (simp only: sint_nonneg [OF pos] of_nat_le_iff)
  show ?thesis
  proof (cases "unat (isize ?i) \<le> ?off")
    case True
    then have "read_at (file_contents v ?i) ?off (unat sz) = []"
      using length_file_contents [OF inv(1)] by (simp add: read_at_def)
    with Q True ge lay inv(2) show ?thesis
      unfolding fs_read_def [abs_def] by (intro awp_bind read_inode_awp) (auto simp: n_def [symmetric] intro!: awp_rules)
  next
    case False
    define act where "act = min sz (of_int (uint (isize ?i) - sint offset))"
    have act: "unat act = min (unat sz) (unat (isize ?i) - ?off)"
      using False unat_size_diff [of ?off "isize ?i"] unfolding act_def
      by (simp only: unat_min sint_nonneg [OF pos])
    have act': "min sz (isize ?i - scast offset) = act" by (simp add: act_def)
    have "?off < 2 ^ 32" using False unsigned_less [of "isize ?i", where ?'a = nat] by simp
    then have k: "unat ((ucast offset :: u32) div 510) = ?off div 510"
      by (simp add: unat_div unat_low32)
    have pos_eq: "510 * (?off div 510) + ?off mod 510 = ?off" by simp
    have bound: "unat (isize ?i) \<le> 510 * unat (block_count ?i)" using inv(1) by (simp add: file_inv_def)
    have "read_at (file_contents v ?i) ?off (unat sz) = take (unat act) (drop ?off (file_data v ?i))"
      by (simp add: read_at_def file_contents_def act drop_take)
    then have "dwp (fs_disk fs) (read_loop (unat act) (fs_disk fs) ?i (unat act) ((ucast offset :: u32) div 510) (?off mod 510) [])
        (\<lambda>r. awp (disk_ok (fs_disk fs)) (blocks (fs_disk fs)) (\<lambda>s. Some ((ReplyData r, fs), s)) Q) v"
      using Q bound False by (intro read_loop_awp [OF f(2)]) (auto simp: k pos_eq act intro!: awp_rules)
    with lay inv(2) ge False show ?thesis
      unfolding fs_read_def [abs_def] by (intro awp_bind read_inode_awp) (auto simp: n_def [symmetric] Let_def act' intro!: awp_bind)
  qed
qed

section \<open>The handler \<open>write\<close>\<close>

text \<open>
  The number of blocks that \<open>write\<close> computes for data of \<open>len\<close> bytes at an offset, and the
  position in the file that its loop starts from: both go through a conversion to 32 bits.
\<close>

definition required_of :: "i64 \<Rightarrow> nat \<Rightarrow> u32" where
  "required_of offset len = ucast ((offset + of_nat len + of_nat PAGE_SIZE - 1) div of_nat PAGE_SIZE)"

definition start_of :: "i64 \<Rightarrow> nat" where
  "start_of offset = 510 * unat ((ucast offset :: u32) div 510) + unat offset mod 510"

definition size_after :: "u32 \<Rightarrow> i64 \<Rightarrow> nat \<Rightarrow> u32" where
  "size_after sz offset len = (if offset + of_nat len > ucast sz then ucast (offset + of_nat len) else sz)"

lemma ucast_of_nat_u64: "(ucast (of_nat k :: u64) :: u32) = of_nat k"
  by (rule unat_eqD)
     (simp add: unsigned_ucast_eq unsigned_take_bit_eq unat_of_nat take_bit_eq_mod mod_mod_cancel)

lemma if_isize: "(if c then i\<lparr>isize := x\<rparr> else i) = i\<lparr>isize := (if c then x else isize i)\<rparr>"
  by simp

text \<open>\<open>write\<close> of some bytes within the size limit, with the values that its body computes first.\<close>

lemma fs_write_eq:
  assumes len: "data \<noteq> []" "length data < 2 ^ 64" and req: "unat (required_of offset (length data)) \<le> 20"
  shows "fs_write fs ino offset data = (\<lambda>s. do {
      (inode, s) \<leftarrow> read_inode (fs_disk fs) (fs_sb fs) (ucast ino) s;
      ((g, sb), s) \<leftarrow> grow_loop (fs_disk fs) (ucast (required_of offset (length data))) (fs_sb fs) inode s;
      case g of
        None \<Rightarrow> Some ((ReplyError ENOSPC, fs\<lparr>fs_sb := sb\<rparr>), s)
      | Some inode \<Rightarrow> do {
          (_, s) \<leftarrow> write_loop (length data) (fs_disk fs) inode data (length data) ((ucast offset :: u32) div 510) (unat offset mod 510) 0 s;
          (now, s) \<leftarrow> current_timestamp (disk_host (fs_disk fs)) s;
          (_, s) \<leftarrow> write_inode (fs_disk fs) sb (inode\<lparr>isize := size_after (isize inode) offset (length data), mtime := now, atime := now\<rparr>) s;
          Some ((ReplyWritten (ucast (of_nat (length data) :: u64)), fs\<lparr>fs_sb := sb\<rparr>), s) } })"
proof -
  have "(of_nat (length data) :: u64) \<noteq> 0"
    using len by (simp add: word_unat_eq_iff unat_of_nat)
  moreover have "\<not> required_of offset (length data) > MAX_FILE_BLOCKS"
    using req by (simp add: MAX_FILE_BLOCKS_def word_less_nat_alt)
  ultimately show ?thesis
    unfolding fs_write_def [abs_def] Let_def required_of_def size_after_def
    by (simp add: if_isize cong: option.case_cong if_cong)
qed

lemma fs_write_awp:
  fixes fs :: "'s SimpleFS" and ino :: u64
  defines "n \<equiv> ucast ino :: u32"
  assumes inv: "file_inv v (fs_sb fs) (inode_at v n)" "on_disk n"
    and len: "data \<noteq> []" "length data < 2 ^ 64"
    and req: "unat (required_of offset (length data)) \<le> 20"
    and L: "L \<le> 20480" "L \<le> inode_blk n"
    and room: "grow_need (unat (block_count (inode_at v n))) (unat (required_of offset (length data))) \<le> room v L"
    and fits: "start_of offset + length data \<le>
      510 * max (unat (block_count (inode_at v n))) (unat (required_of offset (length data)))"
    and Q: "\<And>i1 v1 sb1 v2 t. grown v (inode_at v n) (unat (required_of offset (length data)) - unat (block_count (inode_at v n))) L v1 sb1 i1 \<Longrightarrow>
      data_post v1 i1 (start_of offset) data v2 \<Longrightarrow>
      Q (ReplyWritten (of_nat (length data)), fs\<lparr>fs_sb := sb1\<rparr>)
        (put_inode v2 (i1\<lparr>isize := size_after (isize i1) offset (length data), mtime := t, atime := t\<rparr>))"
  shows "dwp (fs_disk fs) (fs_write fs ino offset data) Q v"
proof -
  let ?i = "inode_at v n" and ?r = "required_of offset (length data)" and ?d = "fs_disk fs"
  note f = file_inv_facts [OF inv(1)]
  have lay: "vol v" "sb_layout (fs_sb fs)" using f(1) by (auto simp: alloc_inv_def)
  have no: "inode_no ?i = n" using inode_at_decode(3) [OF lay(1) inv(2)] .
  have ur: "unat (ucast ?r :: u16) = unat ?r"
    using req by (simp add: unsigned_ucast_eq unsigned_take_bit_eq take_bit_nat_eq_self)
  show ?thesis
    unfolding fs_write_eq [OF len req] n_def [symmetric]
  proof (intro awp_bind read_inode_awp lay inv(2), simp only: prod.case, rule awp_bind, rule grow_loop_awp [OF inv(1) _ L(1)], goal_cases)
    case (4 v1 sb1 i1)
    note g = 4(1) [unfolded ur]
    note fi = file_inv_facts [OF grown_inv [OF g]]
    note fw = file_wf_facts [OF fi(2)]
    note flds = grown_fields [OF g]
    have lay1: "sb_layout sb1" using fi(1) by (simp add: alloc_inv_def)
    have bc: "unat (block_count i1) = max (unat (block_count ?i)) (unat ?r)"
      using flds(5) req file_wf_facts(4) [OF f(2)] by (simp add: unat_word_ariths unat_of_nat)
    have "dwp ?d (write_loop (length data) ?d i1 data (length data) ((ucast offset :: u32) div 510) (unat offset mod 510) 0)
        (\<lambda>_. dwp ?d (\<lambda>s. do {
          (now, s) \<leftarrow> current_timestamp (disk_host ?d) s;
          (_, s) \<leftarrow> write_inode ?d sb1 (i1\<lparr>isize := size_after (isize i1) offset (length data), mtime := now, atime := now\<rparr>) s;
          Some ((ReplyWritten (ucast (of_nat (length data) :: u64)), fs\<lparr>fs_sb := sb1\<rparr>), s) }) Q) v1"
    proof (rule write_loop_awp [OF fi(2)])
      show "510 * unat ((ucast offset :: u32) div 510) + unat offset mod 510 + length data \<le> 510 * unat (block_count i1)"
        using fits by (simp add: start_of_def bc)
      fix v2 assume "data_post v1 i1 (510 * unat ((ucast offset :: u32) div 510) + unat offset mod 510) (drop 0 data) v2"
      then have post: "data_post v1 i1 (start_of offset) data v2" by (simp add: start_of_def)
      then have "vol v2" using file_wf_facts(1) [of v2 i1] by (simp add: data_post_def)
      with Q [OF g post] fw(2,3) lay1 flds no inv(2)
      show "dwp ?d (\<lambda>s. do {
          (now, s) \<leftarrow> current_timestamp (disk_host ?d) s;
          (_, s) \<leftarrow> write_inode ?d sb1 (i1\<lparr>isize := size_after (isize i1) offset (length data), mtime := now, atime := now\<rparr>) s;
          Some ((ReplyWritten (ucast (of_nat (length data) :: u64)), fs\<lparr>fs_sb := sb1\<rparr>), s) }) Q v2"
        by (auto simp: inode_wf_def ucast_of_nat_u64 intro!: awp_rules)
    qed simp_all
    then show ?case by (auto intro!: awp_bind)
  qed (use req ur no L room in \<open>simp_all add: keeps_ino_def\<close>)
qed

section \<open>Writing as a change of the contents\<close>

lemma file_data_split:
  assumes "file_inv v sb i"
  shows "file_data v i = file_contents v i @ replicate (510 * unat (block_count i) - unat (isize i)) 0"
proof -
  have len: "length (file_data v i) = 510 * unat (block_count i)" "unat (isize i) \<le> 510 * unat (block_count i)"
    using assms file_wf_facts(9) [of v i] by (auto simp: file_inv_def)
  have "drop (unat (isize i)) (file_data v i) = replicate (510 * unat (block_count i) - unat (isize i)) 0"
    using assms len by (intro nth_equalityI) (auto simp: file_inv_def)
  then show ?thesis by (metis append_take_drop_id file_contents_def)
qed

lemma write_at_data:
  assumes D: "D = c @ replicate z 0" and n: "off + length bs \<le> length D" and m: "m = max (length c) (off + length bs)"
  shows "take m (overwrite D off bs) = write_at c off bs" "m \<le> p \<Longrightarrow> p < length D \<Longrightarrow> overwrite D off bs ! p = 0"
proof -
  have len: "length D = length c + z" "m \<le> length D" using D n m by auto
  show "take m (overwrite D off bs) = write_at c off bs"
  proof (rule nth_equalityI)
    show lens: "length (take m (overwrite D off bs)) = length (write_at c off bs)"
      using len n m by (simp add: write_at_def)
    fix p assume "p < length (take m (overwrite D off bs))"
    then have p: "p < m" by simp
    have E: "overwrite D off bs ! p = (if off \<le> p \<and> p < off + length bs then bs ! (p - off) else D ! p)"
      using p len n by (intro nth_splice) auto
    have F: "write_at c off bs ! p = (if off \<le> p \<and> p < off + length bs then bs ! (p - off)
        else (c @ replicate (off + length bs - length c) 0) ! p)"
      unfolding write_at_def using p m by (intro nth_splice) auto
    have "D ! p = (c @ replicate (off + length bs - length c) 0) ! p"
      using p m len by (auto simp: D nth_append)
    with E F p show "take m (overwrite D off bs) ! p = write_at c off bs ! p" by simp
  qed
  assume p: "m \<le> p" "p < length D"
  then have "overwrite D off bs ! p = D ! p" using n m by (simp add: nth_splice)
  moreover have "length c \<le> p" "p - length c < z" using p m len by auto
  ultimately show "overwrite D off bs ! p = 0" by (simp add: D nth_append)
qed

lemma length_write_at: "length (write_at c off bs) = max (length c) (off + length bs)"
  by (simp add: write_at_def)

lemma read_write_at: "read_at (write_at c off bs) off (length bs) = bs"
  by (simp add: read_at_def write_at_def splice_same)

text \<open>Storing the inode after the data loop: the file read back from the table.\<close>

lemma file_blocks_fields:
  assumes "block_count j = block_count i" "direct_blocks j = direct_blocks i" "indirect_block j = indirect_block i"
  shows "block_of v j = block_of v i" "file_blocks v j = file_blocks v i" "file_all v j = file_all v i" "file_data v j = file_data v i"
proof -
  show b: "block_of v j = block_of v i" using assms by (simp add: block_of_def fun_eq_iff Let_def)
  then show fb: "file_blocks v j = file_blocks v i" using assms by (simp add: file_blocks_def)
  then show "file_all v j = file_all v i" "file_data v j = file_data v i"
    using assms by (simp_all add: file_all_def file_data_def)
qed

lemma file_put_inode:
  assumes wf: "file_wf v i" and j: "block_count j = block_count i" "direct_blocks j = direct_blocks i"
    "indirect_block j = indirect_block i" "inode_no j = inode_no i" and v': "v' = put_inode v j"
  shows "inode_at v' (inode_no i) = j" "file_wf v' j" "file_all v' j = file_all v i" "file_data v' j = file_data v i"
    "file_blocks v' j = file_blocks v i"
proof -
  note w = file_wf_facts [OF wf]
  have wfj: "inode_wf j" using w(2) j by (simp add: inode_wf_def)
  show "inode_at v' (inode_no i) = j"
    using inode_at_put_inode [of v j "inode_no i"] w wfj j by (simp add: v')
  have other: "v' b = v b" if "b \<in> set (file_all v i)" for b
    using that wf j by (auto simp: v' file_wf_def)
  have "indirect_block i \<noteq> 0 \<longrightarrow> v' (unat (indirect_block i)) = v (unat (indirect_block i))"
    using other wf by (auto simp: file_wf_def file_all_def)
  note c = file_blocks_cong [of i v' v, OF this]
  note fields = file_blocks_fields [OF j(1-3), of v']
  show all: "file_all v' j = file_all v i" using fields(3) c(3) by simp
  show "file_blocks v' j = file_blocks v i" using fields(2) c(2) by simp
  have "file_data v' i = file_data v i"
    using data_of_cong [of "file_blocks v i" v' v] other c(2) by (auto simp: file_data_def file_all_def)
  with fields(4) show "file_data v' j = file_data v i" by simp
  have "vol v'" using w wfj j by (simp add: v')
  with wf wfj j fields(1) c(1) all show "file_wf v' j" by (simp add: file_wf_def)
qed

section \<open>The specification of \<open>write\<close>\<close>

lemma required_of_eq:
  assumes "unat offset + len + 509 < 2 ^ 64"
  shows "unat (required_of offset len) = ((unat offset + len + 509) div 510) mod 2 ^ 32"
proof -
  have w: "offset + of_nat len + of_nat PAGE_SIZE - 1 = offset + of_nat (len + 509)" by simp
  have "unat (offset + of_nat (len + 509)) = unat offset + len + 509"
    using assms by (simp only: unat_word_ariths unat_of_nat) (simp add: add.assoc)
  then show ?thesis
    unfolding required_of_def w
    by (simp only: unsigned_ucast_eq unsigned_take_bit_eq take_bit_eq_mod unat_div) simp
qed

lemma start_of_eq: "unat offset < 2 ^ 32 \<Longrightarrow> start_of offset = unat offset"
  by (simp add: start_of_def unat_div unat_low32)

lemma size_after_eq:
  assumes "unat offset + len < 2 ^ 32"
  shows "unat (size_after sz offset len) = max (unat sz) (unat offset + len)"
proof -
  have sum: "unat (offset + of_nat len) = unat offset + len"
    using assms by (simp add: unat_word_ariths unat_of_nat)
  have "unat (ucast sz :: u64) = unat sz"
    using unsigned_less [of sz, where ?'a = nat] by (simp add: unsigned_ucast_eq unsigned_take_bit_eq take_bit_nat_eq_self)
  with sum assms show ?thesis
    by (auto simp: size_after_def word_less_nat_alt unat_low32)
qed

text \<open>
  What a successful \<open>write\<close> promises: the contents of the file change as \<open>write_at\<close> says, its attributes
  as \<open>write_meta\<close> does, its blocks stay in place, the blocks that it gains were the first free ones and
  lie below \<open>L\<close> and no other block is marked, every block outside the file, the allocator's own
  blocks and the inode's block is unchanged, and so is every other inode in that block.
\<close>

definition write_post :: "nat \<Rightarrow> volume \<Rightarrow> u32 \<Rightarrow> nat \<Rightarrow> byte list \<Rightarrow> volume \<Rightarrow> SuperBlock \<Rightarrow> bool" where
  "write_post L v n off bs v' sb' \<longleftrightarrow> file_inv v' sb' (inode_at v' n) \<and>
     meta_of (inode_at v' n) = write_meta (off + length bs) (meta_of (inode_at v n)) \<and>
     set (file_all v (inode_at v n)) \<subseteq> set (file_all v' (inode_at v' n)) \<and>
     (\<exists>bs. file_blocks v' (inode_at v' n) = file_blocks v (inode_at v n) @ bs) \<and>
     (\<forall>x < 20480. allocd v' x \<longleftrightarrow> allocd v x \<or> x \<in> set (file_all v' (inode_at v' n))) \<and>
     (\<forall>x \<in> set (file_all v' (inode_at v' n)) - set (file_all v (inode_at v n)). x < L \<and> \<not> allocd v x \<and>
       (\<forall>y < x. allocd v' y)) \<and>
     file_contents v' (inode_at v' n) = write_at (file_contents v (inode_at v n)) off bs \<and>
     (\<forall>x \<ge> 6. x \<notin> set (file_all v' (inode_at v' n)) \<and> x \<noteq> inode_blk n \<longrightarrow> v' x = v x) \<and>
     (\<forall>m. on_disk m \<and> m \<noteq> n \<and> inode_blk m = inode_blk n \<longrightarrow> inode_at v' m = inode_at v m)"

text \<open>The file after \<open>write\<close> has stored the inode: its blocks and its contents.\<close>

lemma written_file:
  assumes inv: "file_inv v sb (inode_at v n)" "on_disk n" and g: "grown v (inode_at v n) m L v1 sb1 i1"
    and post: "data_post v1 i1 off bs v2" and i2: "i2 = i1\<lparr>isize := sz, mtime := t, atime := t\<rparr>"
  shows "inode_no i1 = n" "inode_at (put_inode v2 i2) n = i2" "file_wf (put_inode v2 i2) i2"
    "file_all (put_inode v2 i2) i2 = file_all v1 i1" "file_blocks (put_inode v2 i2) i2 = file_blocks v1 i1"
    "file_data (put_inode v2 i2) i2 = overwrite (file_data v1 i1) off bs"
    "\<And>x. x < 6 \<Longrightarrow> put_inode v2 i2 x = v1 x"
proof -
  have v: "vol v" using inv(1) by (simp add: file_inv_def alloc_inv_def)
  show no: "inode_no i1 = n" using inode_at_decode(3) [OF v inv(2)] grown_fields(1) [OF g] by simp
  have p: "file_wf v2 i1" "file_all v2 i1 = file_all v1 i1" "file_data v2 i1 = overwrite (file_data v1 i1) off bs"
      "file_blocks v2 i1 = file_blocks v1 i1" "\<And>x. x \<notin> set (file_blocks v1 i1) \<Longrightarrow> v2 x = v1 x"
    using post by (auto simp: data_post_def)
  note put = file_put_inode [OF p(1), of i2, unfolded no]
  show "inode_at (put_inode v2 i2) n = i2" "file_wf (put_inode v2 i2) i2"
    "file_all (put_inode v2 i2) i2 = file_all v1 i1" "file_blocks (put_inode v2 i2) i2 = file_blocks v1 i1"
    "file_data (put_inode v2 i2) i2 = overwrite (file_data v1 i1) off bs"
    using put p no by (simp_all add: i2)
  show "put_inode v2 i2 x = v1 x" if "x < 6" for x
  proof -
    have "\<forall>b \<in> set (file_blocks v1 i1). 31 \<le> b" using grown_inv [OF g] by (simp add: file_inv_def file_wf_def file_all_def)
    then have "x \<notin> set (file_blocks v1 i1)" using that by auto
    with that p(5) show ?thesis by (simp add: put_inode_low)
  qed
qed

lemma written_inv:
  assumes inv: "file_inv v sb (inode_at v n)" "on_disk n" and g: "grown v (inode_at v n) m L v1 sb1 i1"
    and post: "data_post v1 i1 off bs v2" and i2: "i2 = i1\<lparr>isize := sz, mtime := t, atime := t\<rparr>"
    and sz: "unat sz = max (unat (isize (inode_at v n))) (off + length bs)"
    and fits: "off + length bs \<le> 510 * unat (block_count i1)"
  shows "file_inv (put_inode v2 i2) sb1 i2"
    "file_contents (put_inode v2 i2) i2 = write_at (file_contents v (inode_at v n)) off bs"
proof -
  let ?i = "inode_at v n" and ?v3 = "put_inode v2 i2"
  note gi = grown_inv [OF g] and w = written_file [OF inv g post i2]
  have sel: "block_count i2 = block_count i1" "isize i2 = sz" by (simp_all add: i2)
  have D: "file_data v1 i1 = file_contents v ?i @ replicate (510 * unat (block_count ?i) - unat (isize ?i) + 510 * m) 0"
    using g file_data_split [OF inv(1)] by (simp add: grown_def replicate_add)
  have lenD: "length (file_data v1 i1) = 510 * unat (block_count i1)"
    using gi file_wf_facts(9) [of v1 i1] by (simp add: file_inv_def)
  have szm: "unat sz = max (length (file_contents v ?i)) (off + length bs)" using sz length_file_contents [OF inv(1)] by simp
  have fit: "off + length bs \<le> length (file_data v1 i1)" using fits lenD by simp
  note wd = write_at_data [OF D fit szm]
  show "file_contents ?v3 i2 = write_at (file_contents v ?i) off bs"
    using w(6) wd(1) sel(2) by (simp add: file_contents_def)
  have "alloc_inv v1 sb1" using gi by (simp add: file_inv_def)
  then have ai: "alloc_inv ?v3 sb1" by (rule alloc_inv_cong [OF _ file_wf_facts(1) [OF w(3)] w(7)])
  have al: "allocd ?v3 x" if "x \<in> set (file_all ?v3 i2)" for x
  proof -
    have "allocd v1 x" "x < 20480" using that gi w(4) by (auto simp: file_inv_def file_wf_def)
    with w(7) allocd_cong [of ?v3 v1 x] show ?thesis by simp
  qed
  have "length (file_contents v ?i) \<le> length (file_data v1 i1)" unfolding D by simp
  with szm fit lenD have "unat sz \<le> 510 * unat (block_count i1)" by simp
  moreover have "file_data ?v3 i2 ! q = 0" if "unat sz \<le> q" "q < 510 * unat (block_count i1)" for q
    using wd(2) [OF that(1)] that(2) lenD w(6) by simp
  ultimately show "file_inv ?v3 sb1 i2"
    using ai al w(3) sel unfolding file_inv_def by simp
qed

lemma write_postI:
  assumes inv: "file_inv v sb (inode_at v n)" "on_disk n" and g: "grown v (inode_at v n) m L v1 sb1 i1"
    and post: "data_post v1 i1 off bs v2" and i2: "i2 = i1\<lparr>isize := sz, mtime := t, atime := t\<rparr>"
    and sz: "unat sz = max (unat (isize (inode_at v n))) (off + length bs)"
    and bc: "unat (block_count i1) = max (unat (block_count (inode_at v n))) ((off + length bs + 509) div 510)" and L: "L \<le> inode_blk n"
  shows "write_post L v n off bs (put_inode v2 i2) sb1"
proof -
  let ?i = "inode_at v n" and ?v3 = "put_inode v2 i2"
  note gi = grown_inv [OF g] and w = written_file [OF inv g post i2]
  have no: "inode_no i2 = n" using w(1) by (simp add: i2)
  have nb: "inode_blk n \<notin> set (file_all v1 i1)" using gi w(1) by (auto simp: file_inv_def file_wf_def)
  have same: "v2 x = v x" if "6 \<le> x" "x \<notin> set (file_all v1 i1)" for x
  proof -
    have "v2 x = v1 x" using post that(2) by (auto simp: data_post_def file_all_def)
    moreover have "v1 x = v x" using g that unfolding grown_def by blast
    ultimately show ?thesis by simp
  qed
  have frame: "?v3 x = v x" if "6 \<le> x" "x \<notin> set (file_all ?v3 i2)" "x \<noteq> inode_blk n" for x
    using same [OF that(1)] that(2,3) w(4) no by simp
  have others: "inode_at ?v3 k = inode_at v k" if k: "on_disk k" "k \<noteq> n" "inode_blk k = inode_blk n" for k
  proof -
    have "inode_at v2 k = inode_at v k" using k(3) same [OF inode_blk_ge nb] by (intro inode_at_cong) simp
    moreover have "vol v2" "inode_wf i2" "on_disk (inode_no i2)"
      using post inv(2) no by (auto simp: data_post_def file_wf_def inode_wf_def i2)
    ultimately show ?thesis using inode_at_put_inode [of v2 i2 k] k no by simp
  qed
  have al3: "allocd ?v3 x \<longleftrightarrow> allocd v x \<or> x \<in> set (file_all v1 i1)" if "x < 20480" for x
  proof -
    have "allocd ?v3 x = allocd v1 x" using w(7) that allocd_cong [of ?v3 v1 x] by simp
    with that g show ?thesis by (auto simp: grown_def)
  qed
  have "x < L \<and> \<not> allocd v x \<and> (\<forall>y < x. allocd ?v3 y)" if x: "x \<in> set (file_all v1 i1) - set (file_all v ?i)" for x
  proof -
    have n: "x < L \<and> \<not> allocd v x \<and> (\<forall>y < x. allocd v1 y)" using grown_new [OF g] x by blast
    have "x < 20480" using x file_inv_facts(3) [OF gi] by blast
    with n w(7) allocd_cong [of ?v3 v1] show ?thesis by auto
  qed
  moreover have "set (file_all v ?i) \<subseteq> set (file_all v1 i1)" "\<exists>bs. file_blocks v1 i1 = file_blocks v ?i @ bs"
    using g unfolding grown_def by blast+
  moreover have "meta_of i2 = write_meta (off + length bs) (meta_of ?i)"
  proof -
    have "sz = of_nat (max (unat (isize ?i)) (off + length bs))"
      "block_count i1 = of_nat (max (unat (block_count ?i)) ((off + length bs + 509) div 510))"
      unfolding sz [symmetric] bc [symmetric] by simp_all
    then show ?thesis using grown_fields [OF g] by (simp add: i2 meta_of_def write_meta_def)
  qed
  moreover have fits: "off + length bs \<le> 510 * unat (block_count i1)" unfolding bc by simp
  ultimately show ?thesis
    using written_inv [OF inv g post i2 sz fits] frame others w al3 by (simp add: write_post_def)
qed

lemma fs_write_ok_awp:
  fixes fs :: "'s SimpleFS" and ino :: u64
  defines "n \<equiv> ucast ino :: u32"
  assumes inv: "file_inv v (fs_sb fs) (inode_at v n)" "on_disk n"
    and data: "data \<noteq> []" "unat offset + length data \<le> 10200"
    and room: "grow_need (unat (block_count (inode_at v n))) ((unat offset + length data + 509) div 510) \<le> room v L"
    and L: "L \<le> inode_blk n"
    and Q: "\<And>sb' v'. write_post L v n (unat offset) data v' sb' \<Longrightarrow>
      Q (ReplyWritten (of_nat (length data)), fs\<lparr>fs_sb := sb'\<rparr>) v'"
  shows "dwp (fs_disk fs) (fs_write fs ino offset data) Q v"
proof -
  let ?r = "(unat offset + length data + 509) div 510" and ?c = "unat (block_count (inode_at v n))"
  have r20: "?r \<le> 20" using data(2) by simp
  then have req: "unat (required_of offset (length data)) = ?r"
    using required_of_eq [of offset "length data"] data(2) by simp
  have start: "start_of offset = unat offset" using data(2) by (intro start_of_eq) simp
  have fits: "unat offset + length data \<le> 510 * ?r" by simp
  have c20: "?c \<le> 20" using inv(1) by (simp add: file_inv_def file_wf_def)
  show ?thesis
  proof (rule fs_write_awp [where L = L and ino = ino, folded n_def, OF inv], unfold req start, goal_cases)
    case (8 i1 v1 sb1 v2 t)
    have "unat (block_count i1) = max ?c ?r"
      using grown_fields(5) [OF 8(1)] r20 c20 by (simp add: unat_word_ariths unat_of_nat)
    moreover have "unat (size_after (isize i1) offset (length data)) = max (unat (isize (inode_at v n))) (unat offset + length data)"
      using data(2) grown_fields(2) [OF 8(1)] by (subst size_after_eq) auto
    ultimately show ?case
      using 8 L by (intro Q write_postI [OF inv 8(1,2) refl]) auto
  qed (use data r20 room inv(2) fits L in \<open>auto simp: on_disk_def\<close>)
qed

text \<open>The two replies that do not write.\<close>

lemma fs_write_empty_awp:
  assumes "vol v" "sb_layout (fs_sb fs)" "on_disk (ucast ino)" "Q (ReplyWritten 0, fs) v"
  shows "dwp (fs_disk fs) (fs_write fs ino offset []) Q v"
  unfolding fs_write_def [abs_def] Let_def using assms by (intro awp_bind read_inode_awp) (auto intro!: awp_rules)

lemma fs_write_big_awp:
  assumes v: "vol v" "sb_layout (fs_sb fs)" "on_disk (ucast ino)"
    and data: "data \<noteq> []" "10200 < unat offset + length data" "unat offset + length data + 509 < 510 * 2 ^ 32"
    and Q: "Q (ReplyError EFBIG, fs) v"
  shows "dwp (fs_disk fs) (fs_write fs ino offset data) Q v"
proof -
  let ?r = "required_of offset (length data)"
  have ws: "(of_nat (length data) :: u64) \<noteq> 0"
    using data(1,3) by (simp add: word_unat_eq_iff unat_of_nat)
  have "unat ?r = (unat offset + length data + 509) div 510"
    using data(3) by (subst required_of_eq) (simp_all add: div_less_dividend less_mult_imp_div_less)
  moreover have "20 < (unat offset + length data + 509) div 510" using data(2) by simp
  ultimately have r: "?r > MAX_FILE_BLOCKS" by (simp add: MAX_FILE_BLOCKS_def word_less_nat_alt)
  have eq: "fs_write fs ino offset data = (\<lambda>s. do {
      (inode, s) \<leftarrow> read_inode (fs_disk fs) (fs_sb fs) (ucast ino) s;
      Some ((ReplyError EFBIG, fs), s) })"
    using ws r unfolding fs_write_def [abs_def] Let_def required_of_def by simp
  show ?thesis
    unfolding eq using v Q by (intro awp_bind read_inode_awp) (auto intro!: awp_rules)
qed

text \<open>Too few free blocks: \<open>ENOSPC\<close>, and the blocks that were left are gone.\<close>

lemma fs_write_full_awp:
  fixes fs :: "'s SimpleFS" and ino :: u64
  defines "n \<equiv> ucast ino :: u32"
  assumes inv: "file_inv v (fs_sb fs) (inode_at v n)" "on_disk n"
    and data: "data \<noteq> []" "unat offset + length data \<le> 10200"
    and r: "unat (block_count (inode_at v n)) \<le> r" "510 * r < unat offset + length data"
      "grow_need (unat (block_count (inode_at v n))) r = card (free_set v)"
    and used: "allocd v (inode_blk n)"
    and Q: "\<And>sb' v' i'. grown v (inode_at v n) (r - unat (block_count (inode_at v n))) 20480 v' sb' i' \<Longrightarrow>
      free_set v' = {} \<Longrightarrow> inode_at v' n = inode_at v n \<Longrightarrow> Q (ReplyError ENOSPC, fs\<lparr>fs_sb := sb'\<rparr>) v'"
  shows "dwp (fs_disk fs) (fs_write fs ino offset data) Q v"
proof -
  let ?i = "inode_at v n" and ?r = "required_of offset (length data)"
  note f = file_inv_facts [OF inv(1)]
  have lay: "vol v" "sb_layout (fs_sb fs)" using f(1) by (auto simp: alloc_inv_def)
  have no: "inode_no ?i = n" using inode_at_decode(3) [OF lay(1) inv(2)] .
  have req: "unat ?r = (unat offset + length data + 509) div 510"
    using required_of_eq [of offset "length data"] data(2) by simp
  then have r20: "unat ?r \<le> 20" "r < unat ?r" using data(2) r(2) by simp_all
  then have ur: "unat (ucast ?r :: u16) = unat ?r"
    by (simp add: unsigned_ucast_eq unsigned_take_bit_eq take_bit_nat_eq_self)
  have len: "length data < 2 ^ 64" using data(2) by simp
  show ?thesis
    unfolding fs_write_eq [OF data(1) len r20(1)]
  proof (intro awp_bind read_inode_awp lay inv(2) [unfolded n_def], simp only: prod.case, rule awp_bind,
      rule grow_loop_full_awp [where r = r and L = 20480, OF inv(1) [unfolded n_def] order_refl], goal_cases)
    case (7 v1 sb1 i1)
    note fi = file_inv_facts [OF grown_inv [OF 7(1)]]
    have "inode_blk n \<notin> set (file_all v1 i1)"
      using fi(2) grown_fields(1) [OF 7(1)] no by (auto simp: file_wf_def n_def)
    then have "v1 (inode_blk n) = v (inode_blk n)"
      using 7(1) inode_blk_ge [of n] unfolding grown_def by blast
    then have "inode_at v1 n = inode_at v n" by (rule inode_at_cong)
    with Q 7 show ?case by (auto simp: n_def intro: awp_return)
  qed (use r r20 ur no used in \<open>simp_all add: n_def keeps_ino_def room_all\<close>)
qed

text \<open>
  The block for the indirect pointers is allocated after the data block that needs it. If only one
  block is left then, the code unwraps a \<open>None\<close>.
\<close>

lemma attach_block_panics:
  assumes inv: "alloc_inv v sb" and full: "free_set v = {}" and c: "unat (block_count i) = 10"
  shows "dpanics d (attach_block d sb i b) v"
proof -
  have "(ucast (block_count i) :: u32) = 10" using c by (intro unat_eqD) (simp add: ucast_count_lt)
  then have eq: "attach_block d sb i b = (\<lambda>s. do {
      ((r, sb), s) \<leftarrow> allocate_block d sb s;
      indirect \<leftarrow> r;
      indirect_buf \<leftarrow> copy_from_slice (replicate BLOCK_SIZE 0) 0 2 (to_le_bytes 2 (ucast b :: u16));
      (_, s) \<leftarrow> write_block d indirect indirect_buf s;
      Some ((i\<lparr>indirect_block := indirect\<rparr>, sb), s) })"
    by (simp add: attach_block_def [abs_def])
  show ?thesis
    unfolding eq by (rule panics_bind, rule allocate_block_awp [OF inv]) (use full in \<open>auto simp: panics_None free_set_def\<close>)
qed

lemma grow_loop_panics:
  assumes inv: "file_inv v sb i" and used: "allocd v (inode_blk (inode_no i))"
    and c: "unat (block_count i) \<le> 10" "10 < unat req" and free: "card (free_set v) = 11 - unat (block_count i)"
  shows "dpanics d (grow_loop d req sb i) v"
proof -
  have "dpanics d (\<lambda>s. do {
      ((g, sb), s) \<leftarrow> grow_loop d 10 sb i s;
      case g of None \<Rightarrow> Some ((None, sb), s) | Some i \<Rightarrow> grow_loop d req sb i s }) v"
  proof (rule panics_bind, rule grow_loop_awp [OF inv _ order_refl], goal_cases)
    case (4 v1 sb1 i1)
    have i1: "unat (block_count i1) = 10"
      using grown_fields(5) [OF 4(1)] c(1) by (simp add: unat_word_ariths unat_of_nat)
    have one: "card (free_set v1) = 1" using 4(2) c(1) free by (simp add: grow_need_def room_all)
    then obtain y where y: "free_set v1 = {y}" by (auto simp: card_1_singleton_iff)
    have lt: "block_count i1 < req" using i1 c(2) by (simp add: word_less_nat_alt)
    have "dpanics d (grow_loop d req sb1 i1) v1"
      unfolding grow_loop_round [OF lt]
    proof (rule panics_bind, rule allocate_block_awp [OF file_inv_facts(1) [OF grown_inv [OF 4(1)]]], goal_cases)
      case 1
      with y show ?case by simp
    next
      case (2 b v2)
      have "allocd v2 = (\<lambda>x. x = b \<or> allocd v1 x)" using 2(5) by (simp add: bitmap_post_def)
      moreover have "b \<in> free_set v1" using 2(1-3) by (simp add: free_set_def)
      moreover from this have "b = y" using y by simp
      moreover have "x = y" if "x < 20480" "\<not> allocd v1 x" for x using that y by (auto simp: free_set_def)
      ultimately have "free_set v2 = {}" by (auto simp: free_set_def)
      then show ?case by (simp, intro panics_first attach_block_panics [OF 2(6) _ i1])
    qed
    then show ?case by simp
  qed (use c used free in \<open>simp_all add: grow_need_def keeps_ino_def room_all\<close>)
  moreover have "(10 :: u16) \<le> req" using c(2) by (simp add: word_le_nat_alt)
  ultimately show ?thesis by (simp only: grow_loop_split [of 10 req, symmetric])
qed

lemma fs_write_panics:
  fixes fs :: "'s SimpleFS" and ino :: u64
  defines "n \<equiv> ucast ino :: u32"
  assumes inv: "file_inv v (fs_sb fs) (inode_at v n)" "on_disk n"
    and data: "5100 < unat offset + length data" "unat offset + length data \<le> 10200" "data \<noteq> []"
    and c: "unat (block_count (inode_at v n)) \<le> 10" and free: "card (free_set v) = 11 - unat (block_count (inode_at v n))"
    and used: "allocd v (inode_blk n)"
  shows "dpanics (fs_disk fs) (fs_write fs ino offset data) v"
proof -
  let ?i = "inode_at v n" and ?r = "required_of offset (length data)"
  have lay: "vol v" "sb_layout (fs_sb fs)" using file_inv_facts(1) [OF inv(1)] by (auto simp: alloc_inv_def)
  have req: "unat ?r = (unat offset + length data + 509) div 510"
    using required_of_eq [of offset "length data"] data(2) by simp
  then have r: "unat ?r \<le> 20" "10 < unat (ucast ?r :: u16)" using data(1,2)
    by (simp_all add: unsigned_ucast_eq unsigned_take_bit_eq take_bit_nat_eq_self)
  have len: "length data < 2 ^ 64" using data(2) by simp
  have "inode_no ?i = n" using inode_at_decode(3) [OF lay(1) inv(2)] .
  then have "dpanics (fs_disk fs) (grow_loop (fs_disk fs) (ucast ?r) (fs_sb fs) ?i) v"
    using inv c r free used by (intro grow_loop_panics) auto
  with lay inv(2) show ?thesis
    unfolding fs_write_eq [OF data(3) len r(1)] n_def
    by (intro panics_bind read_inode_awp) (simp_all, rule panics_first)
qed

end
