(* ===== verification/File_Image.thy ===== *)
theory File_Image
  imports File_Handlers Memory_Host
begin

text \<open>
  Images of the memory host with one empty file, inode 1000: the formatted image with that file,
  and the same image with a nearly full bitmap. The instances of the theorems about files use them.
\<close>

lemma mem_file_inv: "file_inv file_vol (fs_sb fmt_fs) (inode_at file_vol (ucast (1000 :: u64)))"
  using file_alloc_inv disk_ok_vol [OF file_state_ok]
  by (simp add: file_inv_def file_wf_def file_all_def file_blocks_def)

lemma mem_file_contents: "file_contents file_vol (inode_at file_vol (ucast (1000 :: u64))) = []"
  by (simp add: file_contents_def)

lemma mem_file_room: "room file_vol (inode_blk (ucast (1000 :: u64))) = 140"
proof -
  have "{x. x < 172 \<and> \<not> allocd file_vol x} = {32..<172}" using file_allocd by auto
  then show ?thesis by (simp add: room_def)
qed

text \<open>The image on which all blocks are used but those of the bytes \<open>a\<close> and \<open>b\<close>, for the blocks 32 to 47, \<open>k\<close> in all.\<close>

definition full_sb :: "u32 \<Rightarrow> SuperBlock" where "full_sb k = fmt_sb\<lparr>free_blocks := k\<rparr>"

definition full_bits :: "byte \<Rightarrow> byte \<Rightarrow> byte list" where "full_bits a b = (replicate 512 0xFF)[4 := a, 5 := b]"

definition full_run :: "u32 \<Rightarrow> byte \<Rightarrow> byte \<Rightarrow> mem \<Rightarrow> (unit \<times> mem) option" where
  "full_run k a b s = do {
     (_, s) \<leftarrow> write_block mem_disk 0 (sb_block (full_sb k)) s;
     (_, s) \<leftarrow> write_block mem_disk 1 (full_bits a b) s;
     (_, s) \<leftarrow> write_block mem_disk 2 (replicate 512 0xFF) s;
     (_, s) \<leftarrow> write_block mem_disk 3 (replicate 512 0xFF) s;
     (_, s) \<leftarrow> write_block mem_disk 4 (replicate 512 0xFF) s;
     write_block mem_disk 5 (replicate 512 0xFF) s }"

definition full_state :: "u32 \<Rightarrow> byte \<Rightarrow> byte \<Rightarrow> mem" where "full_state k a b = snd (the (full_run k a b file_state))"

definition full_vol :: "u32 \<Rightarrow> byte \<Rightarrow> byte \<Rightarrow> volume" where
  "full_vol k a b = file_vol(0 := sb_block (full_sb k), 1 := full_bits a b, 2 := replicate 512 0xFF,
     3 := replicate 512 0xFF, 4 := replicate 512 0xFF, 5 := replicate 512 0xFF)"

lemma full_layout: "sb_layout (full_sb k)" "sb_wf (full_sb k)"
  using fmt_inv(3) by (simp_all add: full_sb_def sb_layout_def sb_wf_def)

lemma full_state_facts:
  shows full_ok: "disk_ok mem_disk (full_state k a b)" and full_blocks: "blocks mem_disk (full_state k a b) = full_vol k a b"
proof -
  have "dwp mem_disk (full_run k a b) (\<lambda>_ v. v = full_vol k a b) file_vol"
    unfolding full_run_def [abs_def] using full_layout(2) [of k]
    by (auto simp: full_vol_def full_bits_def intro!: awp_bind write_block_awp)
  from dwp_run [OF this file_state_ok]
  show "disk_ok mem_disk (full_state k a b)" "blocks mem_disk (full_state k a b) = full_vol k a b"
    by (auto simp: full_state_def)
qed

lemma full_allocd:
  assumes x: "x < 20480"
  shows "allocd (full_vol k a b) x \<longleftrightarrow> (x div 8 = 4 \<longrightarrow> bit a (x mod 8)) \<and> (x div 8 = 5 \<longrightarrow> bit b (x mod 8))"
proof -
  have m: "x mod 8 < 8" "x div 8 mod 512 < 512" by simp_all
  have ff: "bit (0xFF :: byte) (x mod 8)" by (rule bit_full_byte) simp
  consider "x div 4096 = 0" | "x div 4096 = 1" | "x div 4096 = 2" | "x div 4096 = 3" | "x div 4096 = 4"
    using x by fastforce
  then show ?thesis
  proof cases
    case 1
    then have "x < 4096" "x div 8 mod 512 = x div 8" by simp_all
    with 1 m ff show ?thesis by (auto simp: allocd_def full_vol_def full_bits_def nth_list_update)
  qed (use m ff x in \<open>auto simp: allocd_def full_vol_def\<close>)
qed

lemma full_inode: "inode_at (full_vol k a b) 1000 = mem_inode"
proof -
  have "inode_at (full_vol k a b) 1000 = inode_at file_vol 1000"
    by (rule inode_at_cong) (simp add: full_vol_def)
  then show ?thesis by simp
qed

lemma full_file:
  assumes "card (free_set (full_vol k a b)) = unat k"
  shows "file_inv (full_vol k a b) (full_sb k) mem_inode"
proof -
  have v: "vol (full_vol k a b)" using disk_ok_vol [OF full_ok, of k a b] by (simp add: full_blocks)
  have "allocd (full_vol k a b) x" if "x < 31" for x
  proof -
    have "x div 8 < 4" using that by (simp add: less_mult_imp_div_less)
    with that show ?thesis by (simp add: full_allocd)
  qed
  with v full_layout assms have "alloc_inv (full_vol k a b) (full_sb k)"
    by (auto simp: alloc_inv_def) (simp_all add: full_vol_def full_sb_def)
  with v show ?thesis by (simp add: file_inv_def file_wf_def file_all_def file_blocks_def)
qed

text \<open>Two instances: only block 32 is free; only the eleven blocks 32 to 42 are.\<close>

lemma bits_from: "k < 8 \<Longrightarrow> bit (0xFE :: byte) k \<longleftrightarrow> 1 \<le> k" "k < 8 \<Longrightarrow> bit (0xF8 :: byte) k \<longleftrightarrow> 3 \<le> k"
  by (simp_all add: numeral_eq_Suc less_Suc_eq) auto

lemma full_one: "x < 20480 \<Longrightarrow> allocd (full_vol 1 0xFE 0xFF) x \<longleftrightarrow> x \<noteq> 32"
proof -
  assume x: "x < 20480"
  have "x div 8 = 4 \<and> x mod 8 < 1 \<longleftrightarrow> x = 32" by presburger
  moreover have "bit (0xFF :: byte) (x mod 8)" by (rule bit_full_byte) simp
  ultimately show ?thesis using x bits_from(1) [of "x mod 8"] by (auto simp: full_allocd not_le)
qed

lemma full_eleven: "x < 20480 \<Longrightarrow> allocd (full_vol 11 0 0xF8) x \<longleftrightarrow> x \<notin> {32..<43}"
proof -
  assume x: "x < 20480"
  have "x div 8 = 4 \<or> x div 8 = 5 \<and> x mod 8 < 3 \<longleftrightarrow> 32 \<le> x \<and> x < 43" by presburger
  with x bits_from(2) [of "x mod 8"] show ?thesis by (auto simp: full_allocd not_le)
qed

lemma full_free: "free_set (full_vol 1 0xFE 0xFF) = {32}" "free_set (full_vol 11 0 0xF8) = {32..<43}"
  using full_one full_eleven by (auto simp: free_set_def)

lemma full_room: "room (full_vol 1 0xFE 0xFF) 172 = 1" "room (full_vol 11 0 0xF8) 172 = 11"
proof -
  have "{x. x < 172 \<and> \<not> allocd (full_vol 1 0xFE 0xFF) x} = {32}"
      "{x. x < 172 \<and> \<not> allocd (full_vol 11 0 0xF8) x} = {32..<43}"
    using full_one full_eleven by auto
  then show "room (full_vol 1 0xFE 0xFF) 172 = 1" "room (full_vol 11 0 0xF8) 172 = 11" by (simp_all add: room_def)
qed

end
