(* ===== verification/Consistency.thy ===== *)
theory Consistency
  imports File_Handlers
begin

text \<open>
  The file system as a whole: which inode numbers are in use, which blocks an inode owns, and the
  invariant of the storage, that every live inode is a well-formed directory or file, that no
  block has two owners and that none is marked as used without an owner. \<open>op_frame\<close> says that
  an operation touched a given set of inodes only; \<open>store_ok_frame\<close> turns it into the invariant.
\<close>

lemma dir_inv_blocks:
  assumes "dir_inv v sb i"
  shows "inode_wf i" "on_disk (inode_no i)" "inode_blk (inode_no i) \<notin> unat ` set (dir_blocks i)"
    "\<forall>b \<in> set (dir_blocks i). allocd v (unat b) \<and> 31 \<le> unat b \<and> unat b < 20480"
  using assms by (auto simp: dir_inv_def dir_wf_def dir_clear_def)

section \<open>Inode numbers and the blocks below the inodes\<close>

text \<open>
  The inode numbers in use are 1 (the root) and those that \<open>mkdir\<close> and \<open>create\<close> choose. The
  blocks of the latter begin at 89. While every block in use lies below 89, data blocks and
  inodes do not collide; \<open>room v 89\<close> is the number of blocks left before they can.
\<close>

definition valid_ino :: "u32 \<Rightarrow> bool" where
  "valid_ino n \<longleftrightarrow> n = 1 \<or> 500 \<le> unat n \<and> unat n \<le> 900 \<or> 1000 \<le> unat n \<and> unat n \<le> 2000"

text \<open>No inode but that of the root is in use.\<close>

definition only_root :: "volume \<Rightarrow> bool" where
  "only_root v \<longleftrightarrow> (\<forall>n. valid_ino n \<and> n \<noteq> 1 \<longrightarrow> nlink (inode_at v n) = 0)"

definition low_use :: "volume \<Rightarrow> bool" where
  "low_use v \<longleftrightarrow> (\<forall>x < 20480. allocd v x \<longrightarrow> x < 89)"

lemma valid_ino_blk:
  assumes "valid_ino n"
  shows "on_disk n" "inode_blk n < 31 \<or> 89 \<le> inode_blk n" "inode_blk n \<le> 339"
proof -
  have "inode_blk n = 6 \<or> 89 \<le> inode_blk n \<and> inode_blk n \<le> 339"
    using assms by (auto simp: valid_ino_def inode_blk_def)
  then show "on_disk n" "inode_blk n < 31 \<or> 89 \<le> inode_blk n" "inode_blk n \<le> 339"
    by (auto simp: on_disk_def)
qed

lemma only_root_cong:
  assumes "\<And>x. 32 \<le> x \<Longrightarrow> v' x = v x"
  shows "only_root v' = only_root v"
proof -
  have "inode_at v' n = inode_at v n" if "valid_ino n" "n \<noteq> 1" for n
    using that by (intro inode_at_cong assms) (auto simp: valid_ino_def inode_blk_def)
  then show ?thesis by (auto simp: only_root_def)
qed

lemma zero_only_root:
  assumes "zero_from 32 v"
  shows "only_root v"
proof -
  have "nlink (inode_at v n) = 0" if "valid_ino n" "n \<noteq> 1" for n
  proof (rule inode_at_zero_block)
    have "32 \<le> inode_blk n" using that by (auto simp: valid_ino_def inode_blk_def)
    with valid_ino_blk(3) [OF that(1)] assms show "v (inode_blk n) = replicate 512 0" by (simp add: zero_from_def)
  qed
  then show ?thesis by (simp add: only_root_def)
qed

lemma next_free_low: "0 < room v 89 \<Longrightarrow> next_free v b \<Longrightarrow> b < 89"
  using room_pos [of v 89 b] by (simp add: next_free_def)

lemma next_free_data: "alloc_inv v sb \<Longrightarrow> next_free v b \<Longrightarrow> 31 \<le> b"
  by (auto simp: alloc_inv_def next_free_def not_less [symmetric])

lemma next_free_not_inode:
  assumes "alloc_inv v sb" "0 < room v 89" "valid_ino n"
  shows "\<not> next_free v (inode_blk n)"
  using next_free_low [OF assms(2)] next_free_data [OF assms(1)] valid_ino_blk(2) [OF assms(3)] by fastforce

lemma dir_inv_cong:
  assumes inv: "dir_inv v sb i" and inv': "alloc_inv v' sb'"
    and bl: "\<And>b. b \<in> set (dir_blocks i) \<Longrightarrow> v' (unat b) = v (unat b) \<and> allocd v' (unat b)"
  shows "dir_inv v' sb' i" "dir_map v' i = dir_map v i"
proof -
  have "dir_slots v' i = dir_slots v i" using bl by (intro dir_slots_cong) auto
  then have e: "dir_entries v' i = dir_entries v i" by (simp add: dir_entries_def)
  with inv inv' bl show "dir_inv v' sb' i" by (simp add: dir_inv_def dir_wf_def names_distinct_def)
  from e show "dir_map v' i = dir_map v i" by (simp add: dir_map_def fun_eq_iff)
qed

lemma dir_blocks_low: "dir_inv v sb i \<Longrightarrow> low_use v \<Longrightarrow> b \<in> set (dir_blocks i) \<Longrightarrow> unat b < 89"
  using dir_inv_blocks(4) [of v sb i] by (auto simp: low_use_def)

lemma dir_inode_not_data:
  assumes "dir_inv v sb i" "low_use v" "valid_ino n"
  shows "inode_blk n \<notin> unat ` set (dir_blocks i)"
  using dir_blocks_low [OF assms(1,2)] dir_inv_blocks(4) [OF assms(1)] valid_ino_blk(2) [OF assms(3)] by fastforce

lemma dir_room_low: "dir_inv v sb i \<Longrightarrow> 0 < room v 89 \<Longrightarrow> valid_ino (inode_no i) \<Longrightarrow> dir_room v i"
  using next_free_not_inode [of v sb "inode_no i"] by (simp add: dir_room_def dir_inv_def)

section \<open>Live inodes, the blocks they own, and the storage invariant\<close>

definition live :: "volume \<Rightarrow> u32 \<Rightarrow> bool" where
  "live v n \<longleftrightarrow> valid_ino n \<and> nlink (inode_at v n) \<noteq> 0"

definition is_dir_at :: "volume \<Rightarrow> u32 \<Rightarrow> bool" where
  "is_dir_at v n \<longleftrightarrow> mode (inode_at v n) AND S_IFDIR \<noteq> 0"

definition owned :: "volume \<Rightarrow> u32 \<Rightarrow> nat set" where
  "owned v n = (if is_dir_at v n then unat ` set (dir_blocks (inode_at v n)) else set (file_all v (inode_at v n)))"

definition node_inv :: "volume \<Rightarrow> SuperBlock \<Rightarrow> u32 \<Rightarrow> bool" where
  "node_inv v sb n \<longleftrightarrow>
     (if is_dir_at v n then dir_inv v sb (inode_at v n) else file_inv v sb (inode_at v n))"

definition store_ok :: "volume \<Rightarrow> SuperBlock \<Rightarrow> bool" where
  "store_ok v sb \<longleftrightarrow> alloc_inv v sb \<and> low_use v \<and> (\<forall>n. live v n \<longrightarrow> node_inv v sb n) \<and>
     (\<forall>n m. live v n \<and> live v m \<and> n \<noteq> m \<longrightarrow> owned v n \<inter> owned v m = {}) \<and>
     (\<forall>x < 20480. allocd v x \<and> 31 \<le> x \<longrightarrow> (\<exists>n. live v n \<and> x \<in> owned v n))"

text \<open>The view of the disk that users have: the directories and files by inode number.\<close>

datatype node = Dir "str \<Rightarrow> (u32 \<times> byte) option" | File "byte list"

type_synonym tree = "u32 \<Rightarrow> node option"

definition node_at :: "volume \<Rightarrow> u32 \<Rightarrow> node" where
  "node_at v n = (if is_dir_at v n then Dir (dir_map v (inode_at v n)) else File (file_contents v (inode_at v n)))"

definition view :: "volume \<Rightarrow> tree" where
  "view v n = (if live v n then Some (node_at v n) else None)"

section \<open>Lemmas: nodes that an operation does not touch\<close>

lemma owned_data:
  assumes "node_inv v sb n" "x \<in> owned v n"
  shows "31 \<le> x" "x < 20480" "allocd v x"
  using assms dir_inv_blocks(4) [of v sb "inode_at v n"] file_inv_facts(3) [of v sb "inode_at v n"]
  by (auto simp: node_inv_def owned_def split: if_splits)

lemma file_inv_cong:
  assumes inv: "file_inv v sb i" and inv': "alloc_inv v' sb'"
    and bl: "\<And>x. x \<in> set (file_all v i) \<Longrightarrow> v' x = v x \<and> allocd v' x"
  shows "file_inv v' sb' i" "file_all v' i = file_all v i" "file_contents v' i = file_contents v i"
proof -
  have "indirect_block i \<noteq> 0 \<longrightarrow> v' (unat (indirect_block i)) = v (unat (indirect_block i))"
    using inv bl by (auto simp: file_inv_def file_wf_def file_all_def)
  note c = file_blocks_cong [of i v' v, OF this]
  show all: "file_all v' i = file_all v i" by (rule c(3))
  have "map (\<lambda>b. take 510 (v' b)) (file_blocks v i) = map (\<lambda>b. take 510 (v b)) (file_blocks v i)"
    using bl by (auto simp: file_all_def)
  then have d: "file_data v' i = file_data v i" by (simp add: file_data_def data_of_def c(2) cong: map_cong)
  then show "file_contents v' i = file_contents v i" by (simp add: file_contents_def)
  have "vol v'" using inv' by (simp add: alloc_inv_def)
  with inv inv' bl d all c(1) show "file_inv v' sb' i" by (simp add: file_inv_def file_wf_def)
qed

lemma node_cong:
  assumes inv: "node_inv v sb n" and inv': "alloc_inv v' sb'" and at: "inode_at v' n = inode_at v n"
    and bl: "\<And>x. x \<in> owned v n \<Longrightarrow> v' x = v x \<and> allocd v' x"
  shows "node_inv v' sb' n" "owned v' n = owned v n" "node_at v' n = node_at v n"
proof -
  have d: "is_dir_at v' n = is_dir_at v n" by (simp add: is_dir_at_def at)
  show "node_inv v' sb' n" "owned v' n = owned v n" "node_at v' n = node_at v n"
    using inv bl dir_inv_cong [OF _ inv', of v sb "inode_at v n"] file_inv_cong [OF _ inv', of v sb "inode_at v n"]
    by (auto simp: node_inv_def owned_def node_at_def d at split: if_splits)
qed

section \<open>The frame of an operation on a set of inodes\<close>

definition owns :: "volume \<Rightarrow> u32 set \<Rightarrow> nat set" where
  "owns v N = (\<Union>n \<in> {n \<in> N. live v n}. owned v n)"

text \<open>
  Other inodes keep their contents, other used blocks keep theirs and stay used, no used block is
  left without an owner, and the touched inodes own only blocks that they had or that were free.
\<close>

definition op_frame :: "volume \<Rightarrow> u32 set \<Rightarrow> volume \<Rightarrow> bool" where
  "op_frame v N v' \<longleftrightarrow> (\<forall>m. valid_ino m \<and> m \<notin> N \<longrightarrow> inode_at v' m = inode_at v m) \<and>
     (\<forall>x. 31 \<le> x \<and> x < 89 \<and> allocd v x \<and> x \<notin> owns v N \<longrightarrow> v' x = v x \<and> allocd v' x) \<and>
     (\<forall>x < 20480. 31 \<le> x \<and> allocd v' x \<longrightarrow> allocd v x \<and> x \<notin> owns v N \<or> x \<in> owns v' N) \<and>
     (\<forall>x \<in> owns v' N. \<not> allocd v x \<or> x \<in> owns v N)"

text \<open>A consistent result in which only the inodes of \<open>N\<close> may have changed.\<close>

definition store_step :: "volume \<Rightarrow> u32 set \<Rightarrow> volume \<Rightarrow> SuperBlock \<Rightarrow> bool" where
  "store_step v N v' sb' \<longleftrightarrow> store_ok v' sb' \<and> (\<forall>m. valid_ino m \<and> m \<notin> N \<longrightarrow> inode_at v' m = inode_at v m) \<and>
     (\<forall>n. n \<notin> N \<longrightarrow> view v' n = view v n)"

lemma store_step_trans:
  "store_step v N v1 sb1 \<Longrightarrow> store_step v1 M v2 sb2 \<Longrightarrow> N \<union> M \<subseteq> L \<Longrightarrow> store_step v L v2 sb2"
  unfolding store_step_def by (metis UnCI subsetD)

lemma store_step_refl: "store_ok v sb \<Longrightarrow> store_step v N v sb"
  by (simp add: store_step_def)

lemma store_stepD:
  assumes "store_step v N v' sb'"
  shows "store_ok v' sb'" "\<And>m. valid_ino m \<Longrightarrow> m \<notin> N \<Longrightarrow> inode_at v' m = inode_at v m"
    "\<And>n. n \<notin> N \<Longrightarrow> view v' n = view v n"
  using assms by (auto simp: store_step_def)

lemma store_step_view: "store_step v {c} v' sb' \<Longrightarrow> view v' c = x \<Longrightarrow> view v' = (view v)(c := x)"
  by (auto simp: store_step_def)

lemma op_frameD:
  assumes "op_frame v N v'"
  shows "\<And>m. valid_ino m \<Longrightarrow> m \<notin> N \<Longrightarrow> inode_at v' m = inode_at v m"
    "\<And>x. 31 \<le> x \<Longrightarrow> x < 89 \<Longrightarrow> allocd v x \<Longrightarrow> x \<notin> owns v N \<Longrightarrow> v' x = v x \<and> allocd v' x"
    "\<And>x. x < 20480 \<Longrightarrow> 31 \<le> x \<Longrightarrow> allocd v' x \<Longrightarrow> allocd v x \<and> x \<notin> owns v N \<or> x \<in> owns v' N"
    "\<And>x. x \<in> owns v' N \<Longrightarrow> \<not> allocd v x \<or> x \<in> owns v N"
  using assms by (auto simp: op_frame_def)

lemma store_okD:
  assumes "store_ok v sb"
  shows "alloc_inv v sb" "low_use v" "\<And>n. live v n \<Longrightarrow> node_inv v sb n"
    "\<And>n m. live v n \<Longrightarrow> live v m \<Longrightarrow> n \<noteq> m \<Longrightarrow> owned v n \<inter> owned v m = {}"
    "\<And>x. x < 20480 \<Longrightarrow> allocd v x \<Longrightarrow> 31 \<le> x \<Longrightarrow> \<exists>n. live v n \<and> x \<in> owned v n"
  using assms by (auto simp: store_ok_def)

lemma store_ok_frame:
  assumes ok: "store_ok v sb" and inv': "alloc_inv v' sb'" "low_use v'" and fr: "op_frame v N v'"
    and N: "\<And>n. n \<in> N \<Longrightarrow> live v' n \<Longrightarrow> node_inv v' sb' n"
    and dis: "\<And>n m. n \<in> N \<Longrightarrow> m \<in> N \<Longrightarrow> live v' n \<Longrightarrow> live v' m \<Longrightarrow> n \<noteq> m \<Longrightarrow> owned v' n \<inter> owned v' m = {}"
  shows "store_step v N v' sb'"
proof -
  note o = store_okD [OF ok] and f = op_frameD [OF fr]
  have lv: "live v' n = live v n" if "n \<notin> N" for n using that f(1) by (auto simp: live_def)
  have sep: "owned v n \<inter> owns v N = {}" if "n \<notin> N" "live v n" for n
    using that o(4) by (fastforce simp: owns_def)
  have keep: "node_inv v' sb' n \<and> owned v' n = owned v n \<and> node_at v' n = node_at v n" if n: "n \<notin> N" "live v n" for n
  proof -
    have "v' x = v x \<and> allocd v' x" if "x \<in> owned v n" for x
    proof (rule f(2))
      show "31 \<le> x" "allocd v x" using owned_data [OF o(3) [OF n(2)] that] by auto
      with owned_data(2) [OF o(3) [OF n(2)] that] o(2) show "x < 89" by (simp add: low_use_def)
      show "x \<notin> owns v N" using sep [OF n] that by auto
    qed
    moreover have "inode_at v' n = inode_at v n" using f(1) n by (simp add: live_def)
    ultimately show ?thesis using node_cong [OF o(3) [OF n(2)] inv'(1)] by blast
  qed
  then have vw: "view v' n = view v n" if "n \<notin> N" for n using that lv by (simp add: view_def)
  have cross: "owned v' n \<inter> owned v' m = {}" if "n \<in> N" "m \<notin> N" "live v' n" "live v' m" for n m
  proof -
    have m: "live v m" "owned v' m = owned v m" using that lv keep by auto
    have "x \<notin> owned v m" if x: "x \<in> owned v' n" for x
    proof -
      have "x \<in> owns v' N" using x that \<open>n \<in> N\<close> \<open>live v' n\<close> by (auto simp: owns_def)
      then have "\<not> allocd v x \<or> x \<in> owns v N" by (rule f(4))
      then show ?thesis using owned_data(3) [OF o(3) [OF m(1)]] sep [OF \<open>m \<notin> N\<close> m(1)] by blast
    qed
    with m show ?thesis by auto
  qed
  have "owned v' n \<inter> owned v' m = {}" if "live v' n" "live v' m" "n \<noteq> m" for n m
  proof (cases "n \<in> N"; cases "m \<in> N")
    assume "n \<notin> N" "m \<notin> N" then show ?thesis using that lv keep o(4) by simp
  next
    assume "n \<notin> N" "m \<in> N" then show ?thesis using that cross [of m n] by blast
  qed (use that cross dis in auto)
  moreover have "\<exists>n. live v' n \<and> x \<in> owned v' n" if x: "x < 20480" "allocd v' x" "31 \<le> x" for x
  proof (cases "x \<in> owns v' N")
    case False
    with f(3) x have "allocd v x" "x \<notin> owns v N" by auto
    then obtain n where "live v n" "x \<in> owned v n" "n \<notin> N" using o(5) x by (fastforce simp: owns_def)
    then show ?thesis using lv keep by blast
  qed (auto simp: owns_def)
  moreover have "node_inv v' sb' n" if "live v' n" for n using that N keep lv by (cases "n \<in> N") auto
  ultimately have "store_ok v' sb'" using inv' by (simp add: store_ok_def)
  with vw f(1) show ?thesis by (auto simp: store_step_def)
qed

end
