(* ===== verification/Handlers.thy ===== *)
theory Handlers
  imports Consistency
begin

text \<open>
  The handlers of \<open>src/src/fs.rs\<close> that read and change directories, and those that read and change
  the attributes of an inode. \<open>dir_changed\<close> says what an operation on one directory leaves alone.
\<close>

section \<open>Specification vocabulary\<close>

text \<open>
  The directory \<open>i\<close> has become \<open>i'\<close>: its inode is stored, its blocks may have grown by the next free
  block, every other block of the volume and every other inode outside its blocks is unchanged.
\<close>

definition dir_changed :: "volume \<Rightarrow> Inode \<Rightarrow> volume \<Rightarrow> Inode \<Rightarrow> bool" where
  "dir_changed v i v' i' \<longleftrightarrow> inode_at v' (inode_no i) = i' \<and> inode_no i' = inode_no i \<and> nlink i' = nlink i \<and> mode i' = mode i \<and>
     set (dir_blocks i) \<subseteq> set (dir_blocks i') \<and>
     (\<forall>x \<ge> 6. x \<notin> unat ` set (dir_blocks i') \<and> x \<noteq> inode_blk (inode_no i) \<longrightarrow> v' x = v x) \<and>
     (\<forall>m. on_disk m \<and> m \<noteq> inode_no i \<and> inode_blk m \<notin> unat ` set (dir_blocks i') \<longrightarrow> inode_at v' m = inode_at v m) \<and>
     (\<forall>x < 20480. allocd v' x \<longleftrightarrow> allocd v x \<or> x \<in> unat ` set (dir_blocks i')) \<and>
     (\<forall>x \<in> unat ` (set (dir_blocks i') - set (dir_blocks i)). next_free v x)"

section \<open>Lemmas: the frame of the directory operations\<close>

lemma dir_changedI:
  assumes w: "vol w" and i': "inode_wf i'" "on_disk (inode_no i)" "inode_no i' = inode_no i" "nlink i' = nlink i" "mode i' = mode i"
    and bl: "set (dir_blocks i) \<subseteq> set (dir_blocks i')" "inode_blk (inode_no i) \<notin> unat ` set (dir_blocks i')"
    and frame: "\<And>x. 6 \<le> x \<Longrightarrow> x \<notin> unat ` set (dir_blocks i') \<Longrightarrow> w x = v x"
    and al: "\<And>x. x < 20480 \<Longrightarrow> allocd w x \<longleftrightarrow> allocd v x \<or> x \<in> unat ` set (dir_blocks i')"
    and new: "\<And>b. b \<in> set (dir_blocks i') \<Longrightarrow> b \<notin> set (dir_blocks i) \<Longrightarrow> next_free v (unat b)"
  shows "dir_changed v i (put_inode w i') i'"
proof -
  have at: "inode_at (put_inode w i') m = (if m = inode_no i then i' else inode_at w m)" if "on_disk m" for m
    using inode_at_put_inode [OF w _ i'(1) that] i'(2,3) by simp
  have 1: "inode_at (put_inode w i') (inode_no i) = i'" using at [OF i'(2)] by simp
  have 2: "inode_at (put_inode w i') m = inode_at v m"
    if "on_disk m" "m \<noteq> inode_no i" "inode_blk m \<notin> unat ` set (dir_blocks i')" for m
    using at [OF that(1)] that inode_at_cong [of w m v] frame by simp
  have 3: "allocd (put_inode w i') x \<longleftrightarrow> allocd v x \<or> x \<in> unat ` set (dir_blocks i')" if "x < 20480" for x
    using that allocd_cong [of "put_inode w i'" w x] al by (simp add: put_inode_low)
  have 4: "put_inode w i' x = v x"
    if "6 \<le> x" "x \<notin> unat ` set (dir_blocks i')" "x \<noteq> inode_blk (inode_no i)" for x
    using that frame i'(3) by simp
  show ?thesis
    unfolding dir_changed_def using 1 2 3 4 new i'(3-5) bl(1) by blast
qed

lemma dir_changed_slot:
  assumes inv: "dir_inv v sb i" and b: "b \<in> set (dir_blocks i)" and buf: "length buf = 512"
  shows "dir_changed v i (put_inode (v(unat b := buf)) (i\<lparr>mtime := t\<rparr>)) (i\<lparr>mtime := t\<rparr>)"
proof (rule dir_changedI)
  note d = dir_inv_blocks [OF inv]
  show "vol (v(unat b := buf))" using dir_inv_facts(4) [OF inv] buf by simp
  show "allocd (v(unat b := buf)) x \<longleftrightarrow> allocd v x \<or> x \<in> unat ` set (dir_blocks (i\<lparr>mtime := t\<rparr>))" if "x < 20480" for x
  proof -
    have "allocd (v(unat b := buf)) x = allocd v x"
      using that d(4) b by (intro allocd_cong) auto
    with d(4) show ?thesis by auto
  qed
qed (use dir_inv_blocks [OF inv] b in auto)

lemma dir_changed_grow:
  assumes inv: "dir_inv v sb i" and room: "dir_room v i" and c: "unat (block_count i) < 10"
    and b: "31 \<le> b" "b < 20480" "\<not> allocd v b" "\<forall>x < b. allocd v x"
    and post: "bitmap_post v sb' (\<lambda>x. x = b \<or> allocd v x) v1" and buf: "length buf = 512"
  shows "dir_changed v i (put_inode (v1(b := buf)) (add_grown i (of_nat b) t)) (add_grown i (of_nat b) t)"
proof (rule dir_changedI)
  note d = dir_inv_blocks [OF inv]
  have ub: "unat (of_nat b :: u32) = b" using b(2) by (simp add: unat_of_nat)
  have bl: "dir_blocks (add_grown i (of_nat b) t) = dir_blocks i @ [of_nat b]"
    using dir_blocks_grown [of v i] dir_inv_facts(2) [OF inv] c by simp
  have p: "vol v1" "allocd v1 = (\<lambda>x. x = b \<or> allocd v x)" "\<And>x. 6 \<le> x \<Longrightarrow> v1 x = v x"
    using post by (auto simp: bitmap_post_def)
  show "vol (v1(b := buf))" using p(1) buf by simp
  show "set (dir_blocks i) \<subseteq> set (dir_blocks (add_grown i (of_nat b) t))" by (auto simp: bl)
  show "inode_blk (inode_no i) \<notin> unat ` set (dir_blocks (add_grown i (of_nat b) t))"
    using d(3) room b by (auto simp: bl ub dir_room_def next_free_def)
  show "(v1(b := buf)) x = v x" if "6 \<le> x" "x \<notin> unat ` set (dir_blocks (add_grown i (of_nat b) t))" for x
    using that p(3) by (auto simp: bl ub)
  show "allocd (v1(b := buf)) x \<longleftrightarrow> allocd v x \<or> x \<in> unat ` set (dir_blocks (add_grown i (of_nat b) t))" if "x < 20480" for x
  proof -
    have "allocd (v1(b := buf)) x = allocd v1 x" using that b(1) by (intro allocd_cong) auto
    with d(4) show ?thesis by (auto simp: p(2) bl ub)
  qed
  show "next_free v (unat c)" if "c \<in> set (dir_blocks (add_grown i (of_nat b) t))" "c \<notin> set (dir_blocks i)" for c
    using that b by (auto simp: bl ub next_free_def)
qed (use dir_inv_blocks [OF inv] in \<open>auto simp: add_grown_def inode_wf_def\<close>)

text \<open>A directory without an empty slot, and the most entries that one can hold.\<close>

lemma dir_entries_card:
  assumes "dir_inv v sb i"
  shows "card (dom (dir_map v i)) = length (dir_entries v i)"
proof -
  have "dom (dir_map v i) = set (map (\<lambda>x. entry_name (fst x)) (dir_entries v i))"
    by (force simp: dir_map_def dom_def find_Some_iff find_None_iff in_set_conv_nth)
  moreover have "distinct (map (\<lambda>x. entry_name (fst x)) (dir_entries v i))"
    using assms by (simp add: dir_inv_def names_distinct_def)
  ultimately show ?thesis using distinct_card by fastforce
qed

lemma dir_slots_length:
  assumes "dir_wf v i"
  shows "length (dir_slots v i) = 15 * unat (block_count i)"
proof -
  have "length (dir_slots v i) = (\<Sum>b\<leftarrow>dir_blocks i. 15)"
    by (simp add: dir_slots_def length_concat comp_def block_slots_def)
  with length_dir_blocks [OF assms] show ?thesis by (simp add: sum_list_triv)
qed

lemma dir_card_le:
  assumes "dir_inv v sb i"
  shows "card (dom (dir_map v i)) \<le> 150"
proof -
  have wf: "dir_wf v i" using assms by (simp add: dir_inv_def)
  have "length (dir_entries v i) \<le> length (dir_slots v i)" by (simp add: dir_entries_def)
  with dir_slots_length [OF wf] wf dir_entries_card [OF assms] show ?thesis by (simp add: dir_wf_def)
qed

lemma dir_full_card:
  assumes "dir_inv v sb i"
    and "\<And>b j. b \<in> set (dir_blocks i) \<Longrightarrow> j < 15 \<Longrightarrow> \<not> is_empty (slot (v (unat b)) j)"
  shows "card (dom (dir_map v i)) = 15 * unat (block_count i)"
proof -
  have wf: "dir_wf v i" using assms by (simp add: dir_inv_def)
  have "dir_entries v i = dir_slots v i"
    unfolding dir_entries_def filter_id_conv using assms(2) by (auto simp: dir_slots_def block_slots_def)
  with dir_slots_length [OF wf] dir_entries_card [OF assms(1)] show ?thesis by simp
qed

lemma dir_free_card:
  assumes "dir_inv v sb i" "b \<in> set (dir_blocks i)" "j < 15" "is_empty (slot (v (unat b)) j)"
  shows "card (dom (dir_map v i)) < 15 * unat (block_count i)"
proof -
  have wf: "dir_wf v i" using assms by (simp add: dir_inv_def)
  have "(slot (v (unat b)) j, b, j * 34) \<in> set (dir_slots v i)"
    using assms(2,3) by (force simp: dir_slots_def block_slots_def)
  then have "length (filter (\<lambda>x. \<not> is_empty (fst x)) (dir_slots v i)) < length (dir_slots v i)"
    by (rule length_filter_less) (use assms(4) in simp)
  with dir_slots_length [OF wf] dir_entries_card [OF assms(1)] show ?thesis by (simp add: dir_entries_def)
qed

lemma dir_add_entry_full:
  assumes inv: "dir_inv v sb i" and n: "name_ok n" "dir_map v i n = None" and room: "dir_room v i"
  shows "dwp d (dir_add_entry d sb i n c isd) (\<lambda>(r, sb', i') v'. dir_inv v' sb' i' \<and>
      (case r of
         Inr _ \<Rightarrow> dir_map v' i' = (dir_map v i)(n \<mapsto> (c, if isd then 2 else 1)) \<and> dir_changed v i v' i' \<and>
           meta_of i' = enter_meta (card (dom (dir_map v i))) (meta_of i)
       | Inl e \<Rightarrow> v' = v \<and> sb' = sb \<and> i' = i \<and> (free_set v = {} \<or> card (dom (dir_map v i)) = 150) \<and>
           e \<noteq> ''entry already exists'')) v"
proof -
  have "dwp d (dir_add_entry d sb i n c isd) (\<lambda>(r, sb', i') v'.
      case r of Inr _ \<Rightarrow> dir_changed v i v' i' \<and> meta_of i' = enter_meta (card (dom (dir_map v i))) (meta_of i)
        | Inl e \<Rightarrow> (free_set v = {} \<or> card (dom (dir_map v i)) = 150) \<and> e \<noteq> ''entry already exists'') v"
    (is "dwp d _ ?Q v")
  proof (rule dir_add_entry_awp)
    show "dwp d (dir_extend d sb i (entry_to_bytes (entry_new c n isd))) ?Q v"
      if "\<And>b j. b \<in> set (dir_blocks i) \<Longrightarrow> j < 15 \<Longrightarrow> \<not> is_empty (slot (v (unat b)) j)"
      using dir_full_card [OF inv that] dir_inv_facts [OF inv] dir_changed_grow [OF inv room]
      by (intro dir_extend_awp) (simp_all add: enter_meta_def meta_of_def add_grown_def)
    show "?Q (Inr (), sb, i\<lparr>mtime := t\<rparr>) (put_inode (v(unat b := overwrite (v (unat b)) (j * 34)
        (entry_to_bytes (entry_new c n isd)))) (i\<lparr>mtime := t\<rparr>))"
      if "b \<in> set (dir_blocks i)" "j < 15" "is_empty (slot (v (unat b)) j)" for b j t
      using dir_free_card [OF inv that] dir_changed_slot [OF inv that(1)] dir_inv_facts [OF inv] that
      by (simp add: enter_meta_def meta_of_def dir_wf_def)
  qed (use inv n dir_inv_facts [OF inv] in \<open>auto simp: dir_map_None\<close>)
  from awp_conj [OF dir_add_entry_spec [OF inv n room] this]
  show ?thesis by (rule awp_mono) (auto split: sum.splits)
qed

lemma dir_remove_entry_full:
  assumes inv: "dir_inv v sb i" and n: "dir_map v i n \<noteq> None"
  shows "dwp d (dir_remove_entry d sb i n) (\<lambda>(r, i') v'. r = Inr () \<and> dir_inv v' sb i' \<and>
      dir_map v' i' = (dir_map v i)(n := None) \<and> dir_changed v i v' i' \<and> dir_blocks i' = dir_blocks i \<and>
      meta_of i' = meta_of i) v"
proof -
  have "dwp d (dir_remove_entry d sb i n) (\<lambda>(r, i') v'. dir_changed v i v' i' \<and> dir_blocks i' = dir_blocks i \<and>
      meta_of i' = meta_of i) v"
    using inv n dir_changed_slot [OF inv] dir_inv_facts [OF inv]
    by (intro dir_remove_entry_awp) (auto simp: dir_map_None dir_wf_def meta_of_def)
  from awp_conj [OF dir_remove_entry_spec [OF inv n] this]
  show ?thesis by (rule awp_mono) auto
qed

section \<open>The search for an inode number\<close>

definition first_free :: "volume \<Rightarrow> nat \<Rightarrow> nat \<Rightarrow> nat option" where
  "first_free v a lim = find (\<lambda>k. nlink (inode_at v (of_nat k)) = 0) [a..<Suc lim]"

lemma find_inode_awp:
  assumes "vol v" "sb_layout sb" "a \<le> lim" "lim \<le> 2000" "Q (map_option of_nat (first_free v a lim)) v"
  shows "dwp d (find_inode d sb lim a) Q v"
  using assms(3) assms(5) [unfolded first_free_def]
proof (induction "lim - a" arbitrary: a)
  case 0
  then have a: "a = lim" by simp
  have "on_disk (of_nat lim)" using assms(4) by (simp add: on_disk_def inode_blk_def unat_of_nat)
  with 0(3) a assms(1,2) show ?case
    by (subst find_inode.simps [abs_def], intro awp_bind read_inode_awp) (auto intro!: awp_rules)
next
  case (Suc m)
  then have a: "a < lim" "m = lim - (a + 1)" by auto
  have od: "on_disk (of_nat a)" using assms(4) a by (simp add: on_disk_def inode_blk_def unat_of_nat)
  have "[a..<Suc lim] = a # [a + 1..<Suc lim]" using a by (simp add: upt_conv_Cons)
  with Suc.prems(2) have Q: "if nlink (inode_at v (of_nat a)) = 0 then Q (Some (of_nat a)) v
      else Q (map_option of_nat (find (\<lambda>k. nlink (inode_at v (of_nat k)) = 0) [a + 1..<Suc lim])) v"
    by (auto split: if_splits)
  have "dwp d (find_inode d sb lim (a + 1)) Q v" if "nlink (inode_at v (of_nat a)) \<noteq> 0"
    using a that Q by (intro Suc.hyps(1)) auto
  with Q a assms(1,2) od show ?case
    by (subst find_inode.simps [abs_def], intro awp_bind read_inode_awp) (auto intro!: awp_rules)
qed

lemma find_inode_Some:
  assumes "first_free v a lim = Some c" "lim \<le> 2000"
  shows "a \<le> c" "c \<le> lim" "nlink (inode_at v (of_nat c)) = 0" "unat (of_nat c :: u32) = c"
proof -
  from assms(1) obtain j where j: "j < length [a..<Suc lim]" "c = [a..<Suc lim] ! j" "nlink (inode_at v (of_nat c)) = 0"
    unfolding first_free_def find_Some_iff by blast
  then have "c \<in> set [a..<Suc lim]" using nth_mem by blast
  then show "a \<le> c" "c \<le> lim" by auto
  with assms(2) show "unat (of_nat c :: u32) = c" by (simp add: unat_of_nat)
qed (use assms(1) in \<open>auto simp: first_free_def find_Some_iff simp del: upt_Suc\<close>)

section \<open>The handlers on attributes\<close>

lemma fs_getattr_awp:
  assumes "vol v" "sb_layout (fs_sb fs)" "on_disk (ucast ino)"
    and "Q (if nlink (inode_at v (ucast ino)) = 0 then ReplyError ENOENT
            else ReplyAttr 1 (inode_to_attr (inode_at v (ucast ino))), fs) v"
  shows "dwp (fs_disk fs) (fs_getattr fs ino) Q v"
  unfolding fs_getattr_def [abs_def] using assms by (intro awp_bind read_inode_awp) (auto intro!: awp_rules)

lemma fs_open_awp:
  assumes "vol v" "sb_layout (fs_sb fs)" "on_disk (ucast ino)"
    and "Q (if (flags AND 1 \<noteq> 0 \<or> flags AND 2 \<noteq> 0) \<and> mode (inode_at v (ucast ino)) AND 146 = 0
            then ReplyError EACCES else ReplyOpened ino 0, fs) v"
  shows "dwp (fs_disk fs) (fs_open fs u g ino flags) Q v"
proof -
  have "(mode i AND 511) AND 146 = mode i AND 146" for i :: Inode by (simp add: and.assoc)
  then show ?thesis
    unfolding fs_open_def [abs_def] Let_def O_WRONLY_def O_RDWR_def check_permission_def
    using assms by (intro awp_bind read_inode_awp) (auto intro!: awp_rules split: if_splits)
qed

definition chmod_of :: "Inode \<Rightarrow> u32 option \<Rightarrow> i64 \<Rightarrow> Inode" where
  "chmod_of i m t = i\<lparr>mode := (case m of Some m \<Rightarrow> (mode i AND 0xF000) OR ucast (m AND 511) | None \<Rightarrow> mode i), mtime := t\<rparr>"

lemma fs_setattr_awp:
  assumes v: "vol v" "sb_layout (fs_sb fs)" "on_disk (ucast ino)"
    and Q: "\<And>t. Q (ReplyAttr 1 (inode_to_attr (chmod_of (inode_at v (ucast ino)) m t)), fs)
      (put_inode v (chmod_of (inode_at v (ucast ino)) m t))"
  shows "dwp (fs_disk fs) (fs_setattr fs ino m) Q v"
proof -
  have eq: "fs_setattr fs ino m = (\<lambda>s. do {
      (inode, s) \<leftarrow> read_inode (fs_disk fs) (fs_sb fs) (ucast ino) s;
      (now, s) \<leftarrow> current_timestamp (disk_host (fs_disk fs)) s;
      (_, s) \<leftarrow> write_inode (fs_disk fs) (fs_sb fs) (chmod_of inode m now) s;
      Some ((ReplyAttr 1 (inode_to_attr (chmod_of inode m now)), fs), s) })"
    by (cases m) (simp_all add: fs_setattr_def [abs_def] chmod_of_def Let_def)
  note i = inode_at_decode [OF v(1,3)]
  have "inode_no (chmod_of (inode_at v (ucast ino)) m t) = ucast ino" "inode_wf (chmod_of (inode_at v (ucast ino)) m t)" for t
    using i by (simp_all add: chmod_of_def inode_wf_def)
  with v Q show ?thesis
    unfolding eq by (intro awp_bind read_inode_awp) (auto intro!: awp_rules)
qed

section \<open>The handlers on directories\<close>

lemma fs_lookup_awp:
  fixes fs :: "'s SimpleFS" and parent :: u64
  defines "p \<equiv> ucast parent :: u32"
  assumes inv: "dir_inv v (fs_sb fs) (inode_at v p)"
    and none: "dir_map v (inode_at v p) (os_str_or name []) = None \<Longrightarrow> Q (ReplyError ENOENT, fs) v"
    and some: "\<And>c ty. dir_map v (inode_at v p) (os_str_or name []) = Some (c, ty) \<Longrightarrow>
      on_disk c \<and> Q (ReplyEntry 1 (inode_to_attr (inode_at v c)) 0, fs) v"
    and od: "on_disk p"
  shows "dwp (fs_disk fs) (fs_lookup fs parent name) Q v"
proof -
  note f = dir_inv_facts [OF inv]
  let ?n = "os_str_or name []" and ?i = "inode_at v p"
  have find: "dwp (fs_disk fs) (dir_find (fs_disk fs) ?i ?n)
      (\<lambda>r v'. v' = v \<and> map_option (\<lambda>(e, _). (entry_inode e, entry_type e)) r = dir_map v ?i ?n) v"
    by (rule dir_find_law [OF inv])
  show ?thesis
    unfolding fs_lookup_def [abs_def]
  proof (intro awp_bind read_inode_awp f(4,5), goal_cases)
    case 2
    have "dwp (fs_disk fs) (dir_find (fs_disk fs) ?i ?n) (\<lambda>r. dwp (fs_disk fs) (\<lambda>s. case r of
        Some (entry, _, _) \<Rightarrow> do {
          (child_inode, s) \<leftarrow> read_inode (fs_disk fs) (fs_sb fs) (entry_inode entry) s;
          Some ((ReplyEntry 1 (inode_to_attr child_inode) 0, fs), s) }
      | None \<Rightarrow> Some ((ReplyError ENOENT, fs), s)) Q) v"
    proof (rule awp_mono [OF find], goal_cases)
      case (1 r v')
      then have v': "v' = v" and m: "map_option (\<lambda>(e, _). (entry_inode e, entry_type e)) r = dir_map v ?i ?n" by auto
      show ?case
      proof (cases r)
        case None
        with m none show ?thesis by (auto simp: v' intro!: awp_rules)
      next
        case (Some x)
        then obtain e b o' where r: "r = Some (e, b, o')" by (cases x) auto
        with m some [of "entry_inode e" "entry_type e"] f(4,5) show ?thesis
          by (auto simp: v' intro!: awp_rules)
      qed
    qed
    then show ?case by (auto simp: p_def intro!: awp_bind)
  qed (use od in \<open>simp add: p_def\<close>)
qed

text \<open>The inode that \<open>create\<close> makes.\<close>

definition created_inode :: "u32 \<Rightarrow> i64 \<Rightarrow> Inode" where
  "created_inode n t = \<lparr>inode_no = n, mode = 0x81A4, uid = 1000, gid = 1000, isize = 0, nlink = 1,
     block_count = 0, mtime = t, atime = t, ctime = t, direct_blocks = replicate 10 0, indirect_block = 0\<rparr>"

lemma created_inode_sel [simp]:
  "inode_no (created_inode n t) = n" "inode_wf (created_inode n t)" "nlink (created_inode n t) = 1"
  by (simp_all add: created_inode_def inode_wf_def)

lemma created_inode_mode [simp]: "created_inode n t\<lparr>mode := 0x81A4\<rparr> = created_inode n t"
  by (simp add: created_inode_def)

lemma new_file_awp [awp_rules]:
  assumes "\<And>t. Q (created_inode n t) v"
  shows "dwp d (new_file (disk_host d) n) Q v"
proof -
  have "S_IFREG OR 420 = 0x81A4" by (simp add: S_IFREG_def)
  with assms show ?thesis by (auto simp: new_file_def [abs_def] created_inode_def intro!: awp_rules)
qed

lemma put_other_inode:
  assumes inv: "dir_inv v sb i" and j: "inode_wf j" "on_disk (inode_no j)" "inode_blk (inode_no j) \<notin> unat ` set (dir_blocks i)"
  shows "dir_inv (put_inode v j) sb i" "dir_map (put_inode v j) i = dir_map v i" "room (put_inode v j) L = room v L \<or> 20480 < L"
    "\<And>x. x < 20480 \<Longrightarrow> allocd (put_inode v j) x = allocd v x"
proof -
  note f = dir_inv_facts [OF inv] and d = dir_inv_blocks [OF inv]
  show al: "allocd (put_inode v j) x = allocd v x" if "x < 20480" for x
    using that by (intro allocd_cong) (auto simp: put_inode_low)
  have ai: "alloc_inv (put_inode v j) sb"
    using j f(4) by (intro alloc_inv_cong [OF f(1)]) (auto simp: put_inode_low)
  have "put_inode v j (unat b) = v (unat b) \<and> allocd (put_inode v j) (unat b)" if "b \<in> set (dir_blocks i)" for b
  proof -
    have "unat b \<noteq> inode_blk (inode_no j)" using that j(3) by (metis imageI)
    with that d(4) al show ?thesis by simp
  qed
  from dir_inv_cong [OF inv ai this] show "dir_inv (put_inode v j) sb i" "dir_map (put_inode v j) i = dir_map v i" by auto
  show "room (put_inode v j) L = room v L \<or> 20480 < L"
    using al by (auto simp: room_def not_less intro!: arg_cong [of _ _ card])
qed

end
