(* ===== verification/Namespace.thy ===== *)
theory Namespace
  imports Handlers
begin

text \<open>
  The handlers of \<open>src/src/fs.rs\<close> that change the name space: \<open>create\<close>, \<open>mkdir\<close>, \<open>unlink\<close> and
  \<open>rmdir\<close>. Each lemma says what the handler does to the view of a consistent disk, and that
  the disk stays consistent.
\<close>

section \<open>Lemmas: one directory of a consistent disk\<close>

lemma live_dir:
  assumes "store_ok v sb" "live v p" "is_dir_at v p"
  shows "dir_inv v sb (inode_at v p)" "inode_no (inode_at v p) = p" "on_disk p" "valid_ino p"
    "nlink (inode_at v p) \<noteq> 0" "view v p = Some (Dir (dir_map v (inode_at v p)))"
    "owned v p = unat ` set (dir_blocks (inode_at v p))" "vol v" "sb_layout sb"
proof -
  show inv: "dir_inv v sb (inode_at v p)" using assms by (auto simp: store_ok_def node_inv_def)
  show p: "valid_ino p" "nlink (inode_at v p) \<noteq> 0" using assms(2) by (auto simp: live_def)
  from dir_inv_facts(4) [OF inv] valid_ino_blk(1) [OF p(1)]
  show "inode_no (inode_at v p) = p" "on_disk p" by (auto dest: inode_at_decode(3))
  show "view v p = Some (Dir (dir_map v (inode_at v p)))" using assms by (simp add: view_def node_at_def)
  show "owned v p = unat ` set (dir_blocks (inode_at v p))" using assms by (simp add: owned_def)
  show "vol v" "sb_layout sb" using dir_inv_facts(4,5) [OF inv] .
qed

lemma live_file:
  assumes "store_ok v sb" "live v n" "\<not> is_dir_at v n"
  shows "file_inv v sb (inode_at v n)" "inode_no (inode_at v n) = n" "on_disk n" "valid_ino n"
    "nlink (inode_at v n) \<noteq> 0" "view v n = Some (File (file_contents v (inode_at v n)))"
    "owned v n = set (file_all v (inode_at v n))" "vol v" "sb_layout sb"
proof -
  show inv: "file_inv v sb (inode_at v n)" using assms by (auto simp: store_ok_def node_inv_def)
  show v: "vol v" "sb_layout sb" using inv by (auto simp: file_inv_def alloc_inv_def)
  show n: "valid_ino n" "nlink (inode_at v n) \<noteq> 0" using assms(2) by (auto simp: live_def)
  from v(1) valid_ino_blk(1) [OF n(1)]
  show "inode_no (inode_at v n) = n" "on_disk n" by (auto dest: inode_at_decode(3))
  show "view v n = Some (File (file_contents v (inode_at v n)))" using assms by (simp add: view_def node_at_def)
  show "owned v n = set (file_all v (inode_at v n))" using assms by (simp add: owned_def)
qed

lemma owns_one [simp]: "owns v {n} = (if live v n then owned v n else {})"
  by (auto simp: owns_def)

lemma valid_ino_not_data: "valid_ino n \<Longrightarrow> 31 \<le> x \<Longrightarrow> x < 89 \<Longrightarrow> x \<noteq> inode_blk n"
  using valid_ino_blk(2) by fastforce

text \<open>A change of one directory keeps the rest of the disk.\<close>

lemma dir_op_step:
  assumes ok: "store_ok v sb" and p: "live v p" "is_dir_at v p"
    and inv': "dir_inv v' sb' i'" and ch: "dir_changed v (inode_at v p) v' i'"
    and new: "\<And>b. b \<in> set (dir_blocks i') \<Longrightarrow> b \<notin> set (dir_blocks (inode_at v p)) \<Longrightarrow> unat b < 89"
  shows "store_step v {p} v' sb'" "view v' p = Some (Dir (dir_map v' i'))" "inode_at v' p = i'"
proof -
  note d = live_dir [OF ok p]
  let ?i = "inode_at v p"
  have low: "low_use v" using ok by (simp add: store_ok_def)
  have c: "inode_at v' p = i'" "nlink i' = nlink ?i" "mode i' = mode ?i" "set (dir_blocks ?i) \<subseteq> set (dir_blocks i')"
      "\<And>x. 6 \<le> x \<Longrightarrow> x \<notin> unat ` set (dir_blocks i') \<Longrightarrow> x \<noteq> inode_blk p \<Longrightarrow> v' x = v x"
      "\<And>m. on_disk m \<Longrightarrow> m \<noteq> p \<Longrightarrow> inode_blk m \<notin> unat ` set (dir_blocks i') \<Longrightarrow> inode_at v' m = inode_at v m"
      "\<And>x. x < 20480 \<Longrightarrow> allocd v' x \<longleftrightarrow> allocd v x \<or> x \<in> unat ` set (dir_blocks i')"
      "\<And>b. b \<in> set (dir_blocks i') \<Longrightarrow> b \<notin> set (dir_blocks ?i) \<Longrightarrow> \<not> allocd v (unat b)"
    using ch d(2) by (auto simp: dir_changed_def next_free_def)
  show "inode_at v' p = i'" using c(1) .
  have p': "live v' p" "is_dir_at v' p" using p c(1-3) by (auto simp: live_def is_dir_at_def)
  then show "view v' p = Some (Dir (dir_map v' i'))" using c(1) by (simp add: view_def node_at_def)
  have bl: "unat b < 89" "31 \<le> unat b" if "b \<in> set (dir_blocks i')" for b
    using that new dir_blocks_low [OF d(1) low] dir_inv_blocks(4) [OF inv'] by auto
  have low': "low_use v'" using low c(7) bl(1) by (auto simp: low_use_def)
  have ow: "owns v {p} = unat ` set (dir_blocks ?i)" "owns v' {p} = unat ` set (dir_blocks i')"
    using p p' c(1) d(7) by (simp_all add: owned_def)
  have "op_frame v {p} v'"
    unfolding op_frame_def ow
  proof (intro conjI allI impI ballI)
    show "inode_at v' m = inode_at v m" if "valid_ino m \<and> m \<notin> {p}" for m
    proof (rule c(6))
      show "inode_blk m \<notin> unat ` set (dir_blocks i')" using that bl valid_ino_blk(2) [of m] by fastforce
    qed (use that valid_ino_blk(1) in auto)
    show "allocd v x \<and> x \<notin> unat ` set (dir_blocks ?i) \<or> x \<in> unat ` set (dir_blocks i')"
      if "x < 20480" "31 \<le> x \<and> allocd v' x" for x using that c(4,7) by auto
    show "\<not> allocd v x \<or> x \<in> unat ` set (dir_blocks ?i)" if "x \<in> unat ` set (dir_blocks i')" for x
      using that c(8) by auto
    show "v' x = v x" if "31 \<le> x \<and> x < 89 \<and> allocd v x \<and> x \<notin> unat ` set (dir_blocks ?i)" for x
    proof (rule c(5))
      show "x \<notin> unat ` set (dir_blocks i')" using that c(8) by auto
    qed (use that valid_ino_not_data [OF d(4)] in auto)
    show "allocd v' x" if "31 \<le> x \<and> x < 89 \<and> allocd v x \<and> x \<notin> unat ` set (dir_blocks ?i)" for x
      using that c(7) by auto
  qed
  moreover have "node_inv v' sb' p" using inv' p'(2) c(1) by (simp add: node_inv_def)
  ultimately show "store_step v {p} v' sb'"
    using low' dir_inv_facts(1) [OF inv'] by (intro store_ok_frame [OF ok]) auto
qed

text \<open>\<open>dir_add_entry\<close> and \<open>dir_remove_entry\<close> on a consistent disk.\<close>

lemma add_entry_step:
  assumes ok: "store_ok v sb" and p: "live v p" "is_dir_at v p" and room: "0 < room v 89"
    and nm: "name_ok nm" "dir_map v (inode_at v p) nm = None"
  shows "dwp d (dir_add_entry d sb (inode_at v p) nm c isd) (\<lambda>(r, sb', i') v'.
      case r of
        Inr _ \<Rightarrow> store_step v {p} v' sb' \<and>
          view v' p = Some (Dir ((dir_map v (inode_at v p))(nm \<mapsto> (c, if isd then 2 else 1)))) \<and>
          meta_of (inode_at v' p) = enter_meta (card (dom (dir_map v (inode_at v p)))) (meta_of (inode_at v p))
      | Inl e \<Rightarrow> v' = v \<and> sb' = sb \<and> i' = inode_at v p \<and> e \<noteq> ''entry already exists'' \<and>
          (free_set v = {} \<or> card (dom (dir_map v (inode_at v p))) = 150)) v"
proof -
  note d = live_dir [OF ok p]
  have "dir_room v (inode_at v p)" using dir_room_low [OF d(1) room] d(2,4) by simp
  from dir_add_entry_full [OF d(1) nm this] show ?thesis
  proof (rule awp_mono, goal_cases)
    case (1 x v')
    obtain r sb' i' where x: "x = (r, sb', i')" by (cases x) auto
    show ?case
    proof (cases r)
      case (Inr u)
      with 1 x have a: "dir_inv v' sb' i'" "dir_changed v (inode_at v p) v' i'"
          "dir_map v' i' = (dir_map v (inode_at v p))(nm \<mapsto> (c, if isd then 2 else 1))"
          "meta_of i' = enter_meta (card (dom (dir_map v (inode_at v p)))) (meta_of (inode_at v p))" by auto
      have "unat b < 89" if "b \<in> set (dir_blocks i')" "b \<notin> set (dir_blocks (inode_at v p))" for b
        using that a(2) next_free_low [OF room] by (auto simp: dir_changed_def)
      from dir_op_step [OF ok p a(1,2) this] a(3,4) Inr x show ?thesis by simp
    qed (use 1 x in auto)
  qed
qed

lemma remove_entry_step:
  assumes ok: "store_ok v sb" and p: "live v p" "is_dir_at v p" and nm: "dir_map v (inode_at v p) nm \<noteq> None"
  shows "dwp d (dir_remove_entry d sb (inode_at v p) nm) (\<lambda>(r, i') v'. r = Inr () \<and>
      store_step v {p} v' sb \<and> view v' p = Some (Dir ((dir_map v (inode_at v p))(nm := None))) \<and>
      owned v' p = owned v p \<and> meta_of (inode_at v' p) = meta_of (inode_at v p)) v"
proof (rule awp_mono [OF dir_remove_entry_full [OF live_dir(1) [OF ok p] nm]], goal_cases)
  case (1 x v')
  obtain r i' where x: "x = (r, i')" by (cases x)
  with 1 have a: "r = Inr ()" "dir_inv v' sb i'" "dir_changed v (inode_at v p) v' i'"
    "dir_blocks i' = dir_blocks (inode_at v p)" "dir_map v' i' = (dir_map v (inode_at v p))(nm := None)"
    "meta_of i' = meta_of (inode_at v p)" by auto
  note s = dir_op_step [OF ok p a(2,3)]
  have "is_dir_at v' p" using a(3) p(2) live_dir(2) [OF ok p] by (simp add: dir_changed_def is_dir_at_def)
  then have "owned v' p = owned v p" using s(3) a(4) p(2) by (simp add: owned_def)
  with s a x show ?case by simp
qed

section \<open>Lemmas: storing one inode of a consistent disk\<close>

lemma put_facts:
  assumes inv: "alloc_inv v sb" "low_use v" and j: "valid_ino (inode_no j)" "inode_wf j"
  shows "alloc_inv (put_inode v j) sb" "low_use (put_inode v j)"
    "\<And>m. valid_ino m \<Longrightarrow> inode_at (put_inode v j) m = (if m = inode_no j then j else inode_at v m)"
    "\<And>x. 31 \<le> x \<Longrightarrow> x < 89 \<Longrightarrow> put_inode v j x = v x"
    "\<And>x. x < 20480 \<Longrightarrow> allocd (put_inode v j) x = allocd v x"
proof -
  have v: "vol v" using inv(1) by (simp add: alloc_inv_def)
  have od: "on_disk (inode_no j)" using j(1) by (rule valid_ino_blk(1))
  show "inode_at (put_inode v j) m = (if m = inode_no j then j else inode_at v m)" if "valid_ino m" for m
    using inode_at_put_inode [OF v od j(2) valid_ino_blk(1) [OF that]] .
  show "put_inode v j x = v x" if "31 \<le> x" "x < 89" for x
    using valid_ino_not_data [OF j(1) that] by simp
  show al: "allocd (put_inode v j) x = allocd v x" if "x < 20480" for x
    using that by (intro allocd_cong) (simp_all add: put_inode_low)
  show "alloc_inv (put_inode v j) sb"
    using v od j(2) by (intro alloc_inv_cong [OF inv(1)]) (simp_all add: put_inode_low)
  show "low_use (put_inode v j)" using inv(2) al by (simp add: low_use_def)
qed

lemma put_step:
  assumes ok: "store_ok v sb" and j: "valid_ino c" "inode_wf j" "inode_no j = c"
    and node: "live (put_inode v j) c \<Longrightarrow> node_inv (put_inode v j) sb c"
    and ow: "owns (put_inode v j) {c} = owns v {c}"
  shows "store_step v {c} (put_inode v j) sb"
proof -
  have "alloc_inv v sb" "low_use v" using ok by (auto simp: store_ok_def)
  note p = put_facts [OF this j(1) [folded j(3)] j(2)]
  have "op_frame v {c} (put_inode v j)"
    unfolding op_frame_def ow using p(3-5) j(3) by auto
  then show ?thesis using node by (intro store_ok_frame [OF ok p(1,2)]) auto
qed

text \<open>A new file without blocks.\<close>

lemma new_file_inv:
  assumes "alloc_inv v sb" "on_disk c"
  shows "file_inv v sb (created_inode c t)" "file_all v (created_inode c t) = []" "file_contents v (created_inode c t) = []"
  using assms by (simp_all add: file_inv_def file_wf_def file_all_def file_blocks_def created_inode_def
    file_contents_def file_data_def data_of_def inode_wf_def alloc_inv_def)

lemma new_file_step:
  assumes ok: "store_ok v sb" and c: "valid_ino c" "\<not> live v c"
  shows "store_step v {c} (put_inode v (created_inode c t)) sb"
    "view (put_inode v (created_inode c t)) c = Some (File [])"
proof -
  let ?j = "created_inode c t"
  let ?v1 = "put_inode v ?j"
  have inv: "alloc_inv v sb" "low_use v" using ok by (auto simp: store_ok_def)
  have j: "valid_ino (inode_no ?j)" "inode_wf ?j" using c(1) by simp_all
  note p = put_facts [OF inv j]
  have at: "inode_at ?v1 c = ?j" using p(3) [OF c(1)] by simp
  note f = new_file_inv [OF p(1) valid_ino_blk(1) [OF c(1)]]
  have d: "\<not> is_dir_at ?v1 c" "live ?v1 c"
    using c(1) at by (simp_all add: is_dir_at_def live_def) (simp add: created_inode_def S_IFDIR_def)
  show "store_step v {c} ?v1 sb"
    using d f c by (intro put_step [OF ok]) (simp_all add: node_inv_def at owned_def)
  show "view ?v1 c = Some (File [])" using d f at by (simp add: view_def node_at_def)
qed

text \<open>A change of attributes that keeps the kind of the inode and its blocks.\<close>

lemma attr_step:
  assumes ok: "store_ok v sb" and n: "live v n"
    and j: "j = (inode_at v n)\<lparr>mode := m, mtime := t\<rparr>" "m AND S_IFDIR = mode (inode_at v n) AND S_IFDIR"
  shows "store_step v {n} (put_inode v j) sb" "view (put_inode v j) = view v"
proof -
  let ?v1 = "put_inode v j" and ?i = "inode_at v n"
  have inv: "alloc_inv v sb" "low_use v" and node: "node_inv v sb n" using ok n by (auto simp: store_ok_def)
  have nn: "valid_ino n" "nlink ?i \<noteq> 0" using n by (auto simp: live_def)
  have v: "vol v" using inv(1) by (simp add: alloc_inv_def)
  have "inode_no ?i = n" "inode_wf ?i" using inode_at_decode [OF v valid_ino_blk(1) [OF nn(1)]] by auto
  then have jj: "inode_no j = n" "inode_wf j" "valid_ino (inode_no j)" using nn j by (simp_all add: inode_wf_def)
  note p = put_facts [OF inv jj(3,2)]
  have at: "inode_at ?v1 n = j" using p(3) [OF nn(1)] jj(1) by simp
  have lv: "live ?v1 n" "is_dir_at ?v1 n = is_dir_at v n"
    using nn at j by (simp_all add: live_def is_dir_at_def)
  have blk: "block_of w j = block_of w ?i" for w by (simp add: j block_of_def fun_eq_iff)
  have bl: "file_blocks w j = file_blocks w ?i" "dir_blocks j = dir_blocks ?i" for w
    using blk by (simp_all add: file_blocks_def dir_blocks_def j)
  have fl: "file_all w j = file_all w ?i" "file_data w j = file_data w ?i" "file_contents w j = file_contents w ?i" for w
    using bl by (simp_all add: file_all_def file_contents_def file_data_def j)
  have de: "dir_entries w j = dir_entries w ?i" "dir_map w j = dir_map w ?i" for w
    using bl by (simp_all add: dir_map_def dir_entries_def dir_slots_def fun_eq_iff)
  have fi: "file_inv w sb j = file_inv w sb ?i" "dir_inv w sb j = dir_inv w sb ?i" for w
    by (simp_all add: file_inv_def file_wf_def dir_inv_def dir_wf_def names_distinct_def dir_clear_def bl fl de blk)
       (simp_all add: j inode_wf_def)
  have keep: "?v1 x = v x \<and> allocd ?v1 x" if "x \<in> owned v n" for x
  proof -
    note o = owned_data [OF node that]
    then have "x < 89" using inv(2) by (simp add: low_use_def)
    with o p(4,5) show ?thesis by simp
  qed
  have ow: "owned ?v1 n = owned v n \<and> node_at ?v1 n = node_at v n \<and> node_inv ?v1 sb n"
  proof (cases "is_dir_at v n")
    case True
    with node keep dir_inv_cong [of v sb ?i ?v1 sb] p(1) show ?thesis
      by (simp add: owned_def node_at_def node_inv_def lv(2) at bl de fi)
  next
    case False
    with node keep file_inv_cong [of v sb ?i ?v1 sb] p(1) show ?thesis
      by (simp add: owned_def node_at_def node_inv_def lv(2) at fl fi)
  qed
  show "store_step v {n} ?v1 sb" using n lv ow nn(1) jj by (intro put_step [OF ok]) simp_all
  from store_step_view [OF this refl] show "view ?v1 = view v"
    using n lv ow by (simp add: view_def fun_eq_iff)
qed

section \<open>Creating a file\<close>

lemma first_free_fresh:
  assumes "first_free v a lim = Some k" "a = 1000 \<and> lim = 2000 \<or> a = 500 \<and> lim = 900"
  shows "valid_ino (of_nat k)" "\<not> live v (of_nat k)"
  using find_inode_Some [OF assms(1)] assms(2) by (auto simp: valid_ino_def live_def)

lemma live_other: "store_step v N v1 sb1 \<Longrightarrow> n \<notin> N \<Longrightarrow> live v n \<Longrightarrow>
    inode_at v1 n = inode_at v n \<and> live v1 n \<and> is_dir_at v1 n = is_dir_at v n \<and> node_at v1 n = node_at v n"
  using store_stepD(2) [of v N v1 sb1 n] store_stepD(3) [of v N v1 sb1 n]
  by (auto simp: view_def is_dir_at_def live_def split: if_splits)

lemma room_free: "0 < room v L \<Longrightarrow> L \<le> 20480 \<Longrightarrow> free_set v \<noteq> {}"
  by (auto simp: room_def card_gt_0_iff free_set_def dest: less_le_trans)

lemma room_put: "L \<le> 20480 \<Longrightarrow> room (put_inode v j) L = room v L"
  using allocd_cong [of "put_inode v j" v] by (auto simp: room_def put_inode_low intro!: arg_cong [of _ _ card])

text \<open>
  What \<open>create\<close> of a new name promises in a directory \<open>p\<close>, with the inode number \<open>c\<close> it
  found: an empty file \<open>c\<close> and the new name for it; if the directory is full the reply is
  \<open>ENOSPC\<close> and the file stays behind without a name. No other inode changes.
\<close>

definition create_post :: "volume \<Rightarrow> u32 \<Rightarrow> str \<Rightarrow> u32 \<Rightarrow> reply \<Rightarrow> volume \<Rightarrow> SuperBlock \<Rightarrow> bool" where
  "create_post v p nm c r v' sb' \<longleftrightarrow> store_step v {p, c} v' sb' \<and> (\<exists>t. inode_at v' c = created_inode c t \<and>
     (if r = ReplyError ENOSPC
      then view v' = (view v)(c \<mapsto> File []) \<and> card (dom (dir_map v (inode_at v p))) = 150 \<and>
        meta_of (inode_at v' p) = meta_of (inode_at v p)
      else meta_of (inode_at v' p) = enter_meta (card (dom (dir_map v (inode_at v p)))) (meta_of (inode_at v p)) \<and>
        r = ReplyCreated 1 (inode_to_attr (created_inode c t)) 0 (ucast c) 0 \<and>
        view v' = (view v)(c \<mapsto> File [], p \<mapsto> Dir ((dir_map v (inode_at v p))(nm \<mapsto> (c, 1))))))"

text \<open>The part of \<open>create\<close> after the inode number \<open>n\<close> has been found.\<close>

definition create_tail :: "'s SimpleFS \<Rightarrow> Inode \<Rightarrow> str \<Rightarrow> u32 \<Rightarrow> 's \<Rightarrow> ((reply \<times> 's SimpleFS) \<times> 's) option" where
  "create_tail fs pi nm n s = do {
     (ni, s) \<leftarrow> new_file (disk_host (fs_disk fs)) n s;
     (_, s) \<leftarrow> write_inode (fs_disk fs) (fs_sb fs) (ni\<lparr>mode := 0x81A4\<rparr>) s;
     ((r, sb, pi), s) \<leftarrow> dir_add_entry (fs_disk fs) (fs_sb fs) pi nm n False s;
     Some ((case r of
         Inl e \<Rightarrow> ReplyError (if e = ''entry already exists'' then EEXIST else ENOSPC)
       | Inr _ \<Rightarrow> ReplyCreated 1 (inode_to_attr (ni\<lparr>mode := 0x81A4\<rparr>)) 0 (ucast n) 0, fs\<lparr>fs_sb := sb\<rparr>), s) }"

lemma sum_reply: "(case r of Inl e \<Rightarrow> Some ((f e, x), s) | Inr u \<Rightarrow> Some ((g u, x), s)) =
    Some ((case r of Inl e \<Rightarrow> f e | Inr u \<Rightarrow> g u, x), s)"
  by (cases r) simp_all

lemma create_entry_awp:
  fixes fs :: "'s SimpleFS"
  assumes ok: "store_ok v (fs_sb fs)" and p: "live v p" "is_dir_at v p" and room: "0 < room v 89"
    and nm: "name_ok nm" "dir_map v (inode_at v p) nm = None" and c: "valid_ino c" "\<not> live v c"
    and Q: "\<And>r sb' v'. create_post v p nm c r v' sb' \<Longrightarrow> Q (r, fs\<lparr>fs_sb := sb'\<rparr>) v'"
  shows "dwp (fs_disk fs) (\<lambda>s. do {
      ((r, sb, pi), s) \<leftarrow> dir_add_entry (fs_disk fs) (fs_sb fs) (inode_at v p) nm c False s;
      Some ((case r of
        Inl e \<Rightarrow> ReplyError (if e = ''entry already exists'' then EEXIST else ENOSPC)
      | Inr _ \<Rightarrow> ReplyCreated 1 (inode_to_attr (created_inode c t)) 0 (ucast c) 0, fs\<lparr>fs_sb := sb\<rparr>), s) }) Q
      (put_inode v (created_inode c t))"
proof -
  let ?d = "fs_disk fs" and ?v1 = "put_inode v (created_inode c t)"
  note st = new_file_step [OF ok c, of t]
  have pc: "p \<notin> {c}" using p(1) c(2) by auto
  note ok1 = store_stepD(1) [OF st(1)] and p1 = live_other [OF st(1) pc p(1)]
  have at1: "inode_at ?v1 c = created_inode c t"
    using put_facts(3) [of v "fs_sb fs" "created_inode c t" c] ok c(1) by (simp add: store_ok_def)
  have rm: "0 < room ?v1 89" using room by (simp add: room_put)
  have nm1: "dir_map ?v1 (inode_at v p) = dir_map v (inode_at v p)" using p1 p(2) by (auto simp: node_at_def)
  have vw: "view ?v1 = (view v)(c \<mapsto> File [])" by (rule store_step_view [OF st])
  have p': "live ?v1 p" "is_dir_at ?v1 p" "dir_map ?v1 (inode_at ?v1 p) nm = None" using p1 p(2) nm(2) nm1 by auto
  note add = add_entry_step [OF ok1 p'(1,2) rm nm(1) p'(3), of ?d c False]
  show ?thesis
    using add unfolding p1 [THEN conjunct1]
  proof (intro awp_bind, elim awp_mono, goal_cases)
    case (1 x v')
    obtain r sb' i' where x: "x = (r, sb', i')" by (cases x) auto
    show ?case
    proof (cases r)
      case (Inl e)
      with 1 x room_free [OF rm] have a: "v' = ?v1" "sb' = fs_sb fs" "e \<noteq> ''entry already exists''"
          "card (dom (dir_map v (inode_at v p))) = 150" using nm1 p1 by auto
      have "store_step v {p, c} ?v1 (fs_sb fs)"
        using store_step_trans [OF st(1) store_step_refl [OF ok1, of "{p}"], of "{p, c}"] by simp
      with a at1 vw p1 have "create_post v p nm c (ReplyError ENOSPC) ?v1 (fs_sb fs)" by (auto simp: create_post_def)
      from Q [OF this] a x Inl show ?thesis by (auto intro: awp_return)
    next
      case (Inr u)
      with 1 x nm1 p1 have a: "store_step ?v1 {p} v' sb'" "view v' p = Some (Dir ((dir_map v (inode_at v p))(nm \<mapsto> (c, 1))))"
        "meta_of (inode_at v' p) = enter_meta (card (dom (dir_map v (inode_at v p)))) (meta_of (inode_at v p))" by auto
      have "store_step v {p, c} v' sb'" by (rule store_step_trans [OF st(1) a(1)]) auto
      moreover have "inode_at v' c = created_inode c t" using store_stepD(2) [OF a(1) c(1)] pc at1 by auto
      moreover have "view v' = (view v)(c \<mapsto> File [], p \<mapsto> Dir ((dir_map v (inode_at v p))(nm \<mapsto> (c, 1))))"
        using store_step_view [OF a(1,2)] vw by simp
      ultimately have "create_post v p nm c (ReplyCreated 1 (inode_to_attr (created_inode c t)) 0 (ucast c) 0) v' sb'"
        using a(3) by (auto simp: create_post_def)
      from Q [OF this] x Inr show ?thesis by (auto intro: awp_return)
    qed
  qed
qed

lemma create_tail_awp:
  fixes fs :: "'s SimpleFS"
  assumes ok: "store_ok v (fs_sb fs)" and p: "live v p" "is_dir_at v p" and room: "0 < room v 89"
    and nm: "name_ok nm" "dir_map v (inode_at v p) nm = None" and c: "valid_ino c" "\<not> live v c"
    and Q: "\<And>r sb' v'. create_post v p nm c r v' sb' \<Longrightarrow> Q (r, fs\<lparr>fs_sb := sb'\<rparr>) v'"
  shows "dwp (fs_disk fs) (create_tail fs (inode_at v p) nm c) Q v"
  unfolding create_tail_def [abs_def]
  by (rule awp_bind, rule new_file_awp, simp cong: sum.case_cong, rule awp_bind, rule write_inode_awp)
     (use live_dir(8,9) [OF ok p] valid_ino_blk(1) [OF c(1)] create_entry_awp [where Q = Q, OF assms] in \<open>simp_all cong: sum.case_cong\<close>)

text \<open>The common start of the handlers: read the parent, look the name up.\<close>

lemma parent_find_awp:
  assumes ok: "store_ok v sb" "live v p" "is_dir_at v p"
    and K: "\<And>hit. map_option (\<lambda>(e, _). (entry_inode e, entry_type e)) hit = dir_map v (inode_at v p) nm \<Longrightarrow>
      dwp d (K (inode_at v p) hit) Q v"
  shows "dwp d (\<lambda>s. do {
      (pi, s) \<leftarrow> read_inode d sb p s;
      (hit, s) \<leftarrow> dir_find d pi nm s;
      K pi hit s }) Q v"
proof -
  note l = live_dir [OF ok]
  have "dwp d (dir_find d (inode_at v p) nm) (\<lambda>hit. dwp d (K (inode_at v p) hit) Q) v"
    by (rule awp_mono [OF dir_find_law [OF l(1)]]) (use K in auto)
  with l(3,8,9) show ?thesis by (intro awp_bind read_inode_awp) (auto intro!: awp_bind)
qed

lemma fs_create_awp:
  fixes fs :: "'s SimpleFS" and parent :: u64 and name :: "byte list"
  defines "p \<equiv> ucast parent :: u32" and "nm \<equiv> os_str_or name (ascii ''unknown'')"
  assumes ok: "store_ok v (fs_sb fs)" and p: "live v p" "is_dir_at v p" and room: "0 < room v 89" and nm: "name_ok nm"
    and exists: "dir_map v (inode_at v p) nm \<noteq> None \<Longrightarrow> Q (ReplyError EEXIST, fs) v"
    and noinode: "dir_map v (inode_at v p) nm = None \<Longrightarrow> first_free v 1000 2000 = None \<Longrightarrow> Q (ReplyError ENOSPC, fs) v"
    and Q: "\<And>k r sb' v'. dir_map v (inode_at v p) nm = None \<Longrightarrow> first_free v 1000 2000 = Some k \<Longrightarrow>
      create_post v p nm (of_nat k) r v' sb' \<Longrightarrow> Q (r, fs\<lparr>fs_sb := sb'\<rparr>) v'"
  shows "dwp (fs_disk fs) (fs_create fs parent name) Q v"
proof -
  let ?d = "fs_disk fs" and ?sb = "fs_sb fs"
  have eq: "fs_create fs parent name = (\<lambda>s. do {
      (pi, s) \<leftarrow> read_inode ?d ?sb p s;
      (hit, s) \<leftarrow> dir_find ?d pi nm s;
      (\<lambda>pi hit s. if hit \<noteq> None then Some ((ReplyError EEXIST, fs), s)
      else do {
        (c, s) \<leftarrow> find_inode ?d ?sb 2000 1000 s;
        case c of None \<Rightarrow> Some ((ReplyError ENOSPC, fs), s) | Some n \<Rightarrow> create_tail fs pi nm n s }) pi hit s })"
    unfolding fs_create_def [abs_def] Let_def p_def nm_def S_IFREG_def create_tail_def
    by (simp add: sum_reply cong: option.case_cong if_cong sum.case_cong)
  show ?thesis
    unfolding eq
  proof (rule parent_find_awp [OF ok p], goal_cases)
    case (1 hit)
    show ?case
    proof (cases "dir_map v (inode_at v p) nm")
      case (Some x)
      with 1 exists show ?thesis by (auto intro: awp_return)
    next
      case None
      with 1 have h: "hit = None" by simp
      have "dwp ?d (\<lambda>s. case map_option of_nat (first_free v 1000 2000) of
          None \<Rightarrow> Some ((ReplyError ENOSPC, fs), s) | Some n \<Rightarrow> create_tail fs (inode_at v p) nm n s) Q v"
      proof (cases "first_free v 1000 2000")
        case None
        with noinode \<open>dir_map v (inode_at v p) nm = None\<close> show ?thesis by (auto intro: awp_return)
      next
        case (Some k)
        with \<open>dir_map v (inode_at v p) nm = None\<close> show ?thesis
          using create_tail_awp [OF ok p room nm _ first_free_fresh [OF Some], where Q = Q] Q by simp
      qed
      then have "dwp ?d (find_inode ?d ?sb 2000 1000) (\<lambda>c. dwp ?d (\<lambda>s. case c of
          None \<Rightarrow> Some ((ReplyError ENOSPC, fs), s) | Some n \<Rightarrow> create_tail fs (inode_at v p) nm n s) Q) v"
        using live_dir(8,9) [OF ok p] by (intro find_inode_awp) simp_all
      then show ?thesis by (simp add: h, intro awp_bind) simp
    qed
  qed
qed

section \<open>Creating a directory\<close>

text \<open>The inode that \<open>mkdir\<close> makes, with its first block.\<close>

definition made_inode :: "u32 \<Rightarrow> u32 \<Rightarrow> i64 \<Rightarrow> Inode" where
  "made_inode n b t = \<lparr>inode_no = n, mode = 0x41ED, uid = 1000, gid = 1000, isize = 510, nlink = 2,
     block_count = 1, mtime = t, atime = t, ctime = t, direct_blocks = (replicate 10 0)[0 := b], indirect_block = 0\<rparr>"

lemma made_inode_sel [simp]:
  "inode_no (made_inode n b t) = n" "inode_wf (made_inode n b t)" "nlink (made_inode n b t) = 2"
  "dir_blocks (made_inode n b t) = [b]" "mode (made_inode n b t) = 0x41ED"
  "block_count (made_inode n b t) = 1" "indirect_block (made_inode n b t) = 0"
  by (simp_all add: made_inode_def inode_wf_def dir_blocks_def take_first_block)

lemma made_inode_fold:
  "\<lparr>inode_no = n, mode = 0x41ED, uid = 1000, gid = 1000, isize = 0, nlink = 2,
       block_count = 0, mtime = t, atime = t, ctime = t, direct_blocks = replicate 10 0, indirect_block = 0\<rparr>
     \<lparr>direct_blocks := (replicate 10 0)[0 := b], block_count := 1, isize := 510\<rparr> = made_inode n b t"
  by (simp add: made_inode_def)

lemma new_dir_step:
  assumes ok: "store_ok v sb" and c: "valid_ino c" "\<not> live v c"
    and b: "31 \<le> b" "b < 89" "\<not> allocd v b"
    and v1: "alloc_inv v1 sb1" "allocd v1 = (\<lambda>x. x = b \<or> allocd v x)" "\<And>x. 6 \<le> x \<Longrightarrow> v1 x = v x"
    and v2: "v2 = put_inode (v1(b := dots_block c p)) (made_inode c (of_nat b) t)"
  shows "store_step v {c} v2 sb1" "view v2 c = Some (Dir [ascii ''.'' \<mapsto> (c, 2), ascii ''..'' \<mapsto> (p, 2)])"
    "inode_at v2 c = made_inode c (of_nat b) t" "room v2 89 = room v 89 - 1"
proof -
  let ?j = "made_inode c (of_nat b) t" and ?vb = "v1(b := dots_block c p)"
  have ub: "unat (of_nat b :: u32) = b" using b(2) by (simp add: unat_of_nat)
  have low: "low_use v" using ok by (simp add: store_ok_def)
  have inv: "alloc_inv ?vb sb1" using v1(1) b(1) by (intro alloc_inv_cong [OF v1(1)]) (auto simp: alloc_inv_def)
  have alb: "allocd ?vb x \<longleftrightarrow> x = b \<or> allocd v x" if "x < 20480" for x
  proof -
    have "allocd ?vb x = allocd v1 x" using that b(1) by (intro allocd_cong) auto
    then show ?thesis by (simp add: v1(2))
  qed
  have lowb: "low_use ?vb" using low alb b(2) by (auto simp: low_use_def)
  have jv: "valid_ino (inode_no ?j)" using c(1) by simp
  note put = put_facts [OF inv lowb jv made_inode_sel(2), folded v2]
  show at: "inode_at v2 c = ?j" using put(3) [OF c(1)] by simp
  have d: "is_dir_at v2 c" "live v2 c" using c(1) at by (simp_all add: is_dir_at_def live_def S_IFDIR_def)
  have v2b: "v2 (unat (of_nat b :: u32)) = dots_block c p" using put(4) [OF b(1,2)] ub by simp
  note dots = dots_map [of ?j "of_nat b" v2, OF made_inode_sel(4) v2b]
  have "dir_wf v2 ?j" using dots_wf [of ?j "of_nat b" v2 c p, OF made_inode_sel(4) v2b] b ub by simp
  moreover have "inode_blk c \<noteq> b" using valid_ino_not_data [OF c(1) b(1,2)] by simp
  ultimately have dinv: "dir_inv v2 sb1 ?j"
    using put(1,5) dots(2) alb b ub valid_ino_blk(1) [OF c(1)] by (simp add: dir_inv_def dir_clear_def)
  have ow: "owns v2 {c} = {b}" "owns v {c} = {}" using d c(2) at ub by (simp_all add: owned_def)
  have "op_frame v {c} v2"
    unfolding op_frame_def ow
  proof (intro conjI allI impI ballI)
    show "inode_at v2 m = inode_at v m" if "valid_ino m \<and> m \<notin> {c}" for m
    proof -
      have "inode_blk m \<noteq> b" "6 \<le> inode_blk m"
        using that valid_ino_not_data [of m b] b inode_blk_ge by auto
      then have "inode_at ?vb m = inode_at v m" using v1(3) by (intro inode_at_cong) simp
      with put(3) that show ?thesis by simp
    qed
  qed (use put(4,5) alb v1(3) b in auto)
  moreover have "node_inv v2 sb1 c" using dinv d at by (simp add: node_inv_def)
  ultimately show "store_step v {c} v2 sb1"
    by (intro store_ok_frame [OF ok put(1,2)]) auto
  show "view v2 c = Some (Dir [ascii ''.'' \<mapsto> (c, 2), ascii ''..'' \<mapsto> (p, 2)])"
    using d at dots(1) by (simp add: view_def node_at_def)
  have "{x. x < 89 \<and> \<not> allocd v x} = insert b {x. x < 89 \<and> \<not> allocd v2 x}"
    using put(5) alb b by auto
  moreover have "b \<notin> {x. x < 89 \<and> \<not> allocd v2 x}" using put(5) alb b by auto
  ultimately show "room v2 89 = room v 89 - 1" by (simp add: room_def)
qed

text \<open>
  What \<open>mkdir\<close> of a new name promises in a directory \<open>p\<close>: a directory \<open>c\<close> with its two entries
  in the next free block, and the new name for it.
\<close>

definition mkdir_post :: "volume \<Rightarrow> u32 \<Rightarrow> str \<Rightarrow> u32 \<Rightarrow> reply \<Rightarrow> volume \<Rightarrow> SuperBlock \<Rightarrow> bool" where
  "mkdir_post v p nm c r v' sb' \<longleftrightarrow> store_step v {p, c} v' sb' \<and>
     meta_of (inode_at v' p) = enter_meta (card (dom (dir_map v (inode_at v p)))) (meta_of (inode_at v p)) \<and> (\<exists>b t. next_free v (unat b) \<and> inode_at v' c = made_inode c b t \<and>
     r = ReplyEntry 1 (inode_to_attr (made_inode c b t)) 0 \<and>
     view v' = (view v)(c \<mapsto> Dir [ascii ''.'' \<mapsto> (c, 2), ascii ''..'' \<mapsto> (p, 2)],
       p \<mapsto> Dir ((dir_map v (inode_at v p))(nm \<mapsto> (c, 2)))))"

text \<open>
  The part of \<open>mkdir\<close> after the inode number \<open>n\<close> has been found: the new directory with its
  block, and then its entry in the parent.
\<close>

definition mkdir_node :: "'s SimpleFS \<Rightarrow> u32 \<Rightarrow> u32 \<Rightarrow> 's \<Rightarrow> ((Inode option \<times> SuperBlock) \<times> 's) option" where
  "mkdir_node fs p n s = do {
     (ni, s) \<leftarrow> new_dir (disk_host (fs_disk fs)) n s;
     ((r, sb), s) \<leftarrow> allocate_block (fs_disk fs) (fs_sb fs) s;
     case r of
       None \<Rightarrow> Some ((None, sb), s)
     | Some b \<Rightarrow> do {
         (_, s) \<leftarrow> write_block (fs_disk fs) b (dots_block n p) s;
         let ni = ni\<lparr>direct_blocks := (direct_blocks ni)[0 := b], block_count := 1, isize := 510\<rparr>;
         (_, s) \<leftarrow> write_inode (fs_disk fs) sb ni s;
         Some ((Some ni, sb), s) } }"

definition mkdir_tail :: "'s SimpleFS \<Rightarrow> u32 \<Rightarrow> Inode \<Rightarrow> str \<Rightarrow> u32 \<Rightarrow> 's \<Rightarrow> ((reply \<times> 's SimpleFS) \<times> 's) option" where
  "mkdir_tail fs p pi nm n s = do {
     ((ni, sb), s) \<leftarrow> mkdir_node fs p n s;
     case ni of
       None \<Rightarrow> Some ((ReplyError ENOSPC, fs\<lparr>fs_sb := sb\<rparr>), s)
     | Some ni \<Rightarrow> do {
         ((r, sb, pi), s) \<leftarrow> dir_add_entry (fs_disk fs) sb pi nm n True s;
         case r of
           Inl _ \<Rightarrow> None
         | Inr _ \<Rightarrow> Some ((ReplyEntry 1 (inode_to_attr ni) 0, fs\<lparr>fs_sb := sb\<rparr>), s) } }"

lemma fs_mkdir_eq:
  "fs_mkdir fs parent name = (\<lambda>s. do {
     (pi, s) \<leftarrow> read_inode (fs_disk fs) (fs_sb fs) (ucast parent) s;
     (hit, s) \<leftarrow> dir_find (fs_disk fs) pi (os_str_or name (ascii ''unknown'')) s;
     (\<lambda>pi hit s. if hit \<noteq> None then Some ((ReplyError EEXIST, fs), s)
     else do {
       (c, s) \<leftarrow> find_inode (fs_disk fs) (fs_sb fs) 900 500 s;
       case c of
         None \<Rightarrow> Some ((ReplyError ENOSPC, fs), s)
       | Some n \<Rightarrow> mkdir_tail fs (ucast parent) pi (os_str_or name (ascii ''unknown'')) n s }) pi hit s })"
proof -
  have tail: "mkdir_tail fs p pi nm n s = do {
     (ni, s) \<leftarrow> new_dir (disk_host (fs_disk fs)) n s;
     ((r, sb), s) \<leftarrow> allocate_block (fs_disk fs) (fs_sb fs) s;
     case r of
       None \<Rightarrow> Some ((ReplyError ENOSPC, fs\<lparr>fs_sb := sb\<rparr>), s)
     | Some b \<Rightarrow> do {
         (_, s) \<leftarrow> write_block (fs_disk fs) b (dots_block n p) s;
         let ni = ni\<lparr>direct_blocks := (direct_blocks ni)[0 := b], block_count := 1, isize := 510\<rparr>;
         (_, s) \<leftarrow> write_inode (fs_disk fs) sb ni s;
         ((r, sb, pi), s) \<leftarrow> dir_add_entry (fs_disk fs) sb pi nm n True s;
         case r of
           Inl _ \<Rightarrow> None
         | Inr _ \<Rightarrow> Some ((ReplyEntry 1 (inode_to_attr ni) 0, fs\<lparr>fs_sb := sb\<rparr>), s) } }" for p pi nm n s
    by (auto simp: mkdir_tail_def mkdir_node_def Let_def split: Option.bind_splits option.splits)
  show ?thesis
    unfolding fs_mkdir_def [abs_def] Let_def tail dots_block_def
    by (simp cong: option.case_cong if_cong sum.case_cong)
qed

lemma mkdir_node_awp:
  fixes fs :: "'s SimpleFS"
  defines "d \<equiv> fs_disk fs" and "sb \<equiv> fs_sb fs"
  assumes ok: "store_ok v sb" and room: "0 < room v 89" and c: "valid_ino c" "\<not> live v c"
    and Q: "\<And>b t sb2 v2. store_step v {c} v2 sb2 \<Longrightarrow>
      view v2 c = Some (Dir [ascii ''.'' \<mapsto> (c, 2), ascii ''..'' \<mapsto> (p, 2)]) \<Longrightarrow>
      inode_at v2 c = made_inode c b t \<Longrightarrow> room v2 89 = room v 89 - 1 \<Longrightarrow> next_free v (unat b) \<Longrightarrow> Q (Some (made_inode c b t), sb2) v2"
  shows "dwp d (mkdir_node fs p c) Q v"
  unfolding mkdir_node_def [abs_def] d_def [symmetric] sb_def [symmetric] Let_def
proof (rule awp_bind, rule new_dir_awp, unfold prod.case, rule awp_bind,
    rule allocate_block_awp [of v sb], goal_cases)
  case 1
  show ?case using ok by (simp add: store_ok_def)
next
  case (2 t)
  with room_free [OF room] show ?case by simp
next
  case (3 t b v1)
  let ?free = "sb\<lparr>free_blocks := free_blocks sb - 1\<rparr>"
  have lay: "vol v1" "sb_layout ?free" "unat (of_nat b :: u32) = b" using 3(1,6) by (auto simp: alloc_inv_def unat_of_nat)
  have b89: "b < 89" using room_pos [OF room 3(4)] .
  have v1: "allocd v1 = (\<lambda>x. x = b \<or> allocd v x)" "\<And>x. 6 \<le> x \<Longrightarrow> v1 x = v x"
    using 3(5) by (auto simp: bitmap_post_def)
  note st = new_dir_step [OF ok c 3(2) b89 3(3,6) v1 refl, where p = p and t = t]
  have nf: "next_free v (unat (of_nat b :: u32))" using 3(1,3,4) lay(3) by (simp add: next_free_def)
  show ?case
    unfolding Inode.select_convs made_inode_fold prod.case option.case
    using lay 3(1) valid_ino_blk(1) [OF c(1)] Q [OF st nf]
    by (intro awp_bind write_block_awp) (simp_all, intro awp_bind write_inode_awp, simp_all, rule awp_return)
qed

text \<open>The entry of the new directory in its parent: it is made, or the parent is full.\<close>

lemma mkdir_entry_awp:
  assumes ok: "store_ok v sb" and p: "live v p" "is_dir_at v p" "card (dom (dir_map v (inode_at v p))) < 150"
    and room: "0 < room v 89" and nm: "name_ok nm" "dir_map v (inode_at v p) nm = None"
    and Q: "\<And>sb' i' v'. store_step v {p} v' sb' \<Longrightarrow>
      view v' p = Some (Dir ((dir_map v (inode_at v p))(nm \<mapsto> (c, 2)))) \<Longrightarrow>
      meta_of (inode_at v' p) = enter_meta (card (dom (dir_map v (inode_at v p)))) (meta_of (inode_at v p)) \<Longrightarrow> Q (Inr (), sb', i') v'"
  shows "dwp d (dir_add_entry d sb (inode_at v p) nm c True) Q v"
proof (rule awp_mono [OF add_entry_step [OF ok p(1,2) room nm]], goal_cases)
  case (1 x v')
  obtain r sb' i' where x: "x = (r, sb', i')" by (cases x) auto
  from 1 x p(3) room_free [OF room] Q show ?case by (cases r) auto
qed

lemma full_entry_awp:
  assumes ok: "store_ok v sb" and p: "live v p" "is_dir_at v p" "card (dom (dir_map v (inode_at v p))) = 150"
    and room: "0 < room v 89" and nm: "name_ok nm" "dir_map v (inode_at v p) nm = None"
    and Q: "\<And>e. Q (Inl e, sb, inode_at v p) v"
  shows "dwp d (dir_add_entry d sb (inode_at v p) nm c isd) Q v"
proof (rule awp_mono [OF add_entry_step [OF ok p(1,2) room nm]], goal_cases)
  case (1 x v')
  obtain r sb' i' where x: "x = (r, sb', i')" by (cases x) auto
  show ?case
  proof (cases r)
    case (Inr u)
    let ?m = "(dir_map v (inode_at v p))(nm \<mapsto> (c, if isd then 2 else 1))"
    from 1 x Inr have a: "store_step v {p} v' sb'" "view v' p = Some (Dir ?m)" by auto
    then have p': "live v' p" "is_dir_at v' p" "?m = dir_map v' (inode_at v' p)"
      by (auto simp: view_def node_at_def split: if_splits)
    have "card (dom ?m) \<le> 150" unfolding p'(3) by (rule dir_card_le [OF live_dir(1) [OF store_stepD(1) [OF a(1)] p'(1,2)]])
    moreover have "finite (dom (dir_map v (inode_at v p)))" using p(3) by (intro card_ge_0_finite) simp
    ultimately show ?thesis using p(3) nm(2) by (simp add: card_insert_if domIff)
  qed (use 1 x Q in auto)
qed

lemma mkdir_tail_awp:
  fixes fs :: "'s SimpleFS"
  defines "d \<equiv> fs_disk fs" and "sb \<equiv> fs_sb fs"
  assumes ok: "store_ok v sb" and p: "live v p" "is_dir_at v p" "card (dom (dir_map v (inode_at v p))) < 150"
    and room: "2 \<le> room v 89" and nm: "name_ok nm" "dir_map v (inode_at v p) nm = None"
    and c: "valid_ino c" "\<not> live v c"
    and Q: "\<And>r sb' v'. mkdir_post v p nm c r v' sb' \<Longrightarrow> Q (r, fs\<lparr>fs_sb := sb'\<rparr>) v'"
  shows "dwp d (mkdir_tail fs p (inode_at v p) nm c) Q v"
  unfolding mkdir_tail_def [abs_def] d_def
proof (rule awp_bind, rule mkdir_node_awp [OF ok [unfolded sb_def] _ c], goal_cases)
  case 1
  show ?case using room by simp
next
  case (2 b t sb2 v2)
  have pc: "p \<notin> {c}" using p(1) c(2) by auto
  note ok1 = store_stepD(1) [OF 2(1)] and p1 = live_other [OF 2(1) pc p(1)]
  have rm: "0 < room v2 89" using room 2(4) by simp
  have nm1: "dir_map v2 (inode_at v p) = dir_map v (inode_at v p)" using p1 p(2) by (auto simp: node_at_def)
  let ?r = "ReplyEntry 1 (inode_to_attr (made_inode c b t)) 0"
  have fin: "Q (?r, fs\<lparr>fs_sb := sb'\<rparr>) v'"
    if a: "store_step v2 {p} v' sb'" "view v' p = Some (Dir ((dir_map v (inode_at v p))(nm \<mapsto> (c, 2))))"
      "meta_of (inode_at v' p) = enter_meta (card (dom (dir_map v (inode_at v p)))) (meta_of (inode_at v p))" for v' sb'
  proof (rule Q)
    have "store_step v {p, c} v' sb'" by (rule store_step_trans [OF 2(1) a(1)]) auto
    moreover have "inode_at v' c = made_inode c b t" using store_stepD(2) [OF a(1) c(1)] pc 2(3) by auto
    moreover have "view v' = (view v)(c \<mapsto> Dir [ascii ''.'' \<mapsto> (c, 2), ascii ''..'' \<mapsto> (p, 2)],
        p \<mapsto> Dir ((dir_map v (inode_at v p))(nm \<mapsto> (c, 2))))"
      using store_step_view [OF a(1,2)] store_step_view [OF 2(1,2)] by simp
    ultimately show "mkdir_post v p nm c ?r v' sb'" using a(3) 2(5) by (auto simp: mkdir_post_def)
  qed
  have "dwp (fs_disk fs) (dir_add_entry (fs_disk fs) sb2 (inode_at v2 p) nm c True) (\<lambda>x. dwp (fs_disk fs) (case x of (r, sb', pi) \<Rightarrow>
      \<lambda>s. case r of Inl _ \<Rightarrow> None | Inr _ \<Rightarrow> Some ((?r, fs\<lparr>fs_sb := sb'\<rparr>), s)) Q) v2"
    by (rule mkdir_entry_awp [OF ok1 _ _ _ rm nm(1)]) (use p1 p nm nm1 fin in \<open>auto intro!: awp_return\<close>)
  with p1 show ?case by (simp, intro awp_bind) simp
qed

text \<open>In a full directory the result of \<open>dir_add_entry\<close> is unwrapped although it is an error.\<close>

lemma mkdir_tail_panics:
  fixes fs :: "'s SimpleFS"
  assumes ok: "store_ok v (fs_sb fs)" and p: "live v p" "is_dir_at v p" "card (dom (dir_map v (inode_at v p))) = 150"
    and room: "2 \<le> room v 89" and nm: "name_ok nm" "dir_map v (inode_at v p) nm = None"
    and c: "valid_ino c" "\<not> live v c"
  shows "dpanics (fs_disk fs) (mkdir_tail fs p (inode_at v p) nm c) v"
  unfolding mkdir_tail_def [abs_def]
proof (rule panics_bind, rule mkdir_node_awp [OF ok _ c], goal_cases)
  case 1
  show ?case using room by simp
next
  case (2 b t sb2 v2)
  have pc: "p \<notin> {c}" using p(1) c(2) by auto
  note p1 = live_other [OF 2(1) pc p(1)]
  have nm1: "dir_map v2 (inode_at v p) = dir_map v (inode_at v p)" using p1 p(2) by (auto simp: node_at_def)
  have "dwp (fs_disk fs) (dir_add_entry (fs_disk fs) sb2 (inode_at v2 p) nm c True) (\<lambda>x. dpanics (fs_disk fs) (case x of (r, sb', pi) \<Rightarrow>
      \<lambda>s. case r of Inl _ \<Rightarrow> None
        | Inr _ \<Rightarrow> Some ((ReplyEntry 1 (inode_to_attr (made_inode c b t)) 0, fs\<lparr>fs_sb := sb'\<rparr>), s))) v2"
    by (rule full_entry_awp [OF store_stepD(1) [OF 2(1)]]) (use p1 p nm nm1 room 2(4) in \<open>auto intro: panics_None\<close>)
  with p1 show ?case by (simp, intro panics_bind) simp
qed

lemma fs_mkdir_awp:
  fixes fs :: "'s SimpleFS" and parent :: u64 and name :: "byte list"
  defines "p \<equiv> ucast parent :: u32" and "nm \<equiv> os_str_or name (ascii ''unknown'')"
  assumes ok: "store_ok v (fs_sb fs)" and p: "live v p" "is_dir_at v p" "card (dom (dir_map v (inode_at v p))) < 150"
    and room: "2 \<le> room v 89" and nm: "name_ok nm"
    and exists: "dir_map v (inode_at v p) nm \<noteq> None \<Longrightarrow> Q (ReplyError EEXIST, fs) v"
    and noinode: "dir_map v (inode_at v p) nm = None \<Longrightarrow> first_free v 500 900 = None \<Longrightarrow> Q (ReplyError ENOSPC, fs) v"
    and Q: "\<And>k r sb' v'. dir_map v (inode_at v p) nm = None \<Longrightarrow> first_free v 500 900 = Some k \<Longrightarrow>
      mkdir_post v p nm (of_nat k) r v' sb' \<Longrightarrow> Q (r, fs\<lparr>fs_sb := sb'\<rparr>) v'"
  shows "dwp (fs_disk fs) (fs_mkdir fs parent name) Q v"
  unfolding fs_mkdir_eq p_def [symmetric] nm_def [symmetric]
proof (rule parent_find_awp [OF ok p(1,2)], goal_cases)
  case (1 hit)
  let ?d = "fs_disk fs" and ?sb = "fs_sb fs"
  show ?case
  proof (cases "dir_map v (inode_at v p) nm")
    case (Some x)
    with 1 exists show ?thesis by (auto intro: awp_return)
  next
    case None
    with 1 have h: "hit = None" by simp
    have "dwp ?d (\<lambda>s. case map_option of_nat (first_free v 500 900) of
        None \<Rightarrow> Some ((ReplyError ENOSPC, fs), s) | Some n \<Rightarrow> mkdir_tail fs p (inode_at v p) nm n s) Q v"
    proof (cases "first_free v 500 900")
      case None
      with noinode \<open>dir_map v (inode_at v p) nm = None\<close> show ?thesis by (auto intro: awp_return)
    next
      case (Some k)
      with \<open>dir_map v (inode_at v p) nm = None\<close> show ?thesis
        using mkdir_tail_awp [OF ok p room nm _ first_free_fresh [OF Some], where Q = Q] Q by simp
    qed
    then have "dwp ?d (find_inode ?d ?sb 900 500) (\<lambda>c. dwp ?d (\<lambda>s. case c of
        None \<Rightarrow> Some ((ReplyError ENOSPC, fs), s) | Some n \<Rightarrow> mkdir_tail fs p (inode_at v p) nm n s) Q) v"
      using live_dir(8,9) [OF ok p(1,2)] by (intro find_inode_awp) simp_all
    then show ?thesis by (simp add: h, intro awp_bind) simp
  qed
qed

lemma fs_mkdir_panics:
  fixes fs :: "'s SimpleFS" and parent :: u64 and name :: "byte list"
  defines "p \<equiv> ucast parent :: u32" and "nm \<equiv> os_str_or name (ascii ''unknown'')"
  assumes ok: "store_ok v (fs_sb fs)" and p: "live v p" "is_dir_at v p" "card (dom (dir_map v (inode_at v p))) = 150"
    and room: "2 \<le> room v 89" and nm: "name_ok nm" "dir_map v (inode_at v p) nm = None" and k: "first_free v 500 900 = Some k"
  shows "dpanics (fs_disk fs) (fs_mkdir fs parent name) v"
  unfolding fs_mkdir_eq p_def [symmetric] nm_def [symmetric]
proof (rule panics_bind, rule read_inode_awp, goal_cases)
  case 4
  let ?d = "fs_disk fs" and ?sb = "fs_sb fs"
  note l = live_dir [OF ok p(1,2)]
  have "dwp ?d (find_inode ?d ?sb 900 500) (\<lambda>c. dpanics ?d (\<lambda>s. case c of
      None \<Rightarrow> Some ((ReplyError ENOSPC, fs), s) | Some n \<Rightarrow> mkdir_tail fs p (inode_at v p) nm n s)) v"
    using l(8,9) k mkdir_tail_panics [OF ok p room nm first_free_fresh [OF k]] by (intro find_inode_awp) simp_all
  then have "dpanics ?d (\<lambda>s. do {
      (c, s) \<leftarrow> find_inode ?d ?sb 900 500 s;
      case c of None \<Rightarrow> Some ((ReplyError ENOSPC, fs), s) | Some n \<Rightarrow> mkdir_tail fs p (inode_at v p) nm n s }) v"
    by (intro panics_bind) simp
  then have "dwp ?d (dir_find ?d (inode_at v p) nm) (\<lambda>hit. dpanics ?d (\<lambda>s. if hit \<noteq> None then Some ((ReplyError EEXIST, fs), s)
      else do {
        (c, s) \<leftarrow> find_inode ?d ?sb 900 500 s;
        case c of None \<Rightarrow> Some ((ReplyError ENOSPC, fs), s) | Some n \<Rightarrow> mkdir_tail fs p (inode_at v p) nm n s })) v"
    by (intro awp_mono [OF dir_find_law [OF l(1)]]) (use nm(2) in auto)
  then show ?case by (simp, intro panics_bind) simp
qed (use live_dir(3,8,9) [OF ok p(1,2)] in simp_all)

section \<open>Releasing the blocks of an inode\<close>

lemma free_loop_awp:
  assumes inv: "alloc_inv v sb" and i: "inode_wf i" "unat (indirect_block i) < 20480"
    and bl: "\<And>v' k. (\<And>x. 6 \<le> x \<Longrightarrow> v' x = v x) \<Longrightarrow> k < length bs \<Longrightarrow> \<exists>b. block_of v' i k = Some b \<and> unat b = bs ! k"
    and bs: "distinct bs" "\<forall>b \<in> set bs. 31 \<le> b \<and> b < 20480 \<and> allocd v b" "length bs \<le> 20"
    and k: "k \<le> length bs"
    and Q: "\<And>v' sb'. alloc_inv v' sb' \<Longrightarrow> (\<And>x. 6 \<le> x \<Longrightarrow> v' x = v x) \<Longrightarrow>
      (\<And>x. allocd v' x \<longleftrightarrow> allocd v x \<and> x \<notin> set (drop k bs)) \<Longrightarrow> Q sb' v'"
  shows "dwp d (free_loop d sb i [k..<length bs]) Q v"
proof -
  have gen: "dwp d (free_loop d sb1 i [k..<length bs]) Q v1"
    if "alloc_inv v1 sb1" "\<And>x. 6 \<le> x \<Longrightarrow> v1 x = v x" "k \<le> length bs"
      and al: "\<And>x. x \<in> set (drop k bs) \<Longrightarrow> allocd v1 x"
      and Q1: "\<And>v' sb'. alloc_inv v' sb' \<Longrightarrow> (\<And>x. 6 \<le> x \<Longrightarrow> v' x = v x) \<Longrightarrow>
        (\<And>x. allocd v' x \<longleftrightarrow> allocd v1 x \<and> x \<notin> set (drop k bs)) \<Longrightarrow> Q sb' v'" for v1 sb1 k
    using that
  proof (induction "length bs - k" arbitrary: k v1 sb1)
    case 0
    then show ?case by (auto intro!: awp_rules)
  next
    case (Suc m)
    then have kk: "k < length bs" "m = length bs - Suc k" by auto
    obtain b where b: "block_of v1 i k = Some b" "unat b = bs ! k" using bl [OF Suc.prems(2) kk(1)] by blast
    have mem: "unat b \<in> set bs" using b(2) kk(1) by simp
    have dr: "drop k bs = unat b # drop (Suc k) bs" using b(2) kk(1) by (simp add: Cons_nth_drop_Suc)
    have nin: "unat b \<notin> set (drop (Suc k) bs)"
      using bs(1) dr by (metis distinct.simps(2) distinct_drop)
    have uk: "unat (of_nat k :: u32) = k" using kk(1) bs(3) by (simp add: unat_of_nat)
    have v1: "vol v1" using Suc.prems(1) by (simp add: alloc_inv_def)
    have free: "dwp d (mark_free d sb1 b) (\<lambda>sb'. dwp d (free_loop d sb' i [Suc k..<length bs]) Q) v1"
    proof (rule awp_mono [OF mark_free_law [OF Suc.prems(1)]], goal_cases)
      case (4 sb2 v2)
      then have 2: "alloc_inv v2 sb2" "\<And>x. 6 \<le> x \<Longrightarrow> v2 x = v x" "allocd v2 = (allocd v1)(unat b := False)"
        using Suc.prems(2) by auto
      show ?case
      proof (rule Suc.hyps(1) [OF kk(2) 2(1,2)])
        show "allocd v2 x" if "x \<in> set (drop (Suc k) bs)" for x
          using that nin Suc.prems(4) dr 2(3) by auto
        show "Q sb' v'" if "alloc_inv v' sb'" "\<And>x. 6 \<le> x \<Longrightarrow> v' x = v x"
            "\<And>x. allocd v' x \<longleftrightarrow> allocd v2 x \<and> x \<notin> set (drop (Suc k) bs)" for v' sb'
          using that 2(3) dr by (intro Suc.prems(5)) auto
      qed (use kk in auto)
    qed (use mem bs(2) Suc.prems(4) dr in auto)
    show ?case
      unfolding upt_conv_Cons [OF kk(1)] ext [OF free_loop.simps(2)]
      by (intro awp_bind get_block_awp v1 i) (use uk b(1) free in \<open>auto intro!: awp_bind\<close>)
  qed
  show ?thesis
    by (rule gen [OF inv _ k]) (use bs(2) Q in \<open>auto dest: in_set_dropD\<close>)
qed

text \<open>All the blocks of a file, the indirect block included.\<close>

lemma free_file_awp:
  assumes inv: "file_inv v sb i"
    and Q: "\<And>v' sb'. alloc_inv v' sb' \<Longrightarrow> (\<And>x. 6 \<le> x \<Longrightarrow> v' x = v x) \<Longrightarrow>
      (\<And>x. allocd v' x \<longleftrightarrow> allocd v x \<and> x \<notin> set (file_all v i)) \<Longrightarrow> Q sb' v'"
  shows "dwp d (\<lambda>s. do {
      (sb, s) \<leftarrow> free_loop d sb i [0..<unat (block_count i)] s;
      if indirect_block i \<noteq> 0 then mark_free d sb (indirect_block i) s else Some (sb, s) }) Q v"
proof -
  note f = file_inv_facts [OF inv]
  note w = file_wf_facts [OF f(2)]
  let ?bs = "file_blocks v i"
  have bl: "\<exists>b. block_of v' i k = Some b \<and> unat b = ?bs ! k"
    if "\<And>x. 6 \<le> x \<Longrightarrow> v' x = v x" "k < length ?bs" for v' k
  proof -
    have "indirect_block i \<noteq> 0 \<longrightarrow> 31 \<le> unat (indirect_block i)" using f(2) by (auto simp: file_wf_def file_all_def)
    then have "block_of v' i = block_of v i" using that(1) by (intro file_blocks_cong) auto
    moreover have "k < unat (block_count i)" using that(2) w(5) by simp
    ultimately show ?thesis using file_block_of [OF f(2), of k] by metis
  qed
  have mem: "\<forall>b \<in> set ?bs. 31 \<le> b \<and> b < 20480 \<and> allocd v b" using f(3) by (simp add: file_all_def)
  have len: "length ?bs \<le> 20" using w(4,5) by simp
  show ?thesis
  proof (rule awp_bind, unfold w(5) [symmetric], rule free_loop_awp [OF f(1) w(2,8) bl w(6) mem len], goal_cases)
    case (4 v1 sb1)
    show ?case
    proof (cases "indirect_block i = 0")
      case True
      with f(2) have "file_all v i = ?bs" by (simp add: file_wf_def file_all_def)
      with 4 True Q show ?thesis by (auto intro!: awp_rules)
    next
      case False
      with f(2) have all: "file_all v i = ?bs @ [unat (indirect_block i)]" "unat (indirect_block i) \<notin> set ?bs"
        by (auto simp: file_wf_def file_all_def)
      with f(3) 4(3) have ib: "31 \<le> unat (indirect_block i)" "unat (indirect_block i) < 20480" "allocd v1 (unat (indirect_block i))"
        by auto
      have "dwp d (mark_free d sb1 (indirect_block i)) Q v1"
        by (rule awp_mono [OF mark_free_law [OF 4(1) ib]], rule Q) (use 4 all in auto)
      with False show ?thesis by simp
    qed
  qed simp_all
qed


section \<open>Removing a file\<close>

text \<open>An inode whose blocks have been released is marked as unused.\<close>

lemma drop_node_step:
  assumes ok: "store_ok v sb" and c: "live v c"
    and v1: "alloc_inv v1 sb1" "\<And>x. 6 \<le> x \<Longrightarrow> v1 x = v x" "\<And>x. allocd v1 x \<longleftrightarrow> allocd v x \<and> x \<notin> owned v c"
  shows "store_step v {c} (put_inode v1 ((inode_at v c)\<lparr>nlink := 0\<rparr>)) sb1"
    "view (put_inode v1 ((inode_at v c)\<lparr>nlink := 0\<rparr>)) c = None"
    "inode_at (put_inode v1 ((inode_at v c)\<lparr>nlink := 0\<rparr>)) c = (inode_at v c)\<lparr>nlink := 0\<rparr>"
proof -
  let ?j = "(inode_at v c)\<lparr>nlink := 0\<rparr>"
  let ?v2 = "put_inode v1 ?j"
  have inv: "low_use v" "vol v" and cv: "valid_ino c"
    using ok c by (auto simp: store_ok_def live_def alloc_inv_def)
  have low1: "low_use v1" using inv(1) v1(3) by (auto simp: low_use_def)
  have j: "inode_no ?j = c" "inode_wf ?j" "valid_ino (inode_no ?j)"
    using inode_at_decode [OF inv(2) valid_ino_blk(1) [OF cv]] cv by (simp_all add: inode_wf_def)
  note put = put_facts [OF v1(1) low1 j(3,2)]
  show at: "inode_at ?v2 c = ?j" using put(3) [OF cv] j(1) by simp
  then have nl: "\<not> live ?v2 c" by (simp add: live_def)
  then show "view ?v2 c = None" by (simp add: view_def)
  have "op_frame v {c} ?v2"
    unfolding op_frame_def owns_one using nl c
  proof (simp, intro conjI allI impI)
    show "inode_at ?v2 m = inode_at v m" if "valid_ino m \<and> m \<noteq> c" for m
      using put(3) that j(1) inode_at_cong [of v1 m v] v1(2) inode_blk_ge by simp
  qed (use put(4,5) v1(2,3) in auto)
  then show "store_step v {c} ?v2 sb1" using nl by (intro store_ok_frame [OF ok put(1,2)]) auto
qed

text \<open>
  What \<open>unlink\<close> of the name of a file \<open>c\<close> promises: the name and the file are gone; by the
  invariant no block is left in use without an owner, so its blocks are free again.
\<close>

definition remove_post :: "volume \<Rightarrow> u32 \<Rightarrow> str \<Rightarrow> u32 \<Rightarrow> volume \<Rightarrow> SuperBlock \<Rightarrow> bool" where
  "remove_post v p nm c v' sb' \<longleftrightarrow> store_step v {p, c} v' sb' \<and> owned v' p = owned v p \<and> meta_of (inode_at v' p) = meta_of (inode_at v p) \<and> inode_at v' c = (inode_at v c)\<lparr>nlink := 0\<rparr> \<and>
     view v' = (view v)(c := None, p \<mapsto> Dir ((dir_map v (inode_at v p))(nm := None)))"

text \<open>The part of \<open>unlink\<close> after the blocks have been released.\<close>

definition unlink_tail :: "'s SimpleFS \<Rightarrow> Inode \<Rightarrow> str \<Rightarrow> Inode \<Rightarrow> SuperBlock \<Rightarrow> 's \<Rightarrow> ((reply \<times> 's SimpleFS) \<times> 's) option" where
  "unlink_tail fs pi nm j sb s = do {
     (_, s) \<leftarrow> write_inode (fs_disk fs) sb (j\<lparr>nlink := 0\<rparr>) s;
     ((r, pi), s) \<leftarrow> dir_remove_entry (fs_disk fs) sb pi nm s;
     case r of Inl _ \<Rightarrow> None | Inr _ \<Rightarrow> Some ((ReplyOk, fs\<lparr>fs_sb := sb\<rparr>), s) }"

lemma unlink_tail_awp:
  assumes ok: "store_ok v sb" and p: "live v p" "is_dir_at v p" and c: "live v c" "p \<noteq> c"
    and nm: "dir_map v (inode_at v p) nm \<noteq> None"
    and v1: "alloc_inv v1 sb1" "\<And>x. 6 \<le> x \<Longrightarrow> v1 x = v x" "\<And>x. allocd v1 x \<longleftrightarrow> allocd v x \<and> x \<notin> owned v c"
    and Q: "\<And>v'. remove_post v p nm c v' sb1 \<Longrightarrow> Q (ReplyOk, fs\<lparr>fs_sb := sb1\<rparr>) v'"
  shows "dwp (fs_disk fs) (unlink_tail fs (inode_at v p) nm (inode_at v c) sb1) Q v1"
proof -
  let ?d = "fs_disk fs" and ?j = "(inode_at v c)\<lparr>nlink := 0\<rparr>"
  let ?v2 = "put_inode v1 ?j"
  note st = drop_node_step [OF ok c(1) v1]
  have pc: "p \<notin> {c}" and cv: "valid_ino c" using c by (simp_all add: live_def)
  note ok2 = store_stepD(1) [OF st(1)] and p2 = live_other [OF st(1) pc p(1)]
  have lay: "vol v1" "sb_layout sb1" "vol v" using v1(1) ok by (auto simp: alloc_inv_def store_ok_def)
  have j: "inode_wf ?j" "on_disk (inode_no ?j)"
    using inode_at_decode [OF lay(3) valid_ino_blk(1) [OF cv]] valid_ino_blk(1) [OF cv] by (simp_all add: inode_wf_def)
  have m2: "dir_map ?v2 (inode_at v p) = dir_map v (inode_at v p)" using p2 p(2) by (auto simp: node_at_def)
  have nm2: "dir_map ?v2 (inode_at ?v2 p) nm \<noteq> None" using m2 p2 nm by simp
  have "dwp ?d (dir_remove_entry ?d sb1 (inode_at ?v2 p) nm) (\<lambda>x. dwp ?d (case x of (r, pi) \<Rightarrow>
      \<lambda>s. case r of Inl _ \<Rightarrow> None | Inr _ \<Rightarrow> Some ((ReplyOk, fs\<lparr>fs_sb := sb1\<rparr>), s)) Q) ?v2"
  proof (rule awp_mono [OF remove_entry_step [OF ok2 _ _ nm2]], goal_cases)
    case (4 x v')
    then obtain i' where x: "x = (Inr (), i')" and a: "store_step ?v2 {p} v' sb1"
        "view v' p = Some (Dir ((dir_map v (inode_at v p))(nm := None)))" "meta_of (inode_at v' p) = meta_of (inode_at v p)"
        "owned v' p = owned ?v2 p"
      using p2 m2 by (cases x) auto
    have "store_step v {p, c} v' sb1" by (rule store_step_trans [OF st(1) a(1)]) auto
    moreover have "inode_at v' c = ?j" using store_stepD(2) [OF a(1) cv] pc st(3) by auto
    moreover have "view v' = (view v)(c := None, p \<mapsto> Dir ((dir_map v (inode_at v p))(nm := None)))"
      using store_step_view [OF a(1,2)] store_step_view [OF st(1,2)] by simp
    moreover have "owned ?v2 p = owned v p" using p2 p(2) by (simp add: owned_def)
    ultimately have "remove_post v p nm c v' sb1" using a(3,4) by (simp add: remove_post_def)
    from Q [OF this] show ?case by (simp add: x, intro awp_return)
  qed (use p2 p in auto)
  then have "dwp ?d (dir_remove_entry ?d sb1 (inode_at v p) nm) (\<lambda>x. dwp ?d (case x of (r, pi) \<Rightarrow>
      \<lambda>s. case r of Inl _ \<Rightarrow> None | Inr _ \<Rightarrow> Some ((ReplyOk, fs\<lparr>fs_sb := sb1\<rparr>), s)) Q) ?v2"
    using p2 by simp
  then show ?thesis
    unfolding unlink_tail_def [abs_def]
    by (intro awp_bind write_inode_awp lay j) (simp, rule awp_bind, simp)
qed

text \<open>\<open>unlink\<close> and its part that releases the blocks.\<close>

definition unlink_free :: "'s SimpleFS \<Rightarrow> Inode \<Rightarrow> 's \<Rightarrow> (SuperBlock \<times> 's) option" where
  "unlink_free fs j s = do {
     (sb, s) \<leftarrow> free_loop (fs_disk fs) (fs_sb fs) j [0..<unat (block_count j)] s;
     if indirect_block j \<noteq> 0 then mark_free (fs_disk fs) sb (indirect_block j) s else Some (sb, s) }"

lemma fs_unlink_eq:
  "fs_unlink fs parent name = (\<lambda>s. do {
     (pi, s) \<leftarrow> read_inode (fs_disk fs) (fs_sb fs) (ucast parent) s;
     (hit, s) \<leftarrow> dir_find (fs_disk fs) pi (os_str_or name []) s;
     (\<lambda>pi hit s. case hit of
       None \<Rightarrow> Some ((ReplyError ENOENT, fs), s)
     | Some (entry, _, _) \<Rightarrow> do {
         (j, s) \<leftarrow> read_inode (fs_disk fs) (fs_sb fs) (entry_inode entry) s;
         if mode j AND S_IFDIR \<noteq> 0 then Some ((ReplyError EISDIR, fs), s)
         else do { (sb, s) \<leftarrow> unlink_free fs j s; unlink_tail fs pi (os_str_or name []) j sb s } }) pi hit s })"
  unfolding fs_unlink_def [abs_def] Let_def unlink_free_def unlink_tail_def
  by (simp add: split_def cong: option.case_cong if_cong)

lemma fs_unlink_awp:
  fixes fs :: "'s SimpleFS" and parent :: u64 and name :: "byte list"
  defines "p \<equiv> ucast parent :: u32" and "nm \<equiv> os_str_or name []"
  assumes ok: "store_ok v (fs_sb fs)" and p: "live v p" "is_dir_at v p"
    and entry: "\<And>c ty. dir_map v (inode_at v p) nm = Some (c, ty) \<Longrightarrow> live v c"
    and none: "dir_map v (inode_at v p) nm = None \<Longrightarrow> Q (ReplyError ENOENT, fs) v"
    and isdir: "\<And>c ty. dir_map v (inode_at v p) nm = Some (c, ty) \<Longrightarrow> is_dir_at v c \<Longrightarrow> Q (ReplyError EISDIR, fs) v"
    and Q: "\<And>c ty sb' v'. dir_map v (inode_at v p) nm = Some (c, ty) \<Longrightarrow> \<not> is_dir_at v c \<Longrightarrow>
      remove_post v p nm c v' sb' \<Longrightarrow> Q (ReplyOk, fs\<lparr>fs_sb := sb'\<rparr>) v'"
  shows "dwp (fs_disk fs) (fs_unlink fs parent name) Q v"
  unfolding fs_unlink_eq p_def [symmetric] nm_def [symmetric]
proof (rule parent_find_awp [OF ok p], goal_cases)
  case (1 hit)
  let ?d = "fs_disk fs"
  show ?case
  proof (cases hit)
    case None
    with 1 none show ?thesis by (auto intro: awp_return)
  next
    case (Some x)
    then obtain e b off where h: "hit = Some (e, b, off)" by (cases x) auto
    let ?c = "entry_inode e"
    have m: "dir_map v (inode_at v p) nm = Some (?c, entry_type e)" using 1 h by simp
    have lc: "live v ?c" by (rule entry [OF m])
    then have od: "on_disk ?c" by (intro valid_ino_blk(1)) (simp add: live_def)
    note l = live_dir(8,9) [OF ok p]
    have del: "dwp ?d (unlink_free fs (inode_at v ?c)) (\<lambda>sb. dwp ?d (unlink_tail fs (inode_at v p) nm (inode_at v ?c) sb) Q) v"
      if nd: "\<not> is_dir_at v ?c"
      unfolding unlink_free_def [abs_def]
    proof (rule free_file_awp [OF live_file(1) [OF ok lc nd]], goal_cases)
      case (1 v1 sb1)
      with m lc nd p show ?case
        by (intro unlink_tail_awp [OF ok p lc] Q [OF m nd]) (auto simp: live_file(7) [OF ok lc nd])
    qed
    have "dwp ?d (\<lambda>s. if mode (inode_at v ?c) AND S_IFDIR \<noteq> 0 then Some ((ReplyError EISDIR, fs), s)
        else do { (sb, s) \<leftarrow> unlink_free fs (inode_at v ?c) s; unlink_tail fs (inode_at v p) nm (inode_at v ?c) sb s }) Q v"
    proof (cases "is_dir_at v ?c")
      case True
      with isdir [OF m] show ?thesis by (auto simp: is_dir_at_def intro: awp_return)
    next
      case False
      with del show ?thesis by (simp add: is_dir_at_def) (rule awp_bind, simp)
    qed
    with l od show ?thesis by (simp add: h, intro awp_bind read_inode_awp) simp_all
  qed
qed

section \<open>Removing a directory\<close>

text \<open>The blocks of a directory are released one by one; it has no indirect block.\<close>

lemma free_dir_awp:
  assumes ok: "store_ok v sb" and c: "live v c" "is_dir_at v c"
    and Q: "\<And>v1 sb1. alloc_inv v1 sb1 \<Longrightarrow> (\<And>x. 6 \<le> x \<Longrightarrow> v1 x = v x) \<Longrightarrow>
      (\<And>x. allocd v1 x \<longleftrightarrow> allocd v x \<and> x \<notin> owned v c) \<Longrightarrow> Q sb1 v1"
  shows "dwp d (free_loop d sb (inode_at v c) [0..<unat (block_count (inode_at v c))]) Q v"
proof -
  let ?i = "inode_at v c"
  let ?bs = "map unat (dir_blocks ?i)"
  note l = live_dir [OF ok c] and b = dir_inv_blocks [OF live_dir(1) [OF ok c]]
  have wf: "dir_wf v ?i" using l(1) by (simp add: dir_inv_def)
  have len: "length ?bs = unat (block_count ?i)" "length ?bs \<le> 20"
    using length_dir_blocks [OF wf] wf by (simp_all add: dir_wf_def)
  have bl: "\<exists>b. block_of v' ?i k = Some b \<and> unat b = ?bs ! k" if "k < length ?bs" for v' k
  proof -
    have k: "k < unat (block_count ?i)" using that len by simp
    then have "k < 10" using wf by (simp add: dir_wf_def)
    then have "block_of v' ?i k = block_of v ?i k" by (simp add: block_of_def)
    with dir_block_of [OF wf k] that show ?thesis by auto
  qed
  have dist: "distinct ?bs" using wf by (auto simp: dir_wf_def distinct_map inj_on_def word_unat_eq_iff)
  have ind: "unat (indirect_block ?i) < 20480" using wf by (simp add: dir_wf_def)
  have mem: "\<forall>b \<in> set ?bs. 31 \<le> b \<and> b < 20480 \<and> allocd v b" using b(4) by auto
  have inv: "alloc_inv v sb" using ok by (simp add: store_ok_def)
  show ?thesis
    unfolding len(1) [symmetric]
    by (rule free_loop_awp [OF inv b(1) ind _ dist mem len(2)]) (use bl Q l(7) in auto)
qed

text \<open>
  In \<open>rmdir\<close> the blocks are released first, then the entry is removed, then the inode is marked:
  in between the disk is not consistent, so the frame is shown for the three steps together.
\<close>

lemma rmdir_entry:
  fixes v :: volume and p c :: u32
  defines "B \<equiv> unat ` set (dir_blocks (inode_at v p))"
  assumes ok: "store_ok v sb" and p: "live v p" "is_dir_at v p" and c: "live v c" "is_dir_at v c" "p \<noteq> c"
    and v1: "alloc_inv v1 sb1" "\<forall>x. 6 \<le> x \<longrightarrow> v1 x = v x" "\<And>x. allocd v1 x \<longleftrightarrow> allocd v x \<and> x \<notin> owned v c"
    and v2: "dir_inv v2 sb1 i'" "dir_changed v1 (inode_at v p) v2 i'" "dir_blocks i' = dir_blocks (inode_at v p)"
  shows "inode_at v2 p = i'" "nlink i' = nlink (inode_at v p)" "mode i' = mode (inode_at v p)" "low_use v2"
    "\<And>x. x < 20480 \<Longrightarrow> allocd v2 x \<longleftrightarrow> allocd v x \<and> x \<notin> owned v c"
    "\<And>m. valid_ino m \<Longrightarrow> inode_blk m \<notin> B" "\<And>m. valid_ino m \<Longrightarrow> m \<noteq> p \<Longrightarrow> inode_at v2 m = inode_at v m"
    "\<And>x. 31 \<le> x \<Longrightarrow> x < 89 \<Longrightarrow> x \<notin> B \<Longrightarrow> v2 x = v x"
proof -
  note l = live_dir [OF ok p]
  have low: "low_use v" using ok by (simp add: store_ok_def)
  have BC: "B \<inter> owned v c = {}" using store_okD(4) [OF ok p(1) c(1,3)] l(7) by (simp add: B_def)
  have B: "31 \<le> x" "x < 89" "allocd v x" if "x \<in> B" for x
    using that dir_inv_blocks(4) [OF l(1)] dir_blocks_low [OF l(1) low] by (auto simp: B_def)
  have ch: "inode_at v2 p = i'" "nlink i' = nlink (inode_at v p)" "mode i' = mode (inode_at v p)"
      "\<And>x. 6 \<le> x \<Longrightarrow> x \<notin> B \<Longrightarrow> x \<noteq> inode_blk p \<Longrightarrow> v2 x = v1 x"
      "\<And>m. on_disk m \<Longrightarrow> m \<noteq> p \<Longrightarrow> inode_blk m \<notin> B \<Longrightarrow> inode_at v2 m = inode_at v1 m"
      "\<And>x. x < 20480 \<Longrightarrow> allocd v2 x \<longleftrightarrow> allocd v1 x \<or> x \<in> B"
    using v2(2,3) l(2) by (auto simp: dir_changed_def B_def)
  show "inode_at v2 p = i'" "nlink i' = nlink (inode_at v p)" "mode i' = mode (inode_at v p)" by (fact ch)+
  show al2: "allocd v2 x \<longleftrightarrow> allocd v x \<and> x \<notin> owned v c" if "x < 20480" for x
    using ch(6) [OF that] v1(3) B(3) BC by auto
  show "low_use v2" using low al2 by (auto simp: low_use_def)
  show nb: "inode_blk m \<notin> B" if "valid_ino m" for m using that B valid_ino_blk(2) [OF that] by fastforce
  show "inode_at v2 m = inode_at v m" if "valid_ino m" "m \<noteq> p" for m
    using ch(5) [OF valid_ino_blk(1) [OF that(1)] that(2) nb [OF that(1)]] inode_at_cong [of v1 m v] v1(2) inode_blk_ge by simp
  show "v2 x = v x" if "31 \<le> x" "x < 89" "x \<notin> B" for x
    using ch(4) [of x] v1(2) that valid_ino_not_data [OF l(4)] by auto
qed

lemma rmdir_step:
  assumes ok: "store_ok v sb" and p: "live v p" "is_dir_at v p" and c: "live v c" "is_dir_at v c" "p \<noteq> c"
    and v1: "alloc_inv v1 sb1" "\<And>x. 6 \<le> x \<Longrightarrow> v1 x = v x" "\<And>x. allocd v1 x \<longleftrightarrow> allocd v x \<and> x \<notin> owned v c"
    and v2: "dir_inv v2 sb1 i'" "dir_changed v1 (inode_at v p) v2 i'" "dir_blocks i' = dir_blocks (inode_at v p)"
      "dir_map v2 i' = (dir_map v (inode_at v p))(nm := None)" "meta_of i' = meta_of (inode_at v p)"
    and v3: "v3 = put_inode v2 ((inode_at v c)\<lparr>nlink := 0\<rparr>)"
  shows "remove_post v p nm c v3 sb1"
proof -
  let ?j = "(inode_at v c)\<lparr>nlink := 0\<rparr>" and ?B = "unat ` set (dir_blocks (inode_at v p))"
  note l = live_dir [OF ok p] and lc = live_dir [OF ok c(1,2)]
  have same: "\<forall>x. 6 \<le> x \<longrightarrow> v1 x = v x" using v1(2) by simp
  note e = rmdir_entry [OF ok p c v1(1) same v1(3) v2(1-3)]
  have j: "inode_no ?j = c" "inode_wf ?j" "valid_ino (inode_no ?j)"
    using inode_at_decode [OF lc(8,3)] lc(4) by (simp_all add: inode_wf_def)
  note put = put_facts [OF dir_inv_facts(1) [OF v2(1)] e(4) j(3,2), folded v3]
  have at3: "inode_at v3 p = i'" "inode_at v3 c = ?j"
    using put(3) [OF l(4)] put(3) [OF lc(4)] e(1) c(3) j(1) by simp_all
  have lv: "live v3 p" "is_dir_at v3 p" "\<not> live v3 c"
    using p at3 e(2,3) by (auto simp: live_def is_dir_at_def)
  have o3: "owned v3 p = ?B" using lv at3 v2(3) by (simp add: owned_def)
  have ow: "owns v {p, c} = ?B \<union> owned v c" "owns v3 {p, c} = ?B"
    using p c l(7) lv o3 by (auto simp: owns_def)
  have d3: "dir_inv v3 sb1 i'" "dir_map v3 i' = dir_map v2 i'"
    using put_other_inode(1,2) [OF v2(1) j(2)] e(6) [OF lc(4)] lc(3) v2(3) j(1) by (simp_all add: v3)
  have "op_frame v {p, c} v3"
    unfolding op_frame_def ow
  proof (intro conjI allI impI ballI)
    show "inode_at v3 m = inode_at v m" if "valid_ino m \<and> m \<notin> {p, c}" for m using that put(3) [of m] e(7) [of m] j(1) by simp
    fix x assume x: "31 \<le> x \<and> x < 89 \<and> allocd v x \<and> x \<notin> ?B \<union> owned v c"
    show "allocd v3 x" using x put(5) e(5) by simp
    show "v3 x = v x" using x put(4) [of x] e(8) [of x] by simp
  qed (use put(5) e(5) in auto)
  then have "store_step v {p, c} v3 sb1"
    using d3 lv at3 put(1,2) by (intro store_ok_frame [OF ok]) (auto simp: node_inv_def)
  moreover have "view v3 p = Some (Dir ((dir_map v (inode_at v p))(nm := None)))" "view v3 c = None"
    using lv at3 d3(2) v2(4) by (simp_all add: view_def node_at_def)
  ultimately show ?thesis
    using at3 v2(5) o3 l(7) by (auto simp: remove_post_def fun_eq_iff store_step_def)
qed

definition rmdir_tail :: "'s SimpleFS \<Rightarrow> Inode \<Rightarrow> str \<Rightarrow> Inode \<Rightarrow> 's \<Rightarrow> ((reply \<times> 's SimpleFS) \<times> 's) option" where
  "rmdir_tail fs pi nm j s = do {
     (sb, s) \<leftarrow> free_loop (fs_disk fs) (fs_sb fs) j [0..<unat (block_count j)] s;
     ((r, pi), s) \<leftarrow> dir_remove_entry (fs_disk fs) sb pi nm s;
     case r of
       Inl _ \<Rightarrow> None
     | Inr _ \<Rightarrow> do {
         (_, s) \<leftarrow> write_inode (fs_disk fs) sb (j\<lparr>nlink := 0\<rparr>) s;
         Some ((ReplyOk, fs\<lparr>fs_sb := sb\<rparr>), s) } }"

lemma rmdir_tail_awp:
  assumes ok: "store_ok v (fs_sb fs)" and p: "live v p" "is_dir_at v p" and c: "live v c" "is_dir_at v c" "p \<noteq> c"
    and nm: "dir_map v (inode_at v p) nm \<noteq> None"
    and Q: "\<And>sb' v'. remove_post v p nm c v' sb' \<Longrightarrow> Q (ReplyOk, fs\<lparr>fs_sb := sb'\<rparr>) v'"
  shows "dwp (fs_disk fs) (rmdir_tail fs (inode_at v p) nm (inode_at v c)) Q v"
  unfolding rmdir_tail_def [abs_def]
proof (rule awp_bind, rule free_dir_awp [OF ok c(1,2)], goal_cases)
  case (1 v1 sb1)
  let ?d = "fs_disk fs" and ?i = "inode_at v p" and ?j = "(inode_at v c)\<lparr>nlink := 0\<rparr>"
  note l = live_dir [OF ok p] and lc = live_dir [OF ok c(1,2)]
  have j: "inode_wf ?j" "on_disk (inode_no ?j)" using dir_inv_blocks(1) [OF lc(1)] lc(2,3) by (simp_all add: inode_wf_def)
  have "v1 (unat b) = v (unat b) \<and> allocd v1 (unat b)" if "b \<in> set (dir_blocks ?i)" for b
  proof -
    have "unat b \<in> owned v p" using that l(7) by simp
    then have "unat b \<notin> owned v c" using store_okD(4) [OF ok p(1) c(1,3)] by blast
    with that dir_inv_blocks(4) [OF l(1)] 1(2,3) show ?thesis by auto
  qed
  from dir_inv_cong [OF l(1) 1(1) this] have d1: "dir_inv v1 sb1 ?i" "dir_map v1 ?i = dir_map v ?i" by auto
  have "dwp ?d (dir_remove_entry ?d sb1 ?i nm) (\<lambda>x. dwp ?d (case x of (r, pi) \<Rightarrow> \<lambda>s. case r of Inl _ \<Rightarrow> None
      | Inr _ \<Rightarrow> do { (_, s) \<leftarrow> write_inode ?d sb1 ?j s; Some ((ReplyOk, fs\<lparr>fs_sb := sb1\<rparr>), s) }) Q) v1"
  proof (rule awp_mono [OF dir_remove_entry_full [OF d1(1)]], goal_cases)
    case 1
    show ?case using nm d1(2) by simp
  next
    case (2 x v2)
    then obtain i' where x: "x = (Inr (), i')" and post: "dir_inv v2 sb1 i'" "dir_changed v1 ?i v2 i'"
        "dir_map v2 i' = (dir_map v ?i)(nm := None)" "dir_blocks i' = dir_blocks ?i" "meta_of i' = meta_of ?i"
      using d1(2) by (cases x) auto
    have lay: "vol v2" "sb_layout sb1" using dir_inv_facts(4,5) [OF post(1)] .
    have "remove_post v p nm c (put_inode v2 ?j) sb1"
      using 1 by (intro rmdir_step [OF ok p c _ _ _ post(1,2,4,3,5)]) auto
    with Q j lay show ?case by (simp add: x, intro awp_bind write_inode_awp) (auto intro: awp_return)
  qed
  then show ?case by (simp, intro awp_bind) simp
qed

lemma fs_rmdir_eq:
  "fs_rmdir fs parent name = (\<lambda>s. do {
     (pi, s) \<leftarrow> read_inode (fs_disk fs) (fs_sb fs) (ucast parent) s;
     (hit, s) \<leftarrow> dir_find (fs_disk fs) pi (os_str_or name []) s;
     (\<lambda>pi hit s. case hit of
       None \<Rightarrow> Some ((ReplyError ENOENT, fs), s)
     | Some (entry, _, _) \<Rightarrow> do {
         (j, s) \<leftarrow> read_inode (fs_disk fs) (fs_sb fs) (entry_inode entry) s;
         if mode j AND S_IFDIR = 0 then Some ((ReplyError ENOTDIR, fs), s)
         else do {
           (es, s) \<leftarrow> dir_lookup (fs_disk fs) j s;
           if length es > 2 then Some ((ReplyError ENOTEMPTY, fs), s)
           else rmdir_tail fs pi (os_str_or name []) j s } }) pi hit s })"
  unfolding fs_rmdir_def [abs_def] Let_def rmdir_tail_def
  by (simp add: split_def cong: option.case_cong if_cong)

lemma fs_rmdir_awp:
  fixes fs :: "'s SimpleFS" and parent :: u64 and name :: "byte list"
  defines "p \<equiv> ucast parent :: u32" and "nm \<equiv> os_str_or name []"
  assumes ok: "store_ok v (fs_sb fs)" and p: "live v p" "is_dir_at v p"
    and entry: "\<And>c ty. dir_map v (inode_at v p) nm = Some (c, ty) \<Longrightarrow> live v c \<and> p \<noteq> c"
    and none: "dir_map v (inode_at v p) nm = None \<Longrightarrow> Q (ReplyError ENOENT, fs) v"
    and nodir: "\<And>c ty. dir_map v (inode_at v p) nm = Some (c, ty) \<Longrightarrow> \<not> is_dir_at v c \<Longrightarrow> Q (ReplyError ENOTDIR, fs) v"
    and full: "\<And>c ty. dir_map v (inode_at v p) nm = Some (c, ty) \<Longrightarrow> is_dir_at v c \<Longrightarrow>
      2 < card (dom (dir_map v (inode_at v c))) \<Longrightarrow> Q (ReplyError ENOTEMPTY, fs) v"
    and Q: "\<And>c ty sb' v'. dir_map v (inode_at v p) nm = Some (c, ty) \<Longrightarrow> is_dir_at v c \<Longrightarrow>
      card (dom (dir_map v (inode_at v c))) \<le> 2 \<Longrightarrow> remove_post v p nm c v' sb' \<Longrightarrow> Q (ReplyOk, fs\<lparr>fs_sb := sb'\<rparr>) v'"
  shows "dwp (fs_disk fs) (fs_rmdir fs parent name) Q v"
  unfolding fs_rmdir_eq p_def [symmetric] nm_def [symmetric]
proof (rule parent_find_awp [OF ok p], goal_cases)
  case (1 hit)
  let ?d = "fs_disk fs"
  show ?case
  proof (cases hit)
    case None
    with 1 none show ?thesis by (auto intro: awp_return)
  next
    case (Some x)
    then obtain e b off where h: "hit = Some (e, b, off)" by (cases x) auto
    let ?c = "entry_inode e"
    have m: "dir_map v (inode_at v p) nm = Some (?c, entry_type e)" using 1 h by simp
    have lc: "live v ?c" "p \<noteq> ?c" using entry [OF m] by auto
    then have od: "on_disk ?c" by (intro valid_ino_blk(1)) (simp add: live_def)
    note l = live_dir(8,9) [OF ok p]
    have "dwp ?d (\<lambda>s. if mode (inode_at v ?c) AND S_IFDIR = 0 then Some ((ReplyError ENOTDIR, fs), s)
        else do {
          (es, s) \<leftarrow> dir_lookup ?d (inode_at v ?c) s;
          if length es > 2 then Some ((ReplyError ENOTEMPTY, fs), s)
          else rmdir_tail fs (inode_at v p) nm (inode_at v ?c) s }) Q v"
    proof (cases "is_dir_at v ?c")
      case False
      with nodir [OF m] show ?thesis by (auto simp: is_dir_at_def intro: awp_return)
    next
      case True
      note d = live_dir(1) [OF ok lc(1) True]
      have wf: "dir_wf v (inode_at v ?c)" using d by (simp add: dir_inv_def)
      note card = dir_entries_card [OF d]
      have "dwp ?d (\<lambda>s. if length (dir_entries v (inode_at v ?c)) > 2 then Some ((ReplyError ENOTEMPTY, fs), s)
          else rmdir_tail fs (inode_at v p) nm (inode_at v ?c) s) Q v"
        using full [OF m True] card Q [OF m True] m rmdir_tail_awp [OF ok p lc(1) True lc(2), where nm = nm and Q = Q]
        by (cases "length (dir_entries v (inode_at v ?c)) > 2") (auto intro: awp_return)
      with True show ?thesis
        by (simp add: is_dir_at_def) (intro awp_bind dir_lookup_awp l(1) wf, simp)
    qed
    with l od show ?thesis by (simp add: h, intro awp_bind read_inode_awp) simp_all
  qed
qed

section \<open>Changing a file\<close>

text \<open>A \<open>write\<close> keeps to the blocks below the inodes and so leaves every other inode alone.\<close>

lemma write_post_blocks:
  assumes w: "write_post L v n off bs v' sb'" and low: "low_use v" and inv: "file_inv v sb (inode_at v n)" and L: "L \<le> 89"
    and x: "x \<in> set (file_all v' (inode_at v' n))"
  shows "31 \<le> x" "x < 89"
proof -
  show "31 \<le> x" using x w file_inv_facts(3) [of v' sb' "inode_at v' n"] by (auto simp: write_post_def)
  show "x < 89"
  proof (cases "x \<in> set (file_all v (inode_at v n))")
    case True
    with low file_inv_facts(3) [OF inv] show ?thesis by (auto simp: low_use_def)
  next
    case False
    with x w have "x < L" unfolding write_post_def by blast
    with L show ?thesis by simp
  qed
qed

lemma write_post_other:
  assumes w: "write_post L v n off bs v' sb'" and low: "low_use v" and inv: "file_inv v sb (inode_at v n)" and L: "L \<le> 89"
    and m: "valid_ino m" "m \<noteq> n"
  shows "inode_at v' m = inode_at v m"
proof (cases "inode_blk m = inode_blk n")
  case False
  have "inode_blk m \<notin> set (file_all v' (inode_at v' n))"
    using write_post_blocks [OF w low inv L, of "inode_blk m"] valid_ino_blk(2) [OF m(1)] by auto
  with False w inode_blk_ge [of m] show ?thesis by (intro inode_at_cong) (auto simp: write_post_def)
qed (use m w valid_ino_blk(1) [OF m(1)] in \<open>auto simp: write_post_def\<close>)

lemma write_step:
  assumes ok: "store_ok v sb" and n: "live v n" "\<not> is_dir_at v n" and L: "L \<le> 89"
    and w: "write_post L v n off bs v' sb'"
  shows "store_step v {n} v' sb'" "view v' = (view v)(n \<mapsto> File (write_at (file_contents v (inode_at v n)) off bs))"
proof -
  let ?F = "set (file_all v' (inode_at v' n))"
  note l = live_file [OF ok n]
  have low: "low_use v" using ok by (simp add: store_ok_def)
  have p: "file_inv v' sb' (inode_at v' n)" "mode (inode_at v' n) = mode (inode_at v n)"
      "nlink (inode_at v' n) = nlink (inode_at v n)" "set (file_all v (inode_at v n)) \<subseteq> ?F"
      "\<And>x. x < 20480 \<Longrightarrow> allocd v' x \<longleftrightarrow> allocd v x \<or> x \<in> ?F"
      "\<And>x. x \<in> ?F \<Longrightarrow> x \<notin> set (file_all v (inode_at v n)) \<Longrightarrow> x < L \<and> \<not> allocd v x"
      "\<And>x. 6 \<le> x \<Longrightarrow> x \<notin> ?F \<Longrightarrow> x \<noteq> inode_blk n \<Longrightarrow> v' x = v x"
      "\<And>m. on_disk m \<Longrightarrow> m \<noteq> n \<Longrightarrow> inode_blk m = inode_blk n \<Longrightarrow> inode_at v' m = inode_at v m"
      "file_contents v' (inode_at v' n) = write_at (file_contents v (inode_at v n)) off bs"
  proof -
    have "meta_of (inode_at v' n) = write_meta (off + length bs) (meta_of (inode_at v n))" using w by (simp add: write_post_def)
    from arg_cong [OF this, of m_mode] arg_cong [OF this, of m_nlink]
    show "mode (inode_at v' n) = mode (inode_at v n)" "nlink (inode_at v' n) = nlink (inode_at v n)" by simp_all
  qed (use w in \<open>auto simp: write_post_def\<close>)
  note F = write_post_blocks [OF w low l(1) L]
  have lv: "live v' n" "\<not> is_dir_at v' n" using n p(2,3) by (auto simp: live_def is_dir_at_def)
  have low': "low_use v'" using low p(5) F(2) by (auto simp: low_use_def)
  have ow: "owns v {n} = set (file_all v (inode_at v n))" "owns v' {n} = ?F"
    using n lv l(7) by (simp_all add: owned_def)
  have "op_frame v {n} v'"
    unfolding op_frame_def ow
  proof (intro conjI allI impI ballI)
    show "inode_at v' m = inode_at v m" if "valid_ino m \<and> m \<notin> {n}" for m
      using that by (intro write_post_other [OF w low l(1) L]) auto
    show "v' x = v x" if "31 \<le> x \<and> x < 89 \<and> allocd v x \<and> x \<notin> set (file_all v (inode_at v n))" for x
    proof (rule p(7))
      show "x \<noteq> inode_blk n" using that valid_ino_not_data [OF l(4)] by auto
    qed (use that p(6) in auto)
  qed (use p(4,5,6) in auto)
  moreover have "node_inv v' sb' n" using p(1) lv by (simp add: node_inv_def)
  ultimately show st: "store_step v {n} v' sb'"
    using low' file_inv_facts(1) [OF p(1)] by (intro store_ok_frame [OF ok]) auto
  have "view v' n = Some (File (write_at (file_contents v (inode_at v n)) off bs))"
    using lv p(9) by (simp add: view_def node_at_def)
  from store_step_view [OF st this]
  show "view v' = (view v)(n \<mapsto> File (write_at (file_contents v (inode_at v n)) off bs))" .
qed

lemma chmod_kind: "mode (chmod_of i m t) AND S_IFDIR = mode i AND S_IFDIR"
proof (cases m)
  case (Some x)
  have "(ucast (x AND 511) :: u16) AND 0x4000 = 0"
  proof -
    have "(ucast (x AND 511) :: u16) AND 0x4000 = (ucast x AND 511) AND 0x4000" by (simp add: unsigned_and_eq)
    also have "\<dots> = ucast x AND (511 AND 0x4000)" by (simp only: and.assoc)
    finally show ?thesis by simp
  qed
  moreover have "(mode i AND 0xF000) AND 0x4000 = mode i AND 0x4000" by (simp add: and.assoc)
  ultimately show ?thesis by (simp add: chmod_of_def Some S_IFDIR_def bit.conj_disj_distrib2)
qed (simp add: chmod_of_def)

lemma chmod_step:
  assumes "store_ok v sb" "live v n"
  shows "store_step v {n} (put_inode v (chmod_of (inode_at v n) m t)) sb"
    "view (put_inode v (chmod_of (inode_at v n) m t)) = view v"
  using attr_step [OF assms, where j = "chmod_of (inode_at v n) m t" and m = "mode (chmod_of (inode_at v n) m t)" and t = t] chmod_kind
  by (simp_all add: chmod_of_def)

end
