(* ===== verification/Listing.thy ===== *)
theory Listing
  imports Namespace
begin

text \<open>
  Listing a directory, \<open>readdir\<close> of \<open>src/src/fs.rs\<close>, on a consistent file system.
\<close>

section \<open>Listing a directory\<close>

text \<open>
  The entries in the order of their slots, and how they are handed to the framework's buffer: the
  \<open>k\<close>-th with the position \<open>k + 1\<close>, until \<open>add\<close> says that the buffer is full.
\<close>

definition listing :: "volume \<Rightarrow> Inode \<Rightarrow> (u32 \<times> byte \<times> str) list" where
  "listing v i = map (\<lambda>(e, _). (entry_inode e, entry_type e, entry_name e)) (dir_entries v i)"

fun feed :: "('r \<Rightarrow> u64 \<Rightarrow> int \<Rightarrow> FileType \<Rightarrow> str \<Rightarrow> bool \<times> 'r) \<Rightarrow> int \<Rightarrow> (u32 \<times> byte \<times> str) list \<Rightarrow> 'r \<Rightarrow> 'r" where
  "feed add k [] r = r"
| "feed add k ((c, ty, nm) # es) r =
     (case add r (ucast c) (k + 1) (if ty = 2 then FT_Directory else FT_RegularFile) nm of
        (full, r) \<Rightarrow> if full then r else feed add (k + 1) es r)"

lemma readdir_loop_feed:
  assumes "\<And>x. x \<in> set es \<Longrightarrow> name_str (fst x) = Some (entry_name (fst x))" "0 \<le> k"
  shows "readdir_loop add off k es r = Some (let n = nat (sint off - k) in
    feed add (k + int n) (drop n (map (\<lambda>(e, _). (entry_inode e, entry_type e, entry_name e)) es)) r)"
  using assms
proof (induction es arbitrary: k r)
  case Nil
  then show ?case by simp
next
  case (Cons x es)
  obtain e b o' where x: "x = (e, b, o')" by (cases x) auto
  have nm: "name_str e = Some (entry_name e)" using Cons.prems(1) [of x] x by simp
  show ?case
  proof (cases "k \<ge> sint off")
    case True
    with Cons.prems have IH: "readdir_loop add off (k + 1) es r' =
        Some (feed add (k + 1) (map (\<lambda>(e, _). (entry_inode e, entry_type e, entry_name e)) es) r')" for r'
      by (subst Cons.IH) auto
    from True nm show ?thesis by (simp add: x IH Let_def split: prod.split)
  next
    case False
    then have "nat (sint off - k) = Suc (nat (sint off - (k + 1)))" by simp
    with False nm Cons.prems show ?thesis
      by (simp add: x Let_def Cons.IH add.commute add.left_commute)
  qed
qed

lemma readdir_awp:
  assumes ok: "store_ok v (fs_sb fs)" and n: "live v (ucast ino)"
    and notdir: "\<not> is_dir_at v (ucast ino) \<Longrightarrow> Q (Inl ENOTDIR) v"
    and isdir: "is_dir_at v (ucast ino) \<Longrightarrow>
      Q (Inr (feed add (int (nat (sint off))) (drop (nat (sint off)) (listing v (inode_at v (ucast ino)))) r)) v"
  shows "dwp (fs_disk fs) (fs_readdir add fs ino off r) Q v"
proof -
  let ?i = "inode_at v (ucast ino)"
  have v: "vol v" "sb_layout (fs_sb fs)" using ok by (auto simp: store_ok_def alloc_inv_def)
  have od: "on_disk (ucast ino)" using n valid_ino_blk(1) by (simp add: live_def)
  show ?thesis
  proof (cases "is_dir_at v (ucast ino)")
    case False
    with v od notdir show ?thesis
      unfolding fs_readdir_def [abs_def]
      by (intro awp_bind read_inode_awp) (auto simp: is_dir_at_def intro!: awp_return)
  next
    case True
    have wf: "dir_wf v ?i" using live_dir(1) [OF ok n True] by (simp add: dir_inv_def)
    have nm: "name_str (fst x) = Some (entry_name (fst x))" if "x \<in> set (dir_entries v ?i)" for x
      using dir_entry_name [OF v(1) wf that] .
    note loop = readdir_loop_feed [OF nm, where k = 0 and add = add and off = off and r = r]
    have m: "mode ?i AND S_IFDIR \<noteq> 0" using True by (simp add: is_dir_at_def)
    show ?thesis
      unfolding fs_readdir_def [abs_def]
      using v od m wf isdir [OF True] loop
      by (intro awp_bind read_inode_awp) (auto simp: listing_def Let_def intro!: awp_bind dir_lookup_awp awp_return)
  qed
qed

text \<open>A listing is the directory as a map, each name once.\<close>

lemma listing_map:
  assumes "dir_inv v sb i"
  shows "distinct (map (\<lambda>(c, ty, nm). nm) (listing v i))"
    "(c, ty, nm) \<in> set (listing v i) \<longleftrightarrow> dir_map v i nm = Some (c, ty)"
proof -
  have d: "distinct (map (\<lambda>x. entry_name (fst x)) (dir_entries v i))"
    using assms by (simp add: dir_inv_def names_distinct_def)
  then show "distinct (map (\<lambda>(c, ty, nm). nm) (listing v i))"
    by (simp add: listing_def comp_def split_def)
  show "(c, ty, nm) \<in> set (listing v i) \<longleftrightarrow> dir_map v i nm = Some (c, ty)"
  proof
    assume "(c, ty, nm) \<in> set (listing v i)"
    then obtain x where x: "x \<in> set (dir_entries v i)" "entry_inode (fst x) = c" "entry_type (fst x) = ty" "entry_name (fst x) = nm"
      by (auto simp: listing_def)
    have "find (\<lambda>x. entry_name (fst x) = nm) (dir_entries v i) \<noteq> None"
      unfolding find_None_iff using x(1,4) by blast
    then obtain y where y: "find (\<lambda>x. entry_name (fst x) = nm) (dir_entries v i) = Some y" by blast
    then have "y \<in> set (dir_entries v i)" "entry_name (fst y) = nm" by (auto simp: find_Some_iff)
    with x d have "y = x" by (auto simp: distinct_map inj_on_def)
    with y have "dir_map v i nm = map_option (\<lambda>(e, _). (entry_inode e, entry_type e)) (Some x)"
      unfolding dir_map_def by simp
    with x(2,3) show "dir_map v i nm = Some (c, ty)" by (simp add: split_def)
  next
    assume "dir_map v i nm = Some (c, ty)"
    then obtain x where "find (\<lambda>x. entry_name (fst x) = nm) (dir_entries v i) = Some x" "entry_inode (fst x) = c" "entry_type (fst x) = ty"
      by (auto simp: dir_map_def)
    moreover from this(1) have "x \<in> set (dir_entries v i)" "entry_name (fst x) = nm" by (auto simp: find_Some_iff)
    ultimately show "(c, ty, nm) \<in> set (listing v i)" by (auto simp: listing_def split_def intro!: image_eqI [of _ _ x])
  qed
qed

end
