(* ===== verification/Dir_Tree.thy ===== *)
theory Dir_Tree
  imports Consistency
begin

text \<open>
  The abstract file system: directories and files by inode number, as a user sees them. \<open>tree_ok\<close>
  says that they form one tree under inode 1, with the entries \<open>.\<close> and \<open>..\<close> in each directory;
  the operations that the handlers implement keep it. \<open>walk\<close> is the meaning of a path.
\<close>

section \<open>The invariant\<close>

definition dots :: "str set" where
  "dots = {ascii ''.'', ascii ''..''}"

definition is_dir_node :: "tree \<Rightarrow> u32 \<Rightarrow> bool" where
  "is_dir_node V n \<longleftrightarrow> (\<exists>m. V n = Some (Dir m))"

definition is_file_node :: "tree \<Rightarrow> u32 \<Rightarrow> bool" where
  "is_file_node V n \<longleftrightarrow> (\<exists>bs. V n = Some (File bs))"

text \<open>The entries that users make: all but \<open>.\<close> and \<open>..\<close>.\<close>

definition edge :: "tree \<Rightarrow> u32 \<Rightarrow> str \<Rightarrow> u32 \<Rightarrow> byte \<Rightarrow> bool" where
  "edge V n nm c ty \<longleftrightarrow> nm \<notin> dots \<and> (\<exists>m. V n = Some (Dir m) \<and> m nm = Some (c, ty))"

text \<open>
  Each entry leads to a live inode of the kind that the entry records, other than the root, and
  no inode has two names; \<open>..\<close> leads back. The rank shows that there are no cycles.
\<close>

definition parent_ok :: "tree \<Rightarrow> u32 \<Rightarrow> (str \<Rightarrow> (u32 \<times> byte) option) \<Rightarrow> bool" where
  "parent_ok V n m \<longleftrightarrow> (\<exists>q. m (ascii ''..'') = Some (q, 2) \<and> is_dir_node V q \<and>
     (if n = 1 then q = 1 else \<exists>nm. edge V q nm n 2))"

definition child_ok :: "tree \<Rightarrow> u32 \<Rightarrow> byte \<Rightarrow> bool" where
  "child_ok V c ty \<longleftrightarrow> c \<noteq> 1 \<and> (ty = 2 \<and> is_dir_node V c \<or> ty = 1 \<and> is_file_node V c)"

definition ranked :: "tree \<Rightarrow> bool" where
  "ranked V \<longleftrightarrow> (\<exists>rank :: u32 \<Rightarrow> nat. \<forall>n nm c ty. edge V n nm c ty \<longrightarrow> rank n < rank c)"

definition one_name :: "tree \<Rightarrow> bool" where
  "one_name V \<longleftrightarrow> (\<forall>n nm c ty n' nm' ty'. edge V n nm c ty \<and> edge V n' nm' c ty' \<longrightarrow> n' = n \<and> nm' = nm)"

lemma rankedE:
  assumes "ranked V"
  obtains rank :: "u32 \<Rightarrow> nat" where "\<And>n nm c ty. edge V n nm c ty \<Longrightarrow> rank n < rank c"
  using assms unfolding ranked_def by blast

definition tree_ok :: "tree \<Rightarrow> bool" where
  "tree_ok V \<longleftrightarrow> is_dir_node V 1 \<and>
     (\<forall>n m. V n = Some (Dir m) \<longrightarrow> m (ascii ''.'') = Some (n, 2) \<and> parent_ok V n m) \<and>
     (\<forall>n nm c ty. edge V n nm c ty \<longrightarrow> child_ok V c ty) \<and>
     one_name V \<and> ranked V"

lemma tree_okD:
  assumes "tree_ok V"
  shows "is_dir_node V 1"
    "\<And>n m. V n = Some (Dir m) \<Longrightarrow> m (ascii ''.'') = Some (n, 2)"
    "\<And>n m. V n = Some (Dir m) \<Longrightarrow> parent_ok V n m"
    "\<And>n nm c ty. edge V n nm c ty \<Longrightarrow> child_ok V c ty"
    "\<And>n nm c ty n' nm' ty'. edge V n nm c ty \<Longrightarrow> edge V n' nm' c ty' \<Longrightarrow> n' = n \<and> nm' = nm"
    "ranked V"
  using assms by (simp_all add: tree_ok_def) (unfold one_name_def, blast+)

lemma tree_okI:
  assumes "is_dir_node V 1" "\<And>n m. V n = Some (Dir m) \<Longrightarrow> m (ascii ''.'') = Some (n, 2)"
    "\<And>n m. V n = Some (Dir m) \<Longrightarrow> parent_ok V n m"
    "\<And>n nm c ty. edge V n nm c ty \<Longrightarrow> child_ok V c ty"
    "\<And>n nm c ty n' nm' ty'. edge V n nm c ty \<Longrightarrow> edge V n' nm' c ty' \<Longrightarrow> n' = n \<and> nm' = nm"
    "ranked V"
  shows "tree_ok V"
proof -
  have "one_name V" unfolding one_name_def using assms(5) by blast
  then show ?thesis
    unfolding tree_ok_def
    by (intro conjI allI impI) (assumption | rule assms(1,6) | erule assms(2) | erule assms(3) | erule assms(4))+
qed

lemma dots_names [simp]: "ascii ''.'' \<in> dots" "ascii ''..'' \<in> dots" "ascii ''.'' \<noteq> ascii ''..''"
  by (simp_all add: dots_def ascii_dot ascii_dotdot)

lemma not_dots: "nm \<notin> dots \<Longrightarrow> ascii ''.'' \<noteq> nm \<and> ascii ''..'' \<noteq> nm"
  using dots_names by metis

lemma edge_ne: "tree_ok V \<Longrightarrow> edge V n nm c ty \<Longrightarrow> c \<noteq> n"
  using tree_okD(6) [of V] by (auto simp: ranked_def)

lemma child_node: "child_ok V c ty \<Longrightarrow> V c \<noteq> None"
  by (auto simp: child_ok_def is_dir_node_def is_file_node_def)

lemma edge_node: "tree_ok V \<Longrightarrow> edge V n nm c ty \<Longrightarrow> V c \<noteq> None"
  using child_node tree_okD(4) by blast

lemma child_mono: "child_ok V c ty \<Longrightarrow> (is_dir_node V c \<Longrightarrow> is_dir_node W c) \<Longrightarrow> (is_file_node V c \<Longrightarrow> is_file_node W c) \<Longrightarrow> child_ok W c ty"
  by (auto simp: child_ok_def)

section \<open>Making a node and giving it a name\<close>

lemma tree_ok_orphan:
  assumes ok: "tree_ok V" and c: "V c = None"
  shows "tree_ok (V(c \<mapsto> File bs))" (is "tree_ok ?W")
proof -
  note t = tree_okD [OF ok]
  have e: "edge ?W n nm k ty = edge V n nm k ty" for n nm k ty
    using c by (auto simp: edge_def)
  have d: "is_dir_node ?W n = is_dir_node V n" for n
    using c by (auto simp: is_dir_node_def)
  have n: "?W n = Some (Dir m) \<longleftrightarrow> V n = Some (Dir m)" for n m using c by auto
  have p: "parent_ok ?W = parent_ok V" by (simp add: parent_ok_def e d fun_eq_iff)
  have r: "ranked ?W = ranked V" by (simp only: ranked_def e)
  have ch: "child_ok ?W k ty" if "child_ok V k ty" for k ty
    by (rule child_mono [OF that]) (simp_all add: d is_file_node_def)
  show ?thesis
  proof (rule tree_okI, unfold e d n p r, goal_cases)
    case (4 n nm c ty)
    then show ?case by (intro ch t(4))
  qed (fact t)+
qed

text \<open>The tree with a new node \<open>c\<close> under a new name in \<open>p\<close>: its edges and nodes, and its dot entries.\<close>

lemma link_edges:
  assumes ok: "tree_ok V" and p: "V p = Some (Dir m)" and nm: "nm \<notin> dots" "m nm = None" and c: "V c = None"
    and nd: "ty = 1 \<and> nd = File bs \<or> ty = 2 \<and> nd = Dir [ascii ''.'' \<mapsto> (c, 2), ascii ''..'' \<mapsto> (p, 2)]"
    and W: "W = V(c \<mapsto> nd, p \<mapsto> Dir (m(nm \<mapsto> (c, ty))))"
  shows "edge W n k a b \<longleftrightarrow> edge V n k a b \<or> n = p \<and> k = nm \<and> a = c \<and> b = ty"
    "is_dir_node V n \<Longrightarrow> is_dir_node W n" "is_file_node V n \<Longrightarrow> is_file_node W n"
    "\<not> edge V n k c b" "\<not> edge V c k a b"
proof -
  have pc: "p \<noteq> c" using p c by auto
  show "edge W n k a b \<longleftrightarrow> edge V n k a b \<or> n = p \<and> k = nm \<and> a = c \<and> b = ty"
    using p nm c nd pc by (auto simp: W edge_def dots_def split: if_splits)
  show "is_dir_node V n \<Longrightarrow> is_dir_node W n" "is_file_node V n \<Longrightarrow> is_file_node W n"
    using p c nd pc by (auto simp: W is_dir_node_def is_file_node_def)
  show "\<not> edge V n k c b" using edge_node [OF ok] c by blast
  show "\<not> edge V c k a b" using c by (simp add: edge_def)
qed

lemma link_dots:
  assumes ok: "tree_ok V" and p: "V p = Some (Dir m)" and nm: "nm \<notin> dots" "m nm = None" and c: "V c = None"
    and nd: "ty = 1 \<and> nd = File bs \<or> ty = 2 \<and> nd = Dir [ascii ''.'' \<mapsto> (c, 2), ascii ''..'' \<mapsto> (p, 2)]"
    and W: "W = V(c \<mapsto> nd, p \<mapsto> Dir (m(nm \<mapsto> (c, ty))))" and n: "W n = Some (Dir m')"
  shows "m' (ascii ''.'') = Some (n, 2) \<and> parent_ok W n m'"
proof -
  note t = tree_okD [OF ok] and e = link_edges [OF ok p nm c nd W]
  have pc: "p \<noteq> c" and c1: "c \<noteq> 1" using p t(1) c by (auto simp: is_dir_node_def)
  show ?thesis
  proof (cases "n = c")
    case True
    with n nd pc have "ty = 2" "m' = [ascii ''.'' \<mapsto> (c, 2), ascii ''..'' \<mapsto> (p, 2)]" by (auto simp: W)
    moreover have "edge W p nm c ty" by (simp add: e(1))
    moreover have "is_dir_node W p" using e(2) p by (auto simp: is_dir_node_def)
    ultimately show ?thesis using True c1 by (auto simp: parent_ok_def)
  next
    case False
    then obtain m0 where m0: "V n = Some (Dir m0)" "m' (ascii ''..'') = m0 (ascii ''..'')" "m' (ascii ''.'') = m0 (ascii ''.'')"
      using n p not_dots [OF nm(1)] by (auto simp: W split: if_splits)
    from t(3) [OF m0(1)] have "parent_ok W n m'"
      unfolding parent_ok_def m0(2) e(1) using e(2) by (auto split: if_splits)
    with t(2) [OF m0(1)] m0(3) show ?thesis by simp
  qed
qed

lemma tree_ok_link:
  assumes ok: "tree_ok V" and p: "V p = Some (Dir m)" and nm: "nm \<notin> dots" "m nm = None" and c: "V c = None"
    and nd: "ty = 1 \<and> nd = File bs \<or> ty = 2 \<and> nd = Dir [ascii ''.'' \<mapsto> (c, 2), ascii ''..'' \<mapsto> (p, 2)]"
  shows "tree_ok (V(c \<mapsto> nd, p \<mapsto> Dir (m(nm \<mapsto> (c, ty)))))" (is "tree_ok ?W")
proof -
  note t = tree_okD [OF ok] and l = link_edges [OF ok p nm c nd refl]
  note e = l(1) and d = l(2,3) and noedge = l(4,5)
  have pc: "p \<noteq> c" and c1: "c \<noteq> 1" using p t(1) c by (auto simp: is_dir_node_def)
  show ?thesis
  proof (rule tree_okI)
    show "is_dir_node ?W 1" by (rule d(1) [OF t(1)])
    show "ranked ?W"
    proof -
      obtain rank :: "u32 \<Rightarrow> nat" where "\<And>n k a b. edge V n k a b \<Longrightarrow> rank n < rank a"
        using rankedE [OF t(6)] by blast
      with noedge pc show ?thesis
        unfolding ranked_def e by (intro exI [of _ "rank(c := Suc (rank p))"]) auto
    qed
    show "child_ok ?W k b" if "edge ?W n a k b" for n a k b
    proof (cases "edge V n a k b")
      case True
      then show ?thesis using t(4) d by (blast intro: child_mono)
    next
      case False
      with that have "k = c" "b = ty" by (simp_all only: e) auto
      with nd c1 pc show ?thesis by (auto simp: child_ok_def is_dir_node_def is_file_node_def)
    qed
    show "n' = n \<and> nm' = nm1" if "edge ?W n nm1 a b" "edge ?W n' nm' a b'" for n nm1 a b n' nm' b'
      using that [unfolded e] noedge(1) t(5) by blast
  next
    fix n m' assume "?W n = Some (Dir m')"
    note dot = link_dots [OF ok p nm c nd refl this]
    show "m' (ascii ''.'') = Some (n, 2)" by (rule conjunct1 [OF dot])
    show "parent_ok ?W n m'" by (rule conjunct2 [OF dot])
  qed
qed

section \<open>Removing a name and its node\<close>

lemma tree_ok_drop:
  assumes ok: "tree_ok V" and p: "V p = Some (Dir m)" and nm: "nm \<notin> dots" "m nm = Some (c, ty)"
    and leaf: "\<And>k a b. \<not> edge V c k a b"
  shows "tree_ok (V(c := None, p \<mapsto> Dir (m(nm := None))))" (is "tree_ok ?W")
proof -
  note t = tree_okD [OF ok]
  have pe: "edge V p nm c ty" using p nm by (auto simp: edge_def)
  have pc: "p \<noteq> c" "c \<noteq> 1" using edge_ne [OF ok pe] t(4) [OF pe] by (auto simp: child_ok_def)
  have e: "edge ?W n k a b \<longleftrightarrow> edge V n k a b \<and> a \<noteq> c" for n k a b
  proof -
    have "edge ?W n k a b \<longleftrightarrow> edge V n k a b \<and> \<not> (n = p \<and> k = nm)"
      using p nm pc leaf by (auto simp: edge_def split: if_splits)
    with t(5) [OF pe] pe show ?thesis using p nm by (auto simp: edge_def)
  qed
  have d: "is_dir_node ?W n \<longleftrightarrow> is_dir_node V n \<and> n \<noteq> c" "is_file_node ?W n \<longleftrightarrow> is_file_node V n \<and> n \<noteq> c" for n
    using p pc by (auto simp: is_dir_node_def is_file_node_def)
  show ?thesis
  proof (rule tree_okI)
    show "is_dir_node ?W 1" using t(1) pc by (simp add: d)
    show "ranked ?W" using t(6) unfolding ranked_def e by blast
    show "child_ok ?W k b" if "edge ?W n a k b" for n a k b
      using t(4) that [unfolded e] by (auto simp: child_ok_def d)
    show "n' = n \<and> nm' = nm1" if "edge ?W n nm1 a b" "edge ?W n' nm' a b'" for n nm1 a b n' nm' b'
      using that [unfolded e] t(5) by blast
  next
    fix n m' assume n: "?W n = Some (Dir m')"
    have nc: "n \<noteq> c" using n pc by auto
    obtain m0 where m0: "V n = Some (Dir m0)" "m' (ascii ''..'') = m0 (ascii ''..'')" "m' (ascii ''.'') = m0 (ascii ''.'')"
      using n p not_dots [OF nm(1)] nc by (auto split: if_splits)
    then show "m' (ascii ''.'') = Some (n, 2)" using t(2) by simp
    from t(3) [OF m0(1)] obtain q where q: "m0 (ascii ''..'') = Some (q, 2)" "is_dir_node V q"
        "if n = 1 then q = 1 else \<exists>k. edge V q k n 2" unfolding parent_ok_def by blast
    have "q \<noteq> c" using q(3) pc(2) leaf by (cases "n = 1") auto
    with q nc show "parent_ok ?W n m'" unfolding parent_ok_def m0(2) e d by auto
  qed
qed

lemma tree_ok_unlink:
  assumes "tree_ok V" "V p = Some (Dir m)" "nm \<notin> dots" "m nm = Some (c, ty)" "is_file_node V c"
  shows "tree_ok (V(c := None, p \<mapsto> Dir (m(nm := None))))"
  using assms by (intro tree_ok_drop) (auto simp: edge_def is_file_node_def)

text \<open>A directory with at most two entries has only \<open>.\<close> and \<open>..\<close>.\<close>

lemma two_entries:
  assumes "tree_ok V" "V c = Some (Dir m)" "finite (dom m)" "card (dom m) \<le> 2"
  shows "dom m = dots"
proof -
  have "dots \<subseteq> dom m" using tree_okD(2,3) [OF assms(1,2)] by (auto simp: dots_def parent_ok_def)
  moreover have "card dots = 2" by (simp add: dots_def ascii_dot ascii_dotdot)
  ultimately show ?thesis using assms(3,4) by (metis card_seteq)
qed

lemma tree_ok_rmdir:
  assumes "tree_ok V" "V p = Some (Dir m)" "nm \<notin> dots" "m nm = Some (c, ty)"
    and "V c = Some (Dir mc)" "finite (dom mc)" "card (dom mc) \<le> 2"
  shows "tree_ok (V(c := None, p \<mapsto> Dir (m(nm := None))))"
  using assms two_entries [OF assms(1,5-7)] by (intro tree_ok_drop) (auto simp: edge_def)

section \<open>Changing the contents of a file\<close>

lemma tree_ok_write:
  assumes ok: "tree_ok V" and n: "V n = Some (File bs)"
  shows "tree_ok (V(n \<mapsto> File bs'))" (is "tree_ok ?W")
proof -
  note t = tree_okD [OF ok]
  have e: "edge ?W = edge V" "is_dir_node ?W = is_dir_node V" "is_file_node ?W = is_file_node V"
    using n by (auto simp: edge_def is_dir_node_def is_file_node_def fun_eq_iff)
  have d: "?W k = Some (Dir m) \<longleftrightarrow> V k = Some (Dir m)" for k m using n by auto
  have "parent_ok ?W = parent_ok V" "child_ok ?W = child_ok V" "ranked ?W = ranked V" "one_name ?W = one_name V"
    by (simp_all add: parent_ok_def child_ok_def ranked_def one_name_def e fun_eq_iff)
  with ok show ?thesis unfolding tree_ok_def e d by simp
qed

section \<open>Paths\<close>

fun walk :: "tree \<Rightarrow> u32 \<Rightarrow> str list \<Rightarrow> u32 option" where
  "walk V n [] = Some n"
| "walk V n (c # cs) = (case V n of
     Some (Dir m) \<Rightarrow> (case m c of Some (k, _) \<Rightarrow> walk V k cs | None \<Rightarrow> None)
   | _ \<Rightarrow> None)"

lemma walk_append: "walk V n (cs @ ds) = (case walk V n cs of Some k \<Rightarrow> walk V k ds | None \<Rightarrow> None)"
  by (induction cs arbitrary: n) (auto split: option.splits node.splits)

lemma walk_edge: "edge V n nm c ty \<Longrightarrow> walk V n [nm] = Some c"
  by (auto simp: edge_def)

text \<open>Every directory has a path from the root.\<close>

lemma tree_rooted:
  assumes ok: "tree_ok V" and "is_dir_node V n"
  shows "\<exists>names. set names \<inter> dots = {} \<and> walk V 1 names = Some n"
proof -
  obtain rank :: "u32 \<Rightarrow> nat" where rank: "\<And>n k a b. edge V n k a b \<Longrightarrow> rank n < rank a"
    using rankedE [OF tree_okD(6) [OF ok]] by blast
  from assms(2) show ?thesis
  proof (induction "rank n" arbitrary: n rule: less_induct)
    case less
    show ?case
    proof (cases "n = 1")
      case True
      then show ?thesis by (intro exI [of _ "[]"]) simp
    next
      case False
      obtain m where "V n = Some (Dir m)" using less.prems by (auto simp: is_dir_node_def)
      from tree_okD(3) [OF ok this] False obtain q nm where q: "is_dir_node V q" "edge V q nm n 2"
        by (auto simp: parent_ok_def)
      from less.hyps [OF rank [OF q(2)] q(1)] obtain names where
        "set names \<inter> dots = {}" "walk V 1 names = Some q" by blast
      with q(2) walk_edge [OF q(2)] show ?thesis
        by (intro exI [of _ "names @ [nm]"]) (auto simp: walk_append edge_def)
    qed
  qed
qed

end
