(* ===== verification/Requests.thy ===== *)
theory Requests
  imports Listing Dir_Tree
begin

text \<open>
  The file system as a server of requests. \<open>handle\<close> calls the handler of \<open>src/src/fs.rs\<close> for
  a request, \<open>abs_step\<close> is what a user of the directories and files may expect, and \<open>ok_request\<close>
  names the requests for which the code meets it: those on existing objects, with names of at most 28
  bytes to create, no \<open>.\<close> or \<open>..\<close> to remove, and while blocks below the first
  unprotected inode remain. The kernel also sends others (a longer name, a write through the handle of a
  removed file); what the code does with them is shown apart. A request for a listing carries the framework's function that adds an
  entry to its buffer and says whether the buffer is full.
\<close>

section \<open>Requests\<close>

datatype request =
    Getattr u64
  | Readdir u64 i64 "dirent list \<Rightarrow> u64 \<Rightarrow> int \<Rightarrow> FileType \<Rightarrow> str \<Rightarrow> bool \<times> dirent list"
  | Setattr u64 "u32 option"
  | Lookup u64 "byte list"
  | Open u32 u32 u64 int
  | Read u64 i64 u32
  | Write u64 i64 "byte list"
  | Create u64 "byte list"
  | Mkdir u64 "byte list"
  | Unlink u64 "byte list"
  | Rmdir u64 "byte list"

fun handle :: "'s SimpleFS \<Rightarrow> request \<Rightarrow> 's \<Rightarrow> ((reply \<times> 's SimpleFS) \<times> 's) option" where
  "handle fs (Getattr ino) = fs_getattr fs ino"
| "handle fs (Readdir ino offset add) = (\<lambda>s. do {
     (r, s) \<leftarrow> fs_readdir add fs ino offset [] s;
     Some ((case r of Inl e \<Rightarrow> ReplyError e | Inr es \<Rightarrow> ReplyDirectory es, fs), s) })"
| "handle fs (Setattr ino m) = fs_setattr fs ino m"
| "handle fs (Lookup parent name) = fs_lookup fs parent name"
| "handle fs (Open u g ino flags) = fs_open fs u g ino flags"
| "handle fs (Read ino offset sz) = fs_read fs ino offset sz"
| "handle fs (Write ino offset data) = fs_write fs ino offset data"
| "handle fs (Create parent name) = fs_create fs parent name"
| "handle fs (Mkdir parent name) = fs_mkdir fs parent name"
| "handle fs (Unlink parent name) = fs_unlink fs parent name"
| "handle fs (Rmdir parent name) = fs_rmdir fs parent name"

definition live_dir_at :: "volume \<Rightarrow> u32 \<Rightarrow> bool" where
  "live_dir_at v n \<longleftrightarrow> live v n \<and> is_dir_at v n"

definition live_file_at :: "volume \<Rightarrow> u32 \<Rightarrow> bool" where
  "live_file_at v n \<longleftrightarrow> live v n \<and> \<not> is_dir_at v n"

fun ok_request :: "volume \<Rightarrow> request \<Rightarrow> bool" where
  "ok_request v (Getattr ino) = valid_ino (ucast ino)"
| "ok_request v (Readdir ino offset add) = live v (ucast ino)"
| "ok_request v (Setattr ino m) = live v (ucast ino)"
| "ok_request v (Lookup parent name) = live_dir_at v (ucast parent)"
| "ok_request v (Open u g ino flags) = live v (ucast ino)"
| "ok_request v (Read ino offset sz) = (live_file_at v (ucast ino) \<and> 0 \<le> sint offset)"
| "ok_request v (Write ino offset data) = (live_file_at v (ucast ino) \<and>
     unat offset + length data + 509 < 510 * 2 ^ 32 \<and>
     (unat offset + length data \<le> 10200 \<longrightarrow>
       grow_need (unat (block_count (inode_at v (ucast ino)))) ((unat offset + length data + 509) div 510) \<le> room v 89))"
| "ok_request v (Create parent name) = (live_dir_at v (ucast parent) \<and>
     name_ok (os_str_or name (ascii ''unknown'')) \<and> 0 < room v 89)"
| "ok_request v (Mkdir parent name) = (live_dir_at v (ucast parent) \<and>
     name_ok (os_str_or name (ascii ''unknown'')) \<and> 2 \<le> room v 89 \<and>
     card (dom (dir_map v (inode_at v (ucast parent)))) < 150)"
| "ok_request v (Unlink parent name) = (live_dir_at v (ucast parent) \<and> os_str_or name [] \<notin> dots)"
| "ok_request v (Rmdir parent name) = (live_dir_at v (ucast parent) \<and> os_str_or name [] \<notin> dots)"

section \<open>The abstract specification\<close>

definition attr_for :: "u32 \<Rightarrow> node \<Rightarrow> FileAttr \<Rightarrow> bool" where
  "attr_for n nd a \<longleftrightarrow> attr_ino a = ucast n \<and>
     (case nd of
        Dir _ \<Rightarrow> attr_kind a = FT_Directory
      | File bs \<Rightarrow> attr_kind a = FT_RegularFile \<and> unat (attr_size a) = length bs)"

text \<open>The effect of \<open>create\<close> and \<open>mkdir\<close>, and of \<open>unlink\<close> and \<open>rmdir\<close>, on the tree.\<close>

definition add_node :: "tree \<Rightarrow> u32 \<Rightarrow> (str \<Rightarrow> (u32 \<times> byte) option) \<Rightarrow> str \<Rightarrow> u32 \<Rightarrow> byte \<Rightarrow> node \<Rightarrow> tree" where
  "add_node V p m nm c ty nd = V(c \<mapsto> nd, p \<mapsto> Dir (m(nm \<mapsto> (c, ty))))"

definition drop_node :: "tree \<Rightarrow> u32 \<Rightarrow> (str \<Rightarrow> (u32 \<times> byte) option) \<Rightarrow> str \<Rightarrow> u32 \<Rightarrow> tree" where
  "drop_node V p m nm c = V(c := None, p \<mapsto> Dir (m(nm := None)))"

text \<open>The number of a new inode: the first unused one of a range.\<close>

definition next_ino :: "tree \<Rightarrow> nat \<Rightarrow> nat \<Rightarrow> u32 option" where
  "next_ino V a lim = map_option of_nat (find (\<lambda>k. V (of_nat k) = None) [a..<Suc lim])"

lemma next_ino_unused: "next_ino V a lim = Some c \<Longrightarrow> V c = None"
  unfolding next_ino_def by (auto simp: find_Some_iff simp del: upt_Suc)

text \<open>A list of the entries of a directory, in any order but each name once.\<close>

definition lists :: "(str \<Rightarrow> (u32 \<times> byte) option) \<Rightarrow> (u32 \<times> byte \<times> str) list \<Rightarrow> bool" where
  "lists m es \<longleftrightarrow> distinct (map (\<lambda>(c, ty, nm). nm) es) \<and> (\<forall>c ty nm. (c, ty, nm) \<in> set es \<longleftrightarrow> m nm = Some (c, ty))"

text \<open>
  What a request may answer and do. A directory holds at most 150 entries; \<open>create\<close> in a full
  one leaves a file without a name.
\<close>

fun abs_step :: "tree \<Rightarrow> request \<Rightarrow> reply \<Rightarrow> tree \<Rightarrow> bool" where
  "abs_step V (Getattr ino) r V' \<longleftrightarrow> V' = V \<and> (case V (ucast ino) of
     None \<Rightarrow> r = ReplyError ENOENT
   | Some nd \<Rightarrow> \<exists>a. r = ReplyAttr 1 a \<and> attr_for (ucast ino) nd a)"
| "abs_step V (Readdir ino offset add) r V' \<longleftrightarrow> V' = V \<and> (case V (ucast ino) of
     None \<Rightarrow> False
   | Some (File _) \<Rightarrow> r = ReplyError ENOTDIR
   | Some (Dir m) \<Rightarrow> (\<exists>es. lists m es \<and>
       r = ReplyDirectory (feed add (int (nat (sint offset))) (drop (nat (sint offset)) es) [])))"
| "abs_step V (Setattr ino md) r V' \<longleftrightarrow> V' = V \<and>
     (\<exists>nd a. V (ucast ino) = Some nd \<and> r = ReplyAttr 1 a \<and> attr_for (ucast ino) nd a)"
| "abs_step V (Lookup parent name) r V' \<longleftrightarrow> V' = V \<and>
     (\<exists>m. V (ucast parent) = Some (Dir m) \<and> (case m (os_str_or name []) of
        None \<Rightarrow> r = ReplyError ENOENT
      | Some (c, _) \<Rightarrow> \<exists>nd a. V c = Some nd \<and> r = ReplyEntry 1 a 0 \<and> attr_for c nd a))"
| "abs_step V (Open u g ino flags) r V' \<longleftrightarrow> V' = V \<and> (r = ReplyOpened ino 0 \<or> r = ReplyError EACCES)"
| "abs_step V (Read ino offset sz) r V' \<longleftrightarrow> V' = V \<and>
     (\<exists>bs. V (ucast ino) = Some (File bs) \<and> r = ReplyData (read_at bs (unat offset) (unat sz)))"
| "abs_step V (Write ino offset data) r V' \<longleftrightarrow> (\<exists>bs. V (ucast ino) = Some (File bs) \<and>
     (if data \<noteq> [] \<and> 10200 < unat offset + length data then r = ReplyError EFBIG \<and> V' = V
      else r = ReplyWritten (of_nat (length data)) \<and>
        V' = (if data = [] then V else V(ucast ino \<mapsto> File (write_at bs (unat offset) data)))))"
| "abs_step V (Create parent name) r V' \<longleftrightarrow> (\<exists>m. V (ucast parent) = Some (Dir m) \<and>
     (if m (os_str_or name (ascii ''unknown'')) \<noteq> None then r = ReplyError EEXIST \<and> V' = V
      else (case next_ino V 1000 2000 of
          None \<Rightarrow> r = ReplyError ENOSPC \<and> V' = V
        | Some c \<Rightarrow> (if card (dom m) = 150 then r = ReplyError ENOSPC \<and> V' = V(c \<mapsto> File [])
            else (\<exists>a. r = ReplyCreated 1 a 0 (ucast c) 0 \<and> attr_for c (File []) a \<and>
              V' = add_node V (ucast parent) m (os_str_or name (ascii ''unknown'')) c 1 (File []))))))"
| "abs_step V (Mkdir parent name) r V' \<longleftrightarrow> (\<exists>m. V (ucast parent) = Some (Dir m) \<and>
     (if m (os_str_or name (ascii ''unknown'')) \<noteq> None then r = ReplyError EEXIST \<and> V' = V
      else (case next_ino V 500 900 of
          None \<Rightarrow> r = ReplyError ENOSPC \<and> V' = V
        | Some c \<Rightarrow> card (dom m) < 150 \<and> (\<exists>a. r = ReplyEntry 1 a 0 \<and>
            attr_for c (Dir [ascii ''.'' \<mapsto> (c, 2), ascii ''..'' \<mapsto> (ucast parent, 2)]) a \<and>
            V' = add_node V (ucast parent) m (os_str_or name (ascii ''unknown'')) c 2
              (Dir [ascii ''.'' \<mapsto> (c, 2), ascii ''..'' \<mapsto> (ucast parent, 2)])))))"
| "abs_step V (Unlink parent name) r V' \<longleftrightarrow> (\<exists>m. V (ucast parent) = Some (Dir m) \<and>
     (case m (os_str_or name []) of
        None \<Rightarrow> r = ReplyError ENOENT \<and> V' = V
      | Some (c, _) \<Rightarrow> (if is_dir_node V c then r = ReplyError EISDIR \<and> V' = V
          else r = ReplyOk \<and> V' = drop_node V (ucast parent) m (os_str_or name []) c)))"
| "abs_step V (Rmdir parent name) r V' \<longleftrightarrow> (\<exists>m. V (ucast parent) = Some (Dir m) \<and>
     (case m (os_str_or name []) of
        None \<Rightarrow> r = ReplyError ENOENT \<and> V' = V
      | Some (c, _) \<Rightarrow> (case V c of
          Some (Dir mc) \<Rightarrow> (if dom mc \<subseteq> dots
            then r = ReplyOk \<and> V' = drop_node V (ucast parent) m (os_str_or name []) c
            else r = ReplyError ENOTEMPTY \<and> V' = V)
        | _ \<Rightarrow> r = ReplyError ENOTDIR \<and> V' = V)))"

text \<open>A consistent file system: its storage and its tree.\<close>

definition fs_ok :: "volume \<Rightarrow> SuperBlock \<Rightarrow> bool" where
  "fs_ok v sb \<longleftrightarrow> store_ok v sb \<and> tree_ok (view v)"

definition step_post :: "volume \<Rightarrow> 's SimpleFS \<Rightarrow> request \<Rightarrow> reply \<times> 's SimpleFS \<Rightarrow> volume \<Rightarrow> bool" where
  "step_post v fs req = (\<lambda>(r, fs') v'. fs_ok v' (fs_sb fs') \<and> abs_step (view v) req r (view v') \<and>
     fs_disk fs' = fs_disk fs \<and> disk_path fs' = disk_path fs)"

section \<open>Lemmas: the view of a consistent file system\<close>

lemma fs_okD:
  assumes "fs_ok v sb"
  shows "store_ok v sb" "tree_ok (view v)" "alloc_inv v sb" "vol v" "sb_layout sb"
  using assms by (auto simp: fs_ok_def store_ok_def alloc_inv_def)

lemma view_dir: "live_dir_at v p \<Longrightarrow> view v p = Some (Dir (dir_map v (inode_at v p)))"
  by (simp add: view_def node_at_def live_dir_at_def)

lemma view_file: "live_file_at v n \<Longrightarrow> view v n = Some (File (file_contents v (inode_at v n)))"
  by (simp add: view_def node_at_def live_file_at_def)

lemma dir_node_view: "is_dir_node (view v) c \<longleftrightarrow> live v c \<and> is_dir_at v c"
  by (simp add: is_dir_node_def view_def node_at_def)

lemma file_node_view: "is_file_node (view v) c \<longleftrightarrow> live v c \<and> \<not> is_dir_at v c"
  by (simp add: is_file_node_def view_def node_at_def)

lemma entry_live:
  assumes ok: "tree_ok (view v)" and p: "live_dir_at v p" and e: "dir_map v (inode_at v p) nm = Some (c, ty)"
  shows "live v c"
proof -
  note t = tree_okD [OF ok] and pv = view_dir [OF p]
  consider "nm = ascii ''.''" | "nm = ascii ''..''" | "nm \<notin> dots" by (auto simp: dots_def)
  then show ?thesis
  proof cases
    case 1
    with t(2) [OF pv] e p show ?thesis by (simp add: live_dir_at_def)
  next
    case 2
    with t(3) [OF pv] e show ?thesis by (auto simp: parent_ok_def dir_node_view)
  next
    case 3
    then have "edge (view v) p nm c ty" using pv e by (simp add: edge_def)
    from t(4) [OF this] show ?thesis by (auto simp: child_ok_def dir_node_view file_node_view)
  qed
qed

lemma entry_ne:
  assumes "tree_ok (view v)" "live_dir_at v p" "dir_map v (inode_at v p) nm = Some (c, ty)" "nm \<notin> dots"
  shows "p \<noteq> c"
  using edge_ne [OF assms(1), of p nm c ty] assms(3,4) view_dir [OF assms(2)] by (simp add: edge_def)

lemma attr_node:
  assumes ok: "store_ok v sb" and n: "live v n"
  shows "attr_for n (node_at v n) (inode_to_attr (inode_at v n))"
proof -
  have v: "vol v" "on_disk n" using ok n valid_ino_blk(1) by (auto simp: store_ok_def alloc_inv_def live_def)
  then have no: "inode_no (inode_at v n) = n" by (rule inode_at_decode(3))
  have "unat (ucast (isize (inode_at v n)) :: u64) = length (file_contents v (inode_at v n))" if "\<not> is_dir_at v n"
  proof -
    have "unat (isize (inode_at v n)) < 2 ^ 64" by (rule less_le_trans [OF unsigned_less]) simp
    then show ?thesis
      using length_file_contents [OF live_file(1) [OF ok n that]] by (simp add: unsigned_ucast_eq take_bit_nat_eq_self)
  qed
  with no show ?thesis by (auto simp: attr_for_def node_at_def inode_to_attr_def is_dir_at_def)
qed

lemma next_ino_eq:
  assumes "a = 1000 \<and> lim = 2000 \<or> a = 500 \<and> lim = 900"
  shows "next_ino (view v) a lim = map_option of_nat (first_free v a lim)"
proof -
  have "(view v (of_nat k) = None) = (nlink (inode_at v (of_nat k)) = 0)" if "k \<in> set [a..<Suc lim]" for k
  proof -
    have "valid_ino (of_nat k)" using that assms by (auto simp: valid_ino_def unat_of_nat)
    then show ?thesis by (auto simp: view_def live_def)
  qed
  then show ?thesis unfolding next_ino_def first_free_def by (intro arg_cong [of _ _ "map_option of_nat"] find_cong refl)
qed

lemma finite_dir_map: "finite (dom (dir_map v i))"
proof -
  have "dom (dir_map v i) \<subseteq> (\<lambda>x. entry_name (fst x)) ` set (dir_entries v i)"
    by (auto simp: dir_map_def find_Some_iff intro!: imageI)
  then show ?thesis by (rule finite_subset) simp
qed

lemma live_dir_card:
  assumes "fs_ok v sb" "view v p = Some (Dir m)"
  shows "card (dom m) \<le> 150"
proof -
  have p: "live v p" "is_dir_at v p" "m = dir_map v (inode_at v p)"
    using assms(2) by (auto simp: view_def node_at_def split: if_splits)
  from live_dir(1) [OF _ p(1,2)] assms(1) p(3) dir_card_le show ?thesis by (auto simp: fs_ok_def)
qed

lemma attr_created: "attr_for c (File []) (inode_to_attr (created_inode c t))"
  by (simp add: attr_for_def inode_to_attr_def created_inode_def S_IFDIR_def)

lemma attr_made: "attr_for c (Dir m) (inode_to_attr (made_inode c b t))"
  by (simp add: attr_for_def inode_to_attr_def S_IFDIR_def)

lemma view_None: "\<not> live v n \<Longrightarrow> view v n = None"
  by (simp add: view_def)

lemma view_Some: "live v n \<Longrightarrow> view v n = Some (node_at v n)"
  by (simp add: view_def)

lemma fs_ok_same: "fs_ok v (fs_sb fs) \<Longrightarrow> abs_step (view v) req r (view v) \<Longrightarrow> step_post v fs req (r, fs) v"
  by (simp add: step_post_def)

section \<open>Lemmas: the handlers meet the specification\<close>

lemma getattr_ok:
  assumes "fs_ok v (fs_sb fs)" "ok_request v (Getattr ino)"
  shows "dwp (fs_disk fs) (handle fs (Getattr ino)) (step_post v fs (Getattr ino)) v"
proof -
  note f = fs_okD [OF assms(1)]
  have n: "valid_ino (ucast ino)" using assms(2) by simp
  have "abs_step (view v) (Getattr ino) (if nlink (inode_at v (ucast ino)) = 0 then ReplyError ENOENT
      else ReplyAttr 1 (inode_to_attr (inode_at v (ucast ino)))) (view v)"
    using n attr_node [OF f(1), of "ucast ino"] by (auto simp: view_def live_def)
  with assms(1) f(4,5) valid_ino_blk(1) [OF n] show ?thesis
    by (simp only: handle.simps) (intro fs_getattr_awp fs_ok_same, simp_all)
qed

lemma readdir_ok:
  assumes "fs_ok v (fs_sb fs)" "ok_request v (Readdir ino off add)"
  shows "dwp (fs_disk fs) (handle fs (Readdir ino off add)) (step_post v fs (Readdir ino off add)) v"
proof -
  let ?n = "ucast ino :: u32"
  note f = fs_okD [OF assms(1)]
  have n: "live v ?n" using assms(2) by simp
  have "step_post v fs (Readdir ino off add) (ReplyError ENOTDIR, fs) v" if "\<not> is_dir_at v ?n"
    using that assms(1) n view_file [of v ?n] by (intro fs_ok_same) (simp_all add: live_file_at_def)
  moreover have "step_post v fs (Readdir ino off add) (ReplyDirectory (feed add (int (nat (sint off)))
      (drop (nat (sint off)) (listing v (inode_at v ?n))) []), fs) v" if d: "is_dir_at v ?n"
  proof (rule fs_ok_same [OF assms(1)])
    have "lists (dir_map v (inode_at v ?n)) (listing v (inode_at v ?n))"
      using listing_map [OF live_dir(1) [OF f(1) n d]] by (simp add: lists_def)
    with n d view_dir [of v ?n] show "abs_step (view v) (Readdir ino off add) (ReplyDirectory (feed add (int (nat (sint off)))
        (drop (nat (sint off)) (listing v (inode_at v ?n))) [])) (view v)" by (auto simp: live_dir_at_def)
  qed
  ultimately show ?thesis
    unfolding handle.simps by (intro awp_bind readdir_awp [OF f(1) n]) (auto intro: awp_return)
qed

lemma setattr_ok:
  assumes "fs_ok v (fs_sb fs)" "ok_request v (Setattr ino m)"
  shows "dwp (fs_disk fs) (handle fs (Setattr ino m)) (step_post v fs (Setattr ino m)) v"
proof -
  let ?n = "ucast ino :: u32"
  note f = fs_okD [OF assms(1)]
  have n: "live v ?n" using assms(2) by simp
  then have nv: "valid_ino ?n" by (simp add: live_def)
  have "step_post v fs (Setattr ino m) (ReplyAttr 1 (inode_to_attr (chmod_of (inode_at v ?n) m t)), fs)
      (put_inode v (chmod_of (inode_at v ?n) m t))" for t
  proof -
    let ?v' = "put_inode v (chmod_of (inode_at v ?n) m t)"
    note st = chmod_step [OF f(1) n, of m t]
    have no: "inode_no (chmod_of (inode_at v ?n) m t) = ?n" "inode_wf (chmod_of (inode_at v ?n) m t)"
      using inode_at_decode [OF f(4) valid_ino_blk(1) [OF nv]] by (simp_all add: chmod_of_def inode_wf_def)
    have at: "inode_at ?v' ?n = chmod_of (inode_at v ?n) m t"
      using inode_at_put_inode [OF f(4) _ no(2) valid_ino_blk(1) [OF nv]] no(1) valid_ino_blk(1) [OF nv] by simp
    then have "live ?v' ?n" using n by (simp add: live_def chmod_of_def)
    from attr_node [OF store_stepD(1) [OF st(1)] this] at view_Some [OF this] st f(2) store_stepD(1) [OF st(1)]
    show ?thesis by (simp add: step_post_def fs_ok_def)
  qed
  then show ?thesis
    using f(4,5) valid_ino_blk(1) [OF nv] by (simp only: handle.simps) (rule fs_setattr_awp)
qed

text \<open>\<open>lookup\<close> changes nothing.\<close>

lemma lookup_same:
  assumes "fs_ok v (fs_sb fs)" "live_dir_at v (ucast parent)"
  shows "dwp (fs_disk fs) (fs_lookup fs parent name) (\<lambda>(r, fs') v'. v' = v \<and> fs' = fs \<and>
    abs_step (view v) (Lookup parent name) r (view v)) v"
proof -
  let ?p = "ucast parent :: u32" and ?nm = "os_str_or name []"
  note f = fs_okD [OF assms(1)]
  have p': "live v ?p" "is_dir_at v ?p" using assms(2) by (simp_all add: live_dir_at_def)
  note l = live_dir [OF f(1) p']
  have "on_disk c \<and> abs_step (view v) (Lookup parent name) (ReplyEntry 1 (inode_to_attr (inode_at v c)) 0) (view v)"
    if e: "dir_map v (inode_at v ?p) ?nm = Some (c, ty)" for c ty
  proof -
    have c: "live v c" by (rule entry_live [OF f(2) assms(2) e])
    then have "on_disk c" by (intro valid_ino_blk(1)) (simp add: live_def)
    with view_dir [OF assms(2)] e view_Some [OF c] attr_node [OF f(1) c] show ?thesis by simp
  qed
  with l(1,3) view_dir [OF assms(2)] show ?thesis by (intro fs_lookup_awp) auto
qed

lemma lookup_ok:
  assumes "fs_ok v (fs_sb fs)" "ok_request v (Lookup parent name)"
  shows "dwp (fs_disk fs) (handle fs (Lookup parent name)) (step_post v fs (Lookup parent name)) v"
  unfolding handle.simps
  by (rule awp_mono [OF lookup_same]) (use assms fs_ok_same in \<open>auto simp del: abs_step.simps\<close>)

lemma open_ok:
  assumes "fs_ok v (fs_sb fs)" "ok_request v (Open u g ino flags)"
  shows "dwp (fs_disk fs) (handle fs (Open u g ino flags)) (step_post v fs (Open u g ino flags)) v"
  using assms fs_okD [OF assms(1)] valid_ino_blk(1)
  by (simp only: handle.simps) (intro fs_open_awp fs_ok_same, simp_all add: live_def)

lemma read_ok:
  assumes "fs_ok v (fs_sb fs)" "ok_request v (Read ino off sz)"
  shows "dwp (fs_disk fs) (handle fs (Read ino off sz)) (step_post v fs (Read ino off sz)) v"
proof -
  let ?n = "ucast ino :: u32"
  note f = fs_okD [OF assms(1)]
  have n: "live_file_at v ?n" "0 \<le> sint off" using assms(2) by simp_all
  then have n': "live v ?n" "\<not> is_dir_at v ?n" by (simp_all add: live_file_at_def)
  note l = live_file [OF f(1) n']
  have "step_post v fs (Read ino off sz) (ReplyData (read_at (file_contents v (inode_at v ?n)) (unat off) (unat sz)), fs) v"
    using assms(1) view_file [OF n(1)] by (intro fs_ok_same) simp_all
  with l(1,3) n(2) show ?thesis by (simp only: handle.simps) (rule fs_read_awp)
qed

lemma create_ok:
  assumes "fs_ok v (fs_sb fs)" "ok_request v (Create parent name)"
  shows "dwp (fs_disk fs) (handle fs (Create parent name)) (step_post v fs (Create parent name)) v"
proof -
  let ?p = "ucast parent :: u32" and ?nm = "os_str_or name (ascii ''unknown'')"
  let ?m = "dir_map v (inode_at v ?p)"
  note f = fs_okD [OF assms(1)]
  have p: "live_dir_at v ?p" "name_ok ?nm" "0 < room v 89" using assms(2) by simp_all
  then have p': "live v ?p" "is_dir_at v ?p" by (simp_all add: live_dir_at_def)
  note pv = view_dir [OF p(1)]
  have "step_post v fs (Create parent name) (ReplyError EEXIST, fs) v" if "?m ?nm \<noteq> None"
    using that assms(1) pv by (intro fs_ok_same) simp_all
  moreover have "step_post v fs (Create parent name) (ReplyError ENOSPC, fs) v"
    if "?m ?nm = None" "first_free v 1000 2000 = None"
    using that assms(1) pv by (intro fs_ok_same) (simp_all add: next_ino_eq)
  moreover have "step_post v fs (Create parent name) (r, fs\<lparr>fs_sb := sb'\<rparr>) v'"
    if m: "?m ?nm = None" and k: "first_free v 1000 2000 = Some k" and post: "create_post v ?p ?nm (of_nat k) r v' sb'" for k r sb' v'
  proof -
    let ?c = "of_nat k :: u32"
    have cN: "view v ?c = None" by (rule view_None, rule first_free_fresh(2) [OF k]) simp
    have st: "store_ok v' sb'" using post by (simp add: create_post_def store_step_def)
    have nd: "?nm \<notin> dots"
    proof
      assume "?nm \<in> dots"
      with m tree_okD(2,3) [OF f(2) pv] show False by (auto simp: dots_def parent_ok_def)
    qed
    show ?thesis
    proof (cases "r = ReplyError ENOSPC")
      case True
      with post have vw: "view v' = (view v)(?c \<mapsto> File [])" "card (dom ?m) = 150" by (auto simp: create_post_def)
      with st tree_ok_orphan [OF f(2) cN] True pv m cN k show ?thesis
        by (auto simp: step_post_def fs_ok_def next_ino_eq)
    next
      case False
      with post obtain t where r: "r = ReplyCreated 1 (inode_to_attr (created_inode ?c t)) 0 (ucast ?c) 0"
        and vw: "view v' = add_node (view v) ?p ?m ?nm ?c 1 (File [])" by (auto simp: create_post_def add_node_def)
      have "tree_ok (view v')"
        unfolding vw add_node_def by (rule tree_ok_link [OF f(2) pv nd m cN]) simp
      with st have ok': "fs_ok v' sb'" by (simp add: fs_ok_def)
      have "view v' ?p = Some (Dir (?m(?nm \<mapsto> (?c, 1))))" using vw by (simp add: add_node_def)
      from live_dir_card [OF ok' this] finite_dir_map [of v "inode_at v ?p"] m have "card (dom ?m) \<noteq> 150"
        by (simp add: card_insert_if domIff)
      with ok' r vw pv m cN k attr_created show ?thesis by (auto simp: step_post_def next_ino_eq)
    qed
  qed
  ultimately show ?thesis using p p' f(1) by (simp only: handle.simps) (rule fs_create_awp)
qed

lemma mkdir_ok:
  assumes "fs_ok v (fs_sb fs)" "ok_request v (Mkdir parent name)"
  shows "dwp (fs_disk fs) (handle fs (Mkdir parent name)) (step_post v fs (Mkdir parent name)) v"
proof -
  let ?p = "ucast parent :: u32" and ?nm = "os_str_or name (ascii ''unknown'')"
  let ?m = "dir_map v (inode_at v ?p)"
  note f = fs_okD [OF assms(1)]
  have p: "live_dir_at v ?p" "name_ok ?nm" "2 \<le> room v 89" "card (dom ?m) < 150"
    using assms(2) by simp_all
  then have p': "live v ?p" "is_dir_at v ?p" by (simp_all add: live_dir_at_def)
  note pv = view_dir [OF p(1)]
  have "step_post v fs (Mkdir parent name) (ReplyError EEXIST, fs) v" if "?m ?nm \<noteq> None"
    using that assms(1) pv by (intro fs_ok_same) simp_all
  moreover have "step_post v fs (Mkdir parent name) (ReplyError ENOSPC, fs) v"
    if "?m ?nm = None" "first_free v 500 900 = None"
    using that assms(1) pv by (intro fs_ok_same) (simp_all add: next_ino_eq)
  moreover have "step_post v fs (Mkdir parent name) (r, fs\<lparr>fs_sb := sb'\<rparr>) v'"
    if m: "?m ?nm = None" and k: "first_free v 500 900 = Some k" and post: "mkdir_post v ?p ?nm (of_nat k) r v' sb'" for k r sb' v'
  proof -
    let ?c = "of_nat k :: u32"
    let ?d = "Dir [ascii ''.'' \<mapsto> (?c, 2), ascii ''..'' \<mapsto> (?p, 2)]"
    have cN: "view v ?c = None" by (rule view_None, rule first_free_fresh(2) [OF k]) simp
    have nd: "?nm \<notin> dots"
    proof
      assume "?nm \<in> dots"
      with m tree_okD(2,3) [OF f(2) pv] show False by (auto simp: dots_def parent_ok_def)
    qed
    from post obtain b t where r: "r = ReplyEntry 1 (inode_to_attr (made_inode ?c b t)) 0"
      and vw: "view v' = add_node (view v) ?p ?m ?nm ?c 2 ?d" and st: "store_ok v' sb'"
      by (auto simp: mkdir_post_def add_node_def store_step_def)
    have "tree_ok (view v')"
      unfolding vw add_node_def by (rule tree_ok_link [OF f(2) pv nd m cN]) simp
    with st r vw pv m cN k p(4) attr_made show ?thesis by (auto simp: step_post_def fs_ok_def next_ino_eq)
  qed
  ultimately show ?thesis using p p' f(1) by (simp only: handle.simps) (rule fs_mkdir_awp)
qed

lemma unlink_ok:
  assumes "fs_ok v (fs_sb fs)" "ok_request v (Unlink parent name)"
  shows "dwp (fs_disk fs) (handle fs (Unlink parent name)) (step_post v fs (Unlink parent name)) v"
proof -
  let ?p = "ucast parent :: u32" and ?nm = "os_str_or name []"
  let ?m = "dir_map v (inode_at v ?p)"
  note f = fs_okD [OF assms(1)]
  have p: "live_dir_at v ?p" "?nm \<notin> dots" using assms(2) by simp_all
  then have p': "live v ?p" "is_dir_at v ?p" by (simp_all add: live_dir_at_def)
  note pv = view_dir [OF p(1)]
  have "step_post v fs (Unlink parent name) (ReplyError ENOENT, fs) v" if "?m ?nm = None"
    using that assms(1) pv by (intro fs_ok_same) simp_all
  moreover have "step_post v fs (Unlink parent name) (ReplyError EISDIR, fs) v"
    if "?m ?nm = Some (c, ty)" "is_dir_at v c" for c ty
    using that assms(1) pv entry_live [OF f(2) p(1) that(1)] by (intro fs_ok_same) (simp_all add: dir_node_view)
  moreover have "step_post v fs (Unlink parent name) (ReplyOk, fs\<lparr>fs_sb := sb'\<rparr>) v'"
    if m: "?m ?nm = Some (c, ty)" and nd: "\<not> is_dir_at v c" and post: "remove_post v ?p ?nm c v' sb'" for c ty sb' v'
  proof -
    have vw: "view v' = drop_node (view v) ?p ?m ?nm c" and st: "store_ok v' sb'"
      using post by (auto simp: remove_post_def drop_node_def store_step_def)
    have c: "is_file_node (view v) c" using entry_live [OF f(2) p(1) m] nd by (simp add: file_node_view)
    have "tree_ok (view v')"
      unfolding vw drop_node_def by (rule tree_ok_unlink [OF f(2) pv p(2) m c])
    with st vw pv m nd show ?thesis by (simp add: step_post_def fs_ok_def dir_node_view)
  qed
  ultimately show ?thesis
    using p' f(1) entry_live [OF f(2) p(1)] by (simp only: handle.simps) (rule fs_unlink_awp)
qed

lemma rmdir_ok:
  assumes "fs_ok v (fs_sb fs)" "ok_request v (Rmdir parent name)"
  shows "dwp (fs_disk fs) (handle fs (Rmdir parent name)) (step_post v fs (Rmdir parent name)) v"
proof -
  let ?p = "ucast parent :: u32" and ?nm = "os_str_or name []"
  let ?m = "dir_map v (inode_at v ?p)"
  note f = fs_okD [OF assms(1)]
  have p: "live_dir_at v ?p" "?nm \<notin> dots" using assms(2) by simp_all
  then have p': "live v ?p" "is_dir_at v ?p" by (simp_all add: live_dir_at_def)
  note pv = view_dir [OF p(1)]
  have e: "live v c" "?p \<noteq> c" if "?m ?nm = Some (c, ty)" for c ty
    using entry_live [OF f(2) p(1) that] entry_ne [OF f(2) p(1) that p(2)] by simp_all
  have cv: "view v c = Some (Dir (dir_map v (inode_at v c)))" if "?m ?nm = Some (c, ty)" "is_dir_at v c" for c ty
    using view_dir [of v c] e(1) [OF that(1)] that(2) by (simp add: live_dir_at_def)
  have "step_post v fs (Rmdir parent name) (ReplyError ENOENT, fs) v" if "?m ?nm = None"
    using that assms(1) pv by (intro fs_ok_same) simp_all
  moreover have "step_post v fs (Rmdir parent name) (ReplyError ENOTDIR, fs) v"
    if "?m ?nm = Some (c, ty)" "\<not> is_dir_at v c" for c ty
    using that assms(1) pv view_Some [OF e(1) [OF that(1)]] by (intro fs_ok_same) (simp_all add: node_at_def)
  moreover have "step_post v fs (Rmdir parent name) (ReplyError ENOTEMPTY, fs) v"
    if "?m ?nm = Some (c, ty)" "is_dir_at v c" "2 < card (dom (dir_map v (inode_at v c)))" for c ty
  proof -
    have "\<not> dom (dir_map v (inode_at v c)) \<subseteq> dots"
    proof
      assume "dom (dir_map v (inode_at v c)) \<subseteq> dots"
      then have "card (dom (dir_map v (inode_at v c))) \<le> card dots" by (intro card_mono) (simp add: dots_def)
      moreover have "card dots = 2" by (simp add: dots_def ascii_dot ascii_dotdot)
      ultimately show False using that(3) by simp
    qed
    with that assms(1) pv cv [OF that(1,2)] show ?thesis by (intro fs_ok_same) simp_all
  qed
  moreover have "step_post v fs (Rmdir parent name) (ReplyOk, fs\<lparr>fs_sb := sb'\<rparr>) v'"
    if m: "?m ?nm = Some (c, ty)" and d: "is_dir_at v c" "card (dom (dir_map v (inode_at v c))) \<le> 2"
      and post: "remove_post v ?p ?nm c v' sb'" for c ty sb' v'
  proof -
    have vw: "view v' = drop_node (view v) ?p ?m ?nm c" and st: "store_ok v' sb'"
      using post by (auto simp: remove_post_def drop_node_def store_step_def)
    have "dom (dir_map v (inode_at v c)) = dots"
      by (rule two_entries [OF f(2) cv [OF m d(1)] finite_dir_map d(2)])
    moreover have "tree_ok (view v')"
      unfolding vw drop_node_def by (rule tree_ok_rmdir [OF f(2) pv p(2) m cv [OF m d(1)] finite_dir_map d(2)])
    ultimately show ?thesis using st vw pv m cv [OF m d(1)] by (simp add: step_post_def fs_ok_def)
  qed
  ultimately show ?thesis
    using p' f(1) e by (simp only: handle.simps) (rule fs_rmdir_awp, auto)
qed

text \<open>The three outcomes of an admissible \<open>write\<close>.\<close>

lemma write_cases_awp:
  assumes fs: "fs_ok v (fs_sb fs)" "ok_request v (Write ino off data)"
    and none: "data = [] \<Longrightarrow> Q (ReplyWritten 0, fs) v"
    and big: "data \<noteq> [] \<Longrightarrow> 10200 < unat off + length data \<Longrightarrow> Q (ReplyError EFBIG, fs) v"
    and ok: "\<And>sb' v'. data \<noteq> [] \<Longrightarrow> unat off + length data \<le> 10200 \<Longrightarrow>
      write_post 89 v (ucast ino) (unat off) data v' sb' \<Longrightarrow>
      Q (ReplyWritten (of_nat (length data)), fs\<lparr>fs_sb := sb'\<rparr>) v'"
  shows "dwp (fs_disk fs) (handle fs (Write ino off data)) Q v"
proof -
  let ?n = "ucast ino :: u32"
  note f = fs_okD [OF fs(1)]
  have n: "live v ?n" "\<not> is_dir_at v ?n" using fs(2) by (simp_all add: live_file_at_def)
  note l = live_file [OF f(1) n]
  consider "data = []" | "data \<noteq> []" "10200 < unat off + length data" | "data \<noteq> []" "unat off + length data \<le> 10200"
    by linarith
  then show ?thesis
    unfolding handle.simps
  proof cases
    case 1
    with none f(4,5) l(3) show "dwp (fs_disk fs) (fs_write fs ino off data) Q v" by (simp add: fs_write_empty_awp)
  next
    case 2
    with big fs(2) f(4,5) l(3) show "dwp (fs_disk fs) (fs_write fs ino off data) Q v"
      by (intro fs_write_big_awp) simp_all
  next
    case 3
    have "?n \<noteq> 1" using n tree_okD(1) [OF f(2)] by (auto simp: dir_node_view)
    then have "89 \<le> inode_blk ?n" using l(4) by (auto simp: valid_ino_def inode_blk_def)
    with 3 ok fs(2) l(1,3) show "dwp (fs_disk fs) (fs_write fs ino off data) Q v"
      by (intro fs_write_ok_awp [where L = 89]) auto
  qed
qed

lemma write_ok:
  assumes "fs_ok v (fs_sb fs)" "ok_request v (Write ino off data)"
  shows "dwp (fs_disk fs) (handle fs (Write ino off data)) (step_post v fs (Write ino off data)) v"
proof (rule write_cases_awp [OF assms])
  let ?n = "ucast ino :: u32"
  note f = fs_okD [OF assms(1)]
  have n: "live_file_at v ?n" using assms(2) by simp
  then have n': "live v ?n" "\<not> is_dir_at v ?n" by (simp_all add: live_file_at_def)
  note vf = view_file [OF n]
  show "step_post v fs (Write ino off data) (ReplyWritten 0, fs) v" if "data = []"
    using that assms(1) vf by (intro fs_ok_same) simp_all
  show "step_post v fs (Write ino off data) (ReplyError EFBIG, fs) v" if "data \<noteq> []" "10200 < unat off + length data"
    using that assms(1) vf by (intro fs_ok_same) simp_all
  show "step_post v fs (Write ino off data) (ReplyWritten (of_nat (length data)), fs\<lparr>fs_sb := sb'\<rparr>) v'"
    if "data \<noteq> []" "unat off + length data \<le> 10200" "write_post 89 v ?n (unat off) data v' sb'" for sb' v'
  proof -
    note st = write_step [OF f(1) n' _ that(3)]
    have "tree_ok (view v')" using tree_ok_write [OF f(2) vf] st(2) by simp
    with that st vf store_stepD(1) [OF st(1)] show ?thesis by (auto simp: step_post_def fs_ok_def)
  qed
qed

lemmas handlers_ok = getattr_ok readdir_ok setattr_ok lookup_ok open_ok read_ok write_ok create_ok mkdir_ok unlink_ok rmdir_ok

lemma handle_awp:
  assumes "fs_ok v (fs_sb fs)" "ok_request v req"
  shows "dwp (fs_disk fs) (handle fs req) (step_post v fs req) v"
  by (cases req) (use handlers_ok assms in \<open>simp_all del: handle.simps ok_request.simps\<close>)

text \<open>
  The file system that formatting makes is consistent when no inode of an older one is still in
  use: the root directory, and nothing else.
\<close>

lemma fresh_live:
  assumes "formatted v sb" "only_root v"
  shows "live v n \<longleftrightarrow> n = 1"
proof -
  have "valid_ino 1" by (simp add: valid_ino_def)
  with assms show ?thesis by (auto simp: live_def formatted_def only_root_def)
qed

lemma fresh_fs_ok:
  assumes f: "formatted v sb" and z: "only_root v"
  shows "fs_ok v sb" "view v = [1 \<mapsto> Dir [ascii ''.'' \<mapsto> (1, 2), ascii ''..'' \<mapsto> (1, 2)]]"
proof -
  note l = fresh_live [OF f z]
  have d: "is_dir_at v 1" using f by (simp add: formatted_def is_dir_at_def S_IFDIR_def)
  have inv: "alloc_inv v sb" "dir_inv v sb (inode_at v 1)" and al: "\<And>x. x < 20480 \<Longrightarrow> allocd v x \<longleftrightarrow> x \<le> 31"
    and m: "dir_map v (inode_at v 1) = [ascii ''.'' \<mapsto> (1, 2), ascii ''..'' \<mapsto> (1, 2)]"
    using f by (auto simp: formatted_def)
  show vw: "view v = [1 \<mapsto> Dir [ascii ''.'' \<mapsto> (1, 2), ascii ''..'' \<mapsto> (1, 2)]]"
    using l d m by (auto simp: view_def node_at_def fun_eq_iff)
  have "31 \<in> owned v 1"
  proof -
    have wf: "dir_wf v (inode_at v 1)" using inv(2) by (simp add: dir_inv_def)
    have "length (dir_blocks (inode_at v 1)) = 1" using f length_dir_blocks [OF wf] by (simp add: formatted_def)
    then obtain b where b: "dir_blocks (inode_at v 1) = [b]" by (cases "dir_blocks (inode_at v 1)") auto
    with dir_inv_blocks(4) [OF inv(2)] al have "unat b = 31" by force
    with b d show ?thesis by (simp add: owned_def)
  qed
  then have "store_ok v sb" using inv al l d by (fastforce simp: store_ok_def low_use_def node_inv_def)
  moreover have "tree_ok (view v)"
  proof -
    have e: "\<not> edge [1 \<mapsto> Dir [ascii ''.'' \<mapsto> (1, 2), ascii ''..'' \<mapsto> (1, 2)]] n nm c ty" for n nm c ty by (auto simp: edge_def vw dots_def split: if_splits)
    show ?thesis
      by (rule tree_okI) (use e in \<open>auto simp: is_dir_node_def parent_ok_def ranked_def vw split: if_splits\<close>)
  qed
  ultimately show "fs_ok v sb" by (simp add: fs_ok_def)
qed

end
