(* ===== verification/Attributes.thy ===== *)
theory Attributes
  imports Requests
begin

text \<open>
  The attributes of the live inodes beside the tree: the mode, which \<open>setattr\<close> changes and \<open>open\<close>
  checks, the owner, the link count, the size and the number of blocks. \<open>meta_step\<close> says for each
  request what it may do to them and what its reply reports; together with \<open>abs_step\<close> it fixes
  the reply of a request up to times.
\<close>

section \<open>The abstract specification\<close>

type_synonym metas = "u32 \<Rightarrow> meta option"

definition meta_map :: "volume \<Rightarrow> metas" where
  "meta_map v n = (if live v n then Some (meta_of (inode_at v n)) else None)"

text \<open>The attributes that a reply carries are those of \<open>q\<close>.\<close>

definition attr_meta :: "meta \<Rightarrow> FileAttr \<Rightarrow> bool" where
  "attr_meta q a \<longleftrightarrow> attr_perm a = m_mode q \<and> attr_uid a = ucast (m_uid q) \<and> attr_gid a = ucast (m_gid q) \<and>
     attr_nlink a = ucast (m_nlink q) \<and> attr_size a = ucast (m_size q) \<and> attr_blocks a = ucast (m_blocks q) \<and>
     attr_blksize a = 512"

text \<open>
  A directory \<open>p\<close> of a tree \<open>V\<close> that is another one in \<open>V'\<close> has a new entry. A new node of a tree gets
  the attributes \<open>q\<close>. The others keep theirs.
\<close>

definition names_in :: "tree \<Rightarrow> u32 \<Rightarrow> nat" where
  "names_in V p = (case V p of Some (Dir m) \<Rightarrow> card (dom m) | _ \<Rightarrow> 0)"

definition entered :: "tree \<Rightarrow> tree \<Rightarrow> u32 \<Rightarrow> metas \<Rightarrow> metas" where
  "entered V V' p P = (if V' p = V p then P else P(p := map_option (enter_meta (names_in V p)) (P p)))"

definition given :: "tree \<Rightarrow> metas \<Rightarrow> meta \<Rightarrow> metas" where
  "given V P q n = (if V n \<noteq> None \<and> P n = None then Some q else P n)"

definition chmod_meta :: "meta \<Rightarrow> u32 option \<Rightarrow> meta" where
  "chmod_meta q m = (case m of Some m \<Rightarrow> q\<lparr>m_mode := (m_mode q AND 0xF000) OR ucast (m AND 511)\<rparr> | None \<Rightarrow> q)"

definition file_meta :: meta where
  "file_meta = \<lparr>m_mode = 0x81A4, m_uid = 1000, m_gid = 1000, m_nlink = 1, m_size = 0, m_blocks = 0\<rparr>"

definition dir_meta :: meta where
  "dir_meta = \<lparr>m_mode = 0x41ED, m_uid = 1000, m_gid = 1000, m_nlink = 2, m_size = 510, m_blocks = 1\<rparr>"

fun meta_step :: "tree \<Rightarrow> metas \<Rightarrow> request \<Rightarrow> reply \<Rightarrow> tree \<Rightarrow> metas \<Rightarrow> bool" where
  "meta_step V P (Getattr ino) r V' P' \<longleftrightarrow> P' = P \<and>
     (\<forall>a. r = ReplyAttr 1 a \<longrightarrow> (\<exists>q. P (ucast ino) = Some q \<and> attr_meta q a))"
| "meta_step V P (Readdir ino offset add) r V' P' \<longleftrightarrow> P' = P"
| "meta_step V P (Setattr ino m) r V' P' \<longleftrightarrow> (\<exists>q a. P (ucast ino) = Some q \<and> r = ReplyAttr 1 a \<and>
     attr_meta (chmod_meta q m) a \<and> P' = P(ucast ino \<mapsto> chmod_meta q m))"
| "meta_step V P (Lookup parent name) r V' P' \<longleftrightarrow> P' = P \<and>
     (\<forall>a. r = ReplyEntry 1 a 0 \<longrightarrow> (\<exists>q. P (ucast (attr_ino a)) = Some q \<and> attr_meta q a))"
| "meta_step V P (Open u g ino flags) r V' P' \<longleftrightarrow> P' = P \<and> (\<exists>q. P (ucast ino) = Some q \<and>
     r = (if (flags AND 1 \<noteq> 0 \<or> flags AND 2 \<noteq> 0) \<and> m_mode q AND 146 = 0 then ReplyError EACCES else ReplyOpened ino 0))"
| "meta_step V P (Read ino offset sz) r V' P' \<longleftrightarrow> P' = P"
| "meta_step V P (Write ino offset data) r V' P' \<longleftrightarrow> (if data = [] \<or> r = ReplyError EFBIG then P' = P
     else (\<exists>q. P (ucast ino) = Some q \<and> P' = P(ucast ino \<mapsto> write_meta (unat offset + length data) q)))"
| "meta_step V P (Create parent name) r V' P' \<longleftrightarrow> P' = given V' (entered V V' (ucast parent) P) file_meta \<and>
     (\<forall>a fh. r = ReplyCreated 1 a 0 fh 0 \<longrightarrow> attr_meta file_meta a)"
| "meta_step V P (Mkdir parent name) r V' P' \<longleftrightarrow> P' = given V' (entered V V' (ucast parent) P) dir_meta \<and>
     (\<forall>a. r = ReplyEntry 1 a 0 \<longrightarrow> attr_meta dir_meta a)"
| "meta_step V P (Unlink parent name) r V' P' \<longleftrightarrow> P' = P |` dom V'"
| "meta_step V P (Rmdir parent name) r V' P' \<longleftrightarrow> P' = P |` dom V'"

definition meta_post :: "volume \<Rightarrow> request \<Rightarrow> reply \<times> 's SimpleFS \<Rightarrow> volume \<Rightarrow> bool" where
  "meta_post v req = (\<lambda>(r, fs') v'. meta_step (view v) (meta_map v) req r (view v') (meta_map v'))"

section \<open>Lemmas: the attributes under the changes of the handlers\<close>

lemma attr_meta_inode [simp]: "attr_meta (meta_of i) (inode_to_attr i)"
  by (simp add: attr_meta_def meta_of_def inode_to_attr_def)

lemma meta_of_new: "meta_of (created_inode n t) = file_meta" "meta_of (made_inode n b t) = dir_meta"
  by (simp_all add: meta_of_def file_meta_def dir_meta_def created_inode_def made_inode_def)

lemma meta_of_chmod: "meta_of (chmod_of i m t) = chmod_meta (meta_of i) m"
  by (cases m) (simp_all add: meta_of_def chmod_of_def chmod_meta_def)

lemma attr_meta_new:
  "attr_meta file_meta (inode_to_attr (created_inode n t))" "attr_meta dir_meta (inode_to_attr (made_inode n b t))"
  "attr_meta (chmod_meta (meta_of i) m) (inode_to_attr (chmod_of i m t))"
  using attr_meta_inode [of "created_inode n t"] attr_meta_inode [of "made_inode n b t"] attr_meta_inode [of "chmod_of i m t"]
  by (simp_all only: meta_of_new meta_of_chmod)

lemma meta_map_dom: "dom (meta_map v) = dom (view v)"
  by (auto simp: meta_map_def view_def split: if_splits)

lemma meta_map_None: "meta_map v n = None \<longleftrightarrow> view v n = None"
  using meta_map_dom [of v] by (metis domIff)

lemma meta_map_live [simp]: "live v n \<Longrightarrow> meta_map v n = Some (meta_of (inode_at v n))"
  by (simp add: meta_map_def)

lemma meta_map_same:
  "meta_map v |` dom (view v) = meta_map v" "given (view v) (entered (view v) (view v) p (meta_map v)) q = meta_map v"
  using meta_map_None [of v] by (auto simp: restrict_map_def given_def entered_def fun_eq_iff domIff eq_commute [of None])

lemma meta_frame:
  assumes "store_step v N v' sb'" "n \<notin> N"
  shows "meta_map v' n = meta_map v n"
  using assms store_stepD(2) [OF assms(1), of n] by (cases "valid_ino n") (auto simp: meta_map_def live_def)

text \<open>An operation on a directory \<open>p\<close> that brings an inode \<open>c\<close> into use, or takes it out of use.\<close>

lemma metas_given:
  assumes st: "store_step v {p, c} v' sb'" and p: "live v p" "view v' p \<noteq> None" "meta_of (inode_at v' p) =
      (if view v' p = view v p then meta_of (inode_at v p) else enter_meta (names_in (view v) p) (meta_of (inode_at v p)))"
    and c: "\<not> live v c" "meta_of (inode_at v' c) = q" "view v' c \<noteq> None"
  shows "meta_map v' = given (view v') (entered (view v) (view v') p (meta_map v)) q"
proof
  fix n
  have lv: "live v' p" "live v' c" using p(2) c(3) by (auto simp: view_def split: if_splits)
  consider "n = p" | "n = c" "n \<noteq> p" | "n \<notin> {p, c}" by auto
  then show "meta_map v' n = given (view v') (entered (view v) (view v') p (meta_map v)) q n"
  proof cases
    case 3
    with meta_frame [OF st 3] meta_map_None [of v' n] show ?thesis by (auto simp: given_def entered_def)
  qed (use lv p c in \<open>simp_all add: given_def entered_def meta_map_def\<close>)
qed

lemma parent_meta:
  assumes p: "live_dir_at v p" and nm: "dir_map v (inode_at v p) nm = None"
    and v': "view v' p = Some (Dir ((dir_map v (inode_at v p))(nm \<mapsto> x)))"
      "meta_of (inode_at v' p) = enter_meta (card (dom (dir_map v (inode_at v p)))) (meta_of (inode_at v p))"
  shows "meta_of (inode_at v' p) =
      (if view v' p = view v p then meta_of (inode_at v p) else enter_meta (names_in (view v) p) (meta_of (inode_at v p)))"
proof -
  have "view v' p \<noteq> view v p" using nm by (auto simp: view_dir [OF p] v'(1) dest: fun_cong [of _ _ nm])
  with v'(2) show ?thesis by (simp add: names_in_def view_dir [OF p])
qed

lemma metas_dropped:
  assumes "remove_post v p nm c v' sb'" "live v p"
  shows "meta_map v' = meta_map v |` dom (view v')"
proof
  fix n
  have st: "store_step v {p, c} v' sb'" and m: "meta_of (inode_at v' p) = meta_of (inode_at v p)"
    and vw: "view v' = (view v)(c := None, p \<mapsto> Dir ((dir_map v (inode_at v p))(nm := None)))"
    using assms(1) by (auto simp: remove_post_def)
  have lv: "live v' p" using vw by (auto simp: view_def fun_eq_iff split: if_splits dest: spec [of _ p])
  consider "n = p" | "n = c" "n \<noteq> p" | "n \<notin> {p, c}" by auto
  then show "meta_map v' n = (meta_map v |` dom (view v')) n"
  proof cases
    case 1
    with lv vw m assms(2) show ?thesis by (simp add: restrict_map_def)
  next
    case 2
    with vw meta_map_None [of v' n] show ?thesis by (simp add: restrict_map_def domIff)
  next
    case 3
    with meta_frame [OF st 3] meta_map_None [of v' n] show ?thesis by (auto simp: restrict_map_def)
  qed
qed

section \<open>Lemmas: the handlers meet the specification\<close>

lemma getattr_meta:
  assumes "fs_ok v (fs_sb fs)" "ok_request v (Getattr ino)"
  shows "dwp (fs_disk fs) (handle fs (Getattr ino)) (meta_post v (Getattr ino)) v"
  using assms fs_okD [OF assms(1)] valid_ino_blk(1)
  by (simp only: handle.simps) (intro fs_getattr_awp, auto simp: meta_post_def meta_map_def live_def)

lemma readdir_meta:
  assumes "fs_ok v (fs_sb fs)" "ok_request v (Readdir ino off add)"
  shows "dwp (fs_disk fs) (handle fs (Readdir ino off add)) (meta_post v (Readdir ino off add)) v"
  unfolding handle.simps using assms
  by (intro awp_bind readdir_awp fs_okD(1)) (auto simp: meta_post_def intro: awp_return)

lemma setattr_meta:
  assumes "fs_ok v (fs_sb fs)" "ok_request v (Setattr ino m)"
  shows "dwp (fs_disk fs) (handle fs (Setattr ino m)) (meta_post v (Setattr ino m)) v"
proof -
  let ?n = "ucast ino :: u32"
  note f = fs_okD [OF assms(1)]
  have n: "live v ?n" using assms(2) by simp
  then have nv: "on_disk ?n" using valid_ino_blk(1) by (simp add: live_def)
  have "meta_post v (Setattr ino m) (ReplyAttr 1 (inode_to_attr (chmod_of (inode_at v ?n) m t)), fs)
      (put_inode v (chmod_of (inode_at v ?n) m t))" for t
  proof -
    let ?v' = "put_inode v (chmod_of (inode_at v ?n) m t)"
    note st = chmod_step [OF f(1) n, of m t]
    have "inode_no (chmod_of (inode_at v ?n) m t) = ?n" "inode_wf (chmod_of (inode_at v ?n) m t)"
      using inode_at_decode [OF f(4) nv] by (simp_all add: chmod_of_def inode_wf_def)
    then have at: "inode_at ?v' ?n = chmod_of (inode_at v ?n) m t"
      using inode_at_put_inode [OF f(4) _ _ nv] nv by simp
    then have "live ?v' ?n" using n by (simp add: live_def chmod_of_def)
    then have "meta_map ?v' ?n = Some (chmod_meta (meta_of (inode_at v ?n)) m)"
      using at by (simp add: meta_of_chmod)
    then have "meta_map ?v' = (meta_map v)(?n \<mapsto> chmod_meta (meta_of (inode_at v ?n)) m)"
      using meta_frame [OF st(1)] by (auto simp: fun_eq_iff)
    with n show ?thesis by (simp add: meta_post_def attr_meta_new)
  qed
  then show ?thesis using f(4,5) nv by (simp only: handle.simps) (rule fs_setattr_awp)
qed

lemma lookup_meta:
  assumes "fs_ok v (fs_sb fs)" "ok_request v (Lookup parent name)"
  shows "dwp (fs_disk fs) (handle fs (Lookup parent name)) (meta_post v (Lookup parent name)) v"
proof -
  let ?p = "ucast parent :: u32" and ?nm = "os_str_or name []"
  note f = fs_okD [OF assms(1)]
  have p: "live_dir_at v ?p" using assms(2) by simp
  then have p': "live v ?p" "is_dir_at v ?p" by (simp_all add: live_dir_at_def)
  note l = live_dir [OF f(1) p']
  have "on_disk c \<and> meta_post v (Lookup parent name) (ReplyEntry 1 (inode_to_attr (inode_at v c)) 0, fs) v"
    if e: "dir_map v (inode_at v ?p) ?nm = Some (c, ty)" for c ty
  proof -
    have c: "live v c" by (rule entry_live [OF f(2) p e])
    then have od: "on_disk c" by (intro valid_ino_blk(1)) (simp add: live_def)
    with c inode_at_decode(3) [OF f(4) od] have "meta_map v (ucast (attr_ino (inode_to_attr (inode_at v c)))) = Some (meta_of (inode_at v c))"
      by (simp add: inode_to_attr_def ucast_up_down)
    with od show ?thesis by (auto simp: meta_post_def)
  qed
  with l(1,3) show ?thesis
    by (simp only: handle.simps) (intro fs_lookup_awp, auto simp: meta_post_def)
qed

lemma open_meta:
  assumes "fs_ok v (fs_sb fs)" "ok_request v (Open u g ino flags)"
  shows "dwp (fs_disk fs) (handle fs (Open u g ino flags)) (meta_post v (Open u g ino flags)) v"
  using assms fs_okD [OF assms(1)] valid_ino_blk(1) [of "ucast ino"]
  by (simp only: handle.simps) (intro fs_open_awp, auto simp: meta_post_def live_def meta_of_def)

lemma read_meta:
  assumes "fs_ok v (fs_sb fs)" "ok_request v (Read ino off sz)"
  shows "dwp (fs_disk fs) (handle fs (Read ino off sz)) (meta_post v (Read ino off sz)) v"
  using assms live_file(1,3) [OF fs_okD(1) [OF assms(1)], of "ucast ino"]
  by (simp only: handle.simps) (rule fs_read_awp, auto simp: live_file_at_def meta_post_def)

lemma write_meta:
  assumes "fs_ok v (fs_sb fs)" "ok_request v (Write ino off data)"
  shows "dwp (fs_disk fs) (handle fs (Write ino off data)) (meta_post v (Write ino off data)) v"
proof (rule write_cases_awp [OF assms])
  let ?n = "ucast ino :: u32"
  have n: "live v ?n" "\<not> is_dir_at v ?n" using assms(2) by (simp_all add: live_file_at_def)
  show "meta_post v (Write ino off data) (ReplyWritten (of_nat (length data)), fs\<lparr>fs_sb := sb'\<rparr>) v'"
    if data: "data \<noteq> []" and w: "write_post 89 v ?n (unat off) data v' sb'" for sb' v'
  proof -
    have st: "store_step v {?n} v' sb'" by (rule write_step(1) [OF fs_okD(1) [OF assms(1)] n _ w]) simp
    have m: "meta_of (inode_at v' ?n) = write_meta (unat off + length data) (meta_of (inode_at v ?n))"
      using w by (simp add: write_post_def)
    have "view v' ?n \<noteq> None" using write_step(2) [OF fs_okD(1) [OF assms(1)] n _ w] by simp
    then have "meta_map v' ?n = Some (write_meta (unat off + length data) (meta_of (inode_at v ?n)))"
      using m by (auto simp: view_def split: if_splits)
    with meta_frame [OF st] n(1)
    have "meta_map v ?n = Some (meta_of (inode_at v ?n)) \<and>
        meta_map v' = (meta_map v)(?n \<mapsto> write_meta (unat off + length data) (meta_of (inode_at v ?n)))"
      by (auto simp: fun_eq_iff)
    with data show ?thesis by (simp add: meta_post_def)
  qed
qed (simp_all add: meta_post_def)

lemma create_meta:
  assumes "fs_ok v (fs_sb fs)" "ok_request v (Create parent name)"
  shows "dwp (fs_disk fs) (handle fs (Create parent name)) (meta_post v (Create parent name)) v"
  unfolding handle.simps
proof (rule fs_create_awp)
  let ?p = "ucast parent :: u32"
  let ?nm = "os_str_or name (ascii ''unknown'')"
  have pd: "live_dir_at v ?p" using assms(2) by simp
  then have p: "live v ?p" by (simp add: live_dir_at_def)
  show "meta_post v (Create parent name) (r, fs\<lparr>fs_sb := sb'\<rparr>) v'"
    if nm: "dir_map v (inode_at v ?p) ?nm = None" and k: "first_free v 1000 2000 = Some k"
      and post: "create_post v ?p ?nm (of_nat k) r v' sb'" for k r sb' v'
  proof -
    have c: "\<not> live v (of_nat k)" by (rule first_free_fresh(2) [OF k]) simp
    have pc: "?p \<noteq> of_nat k" using p c by auto
    have pm: "meta_of (inode_at v' ?p) = (if view v' ?p = view v ?p then meta_of (inode_at v ?p)
        else enter_meta (names_in (view v) ?p) (meta_of (inode_at v ?p)))"
    proof (cases "r = ReplyError ENOSPC")
      case True
      with post pc show ?thesis by (auto simp: create_post_def)
    next
      case False
      with post show ?thesis by (intro parent_meta [OF pd nm]) (auto simp: create_post_def)
    qed
    have "meta_map v' = given (view v') (entered (view v) (view v') ?p (meta_map v)) file_meta"
      using post p c by (intro metas_given [where p = ?p and c = "of_nat k"] pm)
        (auto simp: create_post_def meta_of_new view_Some split: if_splits)
    with post show ?thesis by (auto simp: meta_post_def create_post_def attr_meta_new split: if_splits)
  qed
qed (use assms fs_okD(1) [OF assms(1)] meta_map_same in \<open>simp_all add: live_dir_at_def meta_post_def\<close>)

lemma mkdir_meta:
  assumes "fs_ok v (fs_sb fs)" "ok_request v (Mkdir parent name)"
  shows "dwp (fs_disk fs) (handle fs (Mkdir parent name)) (meta_post v (Mkdir parent name)) v"
  unfolding handle.simps
proof (rule fs_mkdir_awp)
  let ?p = "ucast parent :: u32"
  let ?nm = "os_str_or name (ascii ''unknown'')"
  have pd: "live_dir_at v ?p" using assms(2) by simp
  then have p: "live v ?p" by (simp add: live_dir_at_def)
  show "meta_post v (Mkdir parent name) (r, fs\<lparr>fs_sb := sb'\<rparr>) v'"
    if nm: "dir_map v (inode_at v ?p) ?nm = None" and k: "first_free v 500 900 = Some k"
      and post: "mkdir_post v ?p ?nm (of_nat k) r v' sb'" for k r sb' v'
  proof -
    have c: "\<not> live v (of_nat k)" by (rule first_free_fresh(2) [OF k]) simp
    have pm: "meta_of (inode_at v' ?p) = (if view v' ?p = view v ?p then meta_of (inode_at v ?p)
        else enter_meta (names_in (view v) ?p) (meta_of (inode_at v ?p)))"
      using post by (intro parent_meta [OF pd nm]) (auto simp: mkdir_post_def)
    have "meta_map v' = given (view v') (entered (view v) (view v') ?p (meta_map v)) dir_meta"
      using post p c by (intro metas_given [where p = ?p and c = "of_nat k"] pm) (auto simp: mkdir_post_def meta_of_new)
    with post show ?thesis by (auto simp: meta_post_def mkdir_post_def attr_meta_new)
  qed
qed (use assms fs_okD(1) [OF assms(1)] meta_map_same in \<open>simp_all add: live_dir_at_def meta_post_def\<close>)

lemma unlink_meta:
  assumes "fs_ok v (fs_sb fs)" "ok_request v (Unlink parent name)"
  shows "dwp (fs_disk fs) (handle fs (Unlink parent name)) (meta_post v (Unlink parent name)) v"
  unfolding handle.simps
  by (rule fs_unlink_awp)
     (use assms fs_okD [OF assms(1)] entry_live metas_dropped meta_map_same in \<open>auto simp: live_dir_at_def meta_post_def\<close>)

lemma rmdir_meta:
  assumes "fs_ok v (fs_sb fs)" "ok_request v (Rmdir parent name)"
  shows "dwp (fs_disk fs) (handle fs (Rmdir parent name)) (meta_post v (Rmdir parent name)) v"
  unfolding handle.simps
  by (rule fs_rmdir_awp)
     (use assms fs_okD [OF assms(1)] entry_live entry_ne metas_dropped meta_map_same in \<open>auto simp: live_dir_at_def meta_post_def\<close>)

lemmas handlers_meta = getattr_meta readdir_meta setattr_meta lookup_meta open_meta read_meta write_meta create_meta mkdir_meta
  unlink_meta rmdir_meta

lemma handle_meta:
  assumes "fs_ok v (fs_sb fs)" "ok_request v req"
  shows "dwp (fs_disk fs) (handle fs req) (meta_post v req) v"
  by (cases req) (use handlers_meta assms in \<open>simp_all del: handle.simps ok_request.simps\<close>)

end
