(* ===== verification/Runs.thy ===== *)
theory Runs
  imports Main
begin

text \<open>
  Runs of a labelled step relation, and what a client of one may rely on: an invariant that every
  step keeps, and an abstraction under which each step is a step of a specification. The file
  system's requests are the steps that these interfaces are made for.
\<close>

primrec is_run :: "('s \<Rightarrow> 'l \<Rightarrow> 's \<Rightarrow> bool) \<Rightarrow> 's \<Rightarrow> 'l list \<Rightarrow> 's \<Rightarrow> bool" where
  "is_run step s [] t \<longleftrightarrow> t = s"
| "is_run step s (l # ls) t \<longleftrightarrow> (\<exists>u. step s l u \<and> is_run step u ls t)"

lemma is_run_append: "is_run step s (ls @ ms) t \<longleftrightarrow> (\<exists>u. is_run step s ls u \<and> is_run step u ms t)"
  by (induction ls arbitrary: s) auto

lemma is_run_closed:
  assumes "\<And>s l t. P s \<Longrightarrow> step s l t \<Longrightarrow> P t" "is_run step s ls t" "P s"
  shows "P t"
  using assms(2,3) by (induction ls arbitrary: s) (auto intro: assms(1))

section \<open>Interface: steps that keep an invariant\<close>

locale stable_steps =
  fixes step :: "'s \<Rightarrow> 'l \<Rightarrow> 's \<Rightarrow> bool"
    and inv :: "'s \<Rightarrow> bool"
  assumes inv_step: "inv s \<Longrightarrow> step s l t \<Longrightarrow> inv t"
begin

lemma run_inv: "inv s \<Longrightarrow> is_run step s ls t \<Longrightarrow> inv t"
  using is_run_closed [of inv step] inv_step by blast

end

section \<open>Interface: steps that refine a specification\<close>

locale simulation = stable_steps +
  fixes abs :: "'s \<Rightarrow> 'a"
    and spec :: "'a \<Rightarrow> 'l \<Rightarrow> 'a \<Rightarrow> bool"
  assumes sim_step: "inv s \<Longrightarrow> step s l t \<Longrightarrow> spec (abs s) l (abs t)"
begin

lemma run_sim: "inv s \<Longrightarrow> is_run step s ls t \<Longrightarrow> is_run spec (abs s) ls (abs t)"
proof (induction ls arbitrary: s)
  case (Cons l ls)
  then obtain u where u: "step s l u" "is_run step u ls t" by auto
  with Cons.prems inv_step have "inv u" by blast
  from Cons.IH [OF this u(2)] sim_step [OF Cons.prems(1) u(1)] show ?case by auto
qed simp

end

section \<open>Interface: steps fixed by their input\<close>

text \<open>
  The input part \<open>inp\<close> of a label determines the next state, and the label itself up to a relation
  \<open>same\<close> that depends on the state; then the inputs of a run determine its end and, up to \<open>same\<close> in the
  state that is reached before each of them, all its labels.
\<close>

locale det_steps =
  fixes step :: "'s \<Rightarrow> 'l \<Rightarrow> 's \<Rightarrow> bool"
    and inp :: "'l \<Rightarrow> 'i"
    and same :: "'s \<Rightarrow> 'l \<Rightarrow> 'l \<Rightarrow> bool"
  assumes det: "step s l t \<Longrightarrow> step s k u \<Longrightarrow> inp l = inp k \<Longrightarrow> t = u \<and> same s l k"
begin

lemma run_det: "is_run step s ls t \<Longrightarrow> is_run step s ks u \<Longrightarrow> map inp ls = map inp ks \<Longrightarrow> t = u"
proof (induction ls arbitrary: s ks)
  case (Cons l ls)
  then obtain k ks' where ks: "ks = k # ks'" "inp l = inp k" "map inp ls = map inp ks'" by (cases ks) auto
  with Cons.prems obtain t1 u1 where s: "step s l t1" "is_run step t1 ls t" "step s k u1" "is_run step u1 ks' u" by auto
  from det [OF s(1,3) ks(2)] have "t1 = u1" by simp
  with Cons.IH [OF s(2)] s(4) ks show ?case by auto
qed simp

lemma run_same:
  assumes "is_run step s (ls @ l # ls') t" "is_run step s (ks @ k # ks') u" "map inp ls = map inp ks" "inp l = inp k"
    and "is_run step s ls w"
  shows "same w l k"
proof -
  obtain w1 t1 w2 u1 where w: "is_run step s ls w1" "step w1 l t1" "is_run step s ks w2" "step w2 k u1"
    using assms(1,2) by (auto simp: is_run_append)
  with run_det assms(3,5) have "w1 = w" "w2 = w" by blast+
  with det w(2,4) assms(4) show ?thesis by blast
qed

end

end
