(* ===== verification/Server.thy ===== *)
theory Server
  imports Attributes Runs
begin

text \<open>
  The server: runs of admissible requests and restarts from a formatted disk, their invariant, and
  the simulation by the abstract specification.
\<close>

section \<open>Runs\<close>

text \<open>
  A step of the server: one admissible request at a time, as the handlers take the file system by
  mutable reference. The state is the file system and that of the host.
\<close>

inductive serves :: "'s SimpleFS \<times> 's \<Rightarrow> request \<Rightarrow> reply \<Rightarrow> 's SimpleFS \<times> 's \<Rightarrow> bool" where
  request: "ok_request (blocks (fs_disk fs) s) req \<Longrightarrow> handle fs req s = Some ((r, fs'), s') \<Longrightarrow>
    serves (fs, s) req r (fs', s')"

inductive_simps serves_iff: "serves (fs, s) req r (fs', s')"
inductive_cases servesE [elim]: "serves (fs, s) req r (fs', s')"

text \<open>
  A run starts on a formatted image on which no inode but the root is in use (a new image, or an
  old one whose inodes were all removed) and is continued by requests, or by a restart: another process
  mounts a file that holds exactly the bytes the last one left. The states of the host between
  the two are not constrained.
\<close>

inductive reach :: "'s SimpleFS \<times> 's \<Rightarrow> bool" where
  start: "disk_ok (fs_disk fs) s \<Longrightarrow> formatted (blocks (fs_disk fs) s) (fs_sb fs) \<Longrightarrow>
    only_root (blocks (fs_disk fs) s) \<Longrightarrow> reach (fs, s)"
| serve: "reach (fs, s) \<Longrightarrow> serves (fs, s) req r (fs', s') \<Longrightarrow> reach (fs', s')"
| restart: "reach (fs, s) \<Longrightarrow> disk_image (fs_disk fs) s = Some c \<Longrightarrow> opens_image h path s1 fd c \<Longrightarrow>
    fs_mount h path s1 = Some (fs', s') \<Longrightarrow> reach (fs', s')"

definition state_ok :: "'s SimpleFS \<times> 's \<Rightarrow> bool" where
  "state_ok = (\<lambda>(fs, s). disk_ok (fs_disk fs) s \<and> fs_ok (blocks (fs_disk fs) s) (fs_sb fs))"

text \<open>
  The steps of the specification, on a tree with the attributes of its nodes, with a request and its
  reply as label; and the abstraction of a state of the server.
\<close>

type_synonym spec_state = "tree \<times> metas"

definition spec_step :: "spec_state \<Rightarrow> request \<times> reply \<Rightarrow> spec_state \<Rightarrow> bool" where
  "spec_step a l a' \<longleftrightarrow> abs_step (fst a) (fst l) (snd l) (fst a') \<and> meta_step (fst a) (snd a) (fst l) (snd l) (fst a') (snd a')"

definition abs_of :: "'s SimpleFS \<times> 's \<Rightarrow> spec_state" where
  "abs_of = (\<lambda>(fs, s). (view (blocks (fs_disk fs) s), meta_map (blocks (fs_disk fs) s)))"

definition served :: "'s SimpleFS \<times> 's \<Rightarrow> request \<times> reply \<Rightarrow> 's SimpleFS \<times> 's \<Rightarrow> bool" where
  "served st l st' \<longleftrightarrow> serves st (fst l) (snd l) st'"

lemma serves_ok:
  assumes "state_ok (fs, s)" "serves (fs, s) req r (fs', s')"
  shows "state_ok (fs', s')" "abs_step (view (blocks (fs_disk fs) s)) req r (view (blocks (fs_disk fs') s'))"
    "spec_step (abs_of (fs, s)) (req, r) (abs_of (fs', s'))"
proof -
  let ?v = "blocks (fs_disk fs) s"
  have ok: "disk_ok (fs_disk fs) s" "fs_ok ?v (fs_sb fs)" using assms(1) by (auto simp: state_ok_def)
  from assms(2) have req: "ok_request ?v req" and run: "handle fs req s = Some ((r, fs'), s')" by auto
  from dwp_run [OF awp_conj [OF handle_awp [OF ok(2) req] handle_meta [OF ok(2) req]] ok(1)] run
  show "state_ok (fs', s')" "abs_step (view ?v) req r (view (blocks (fs_disk fs') s'))"
    "spec_step (abs_of (fs, s)) (req, r) (abs_of (fs', s'))"
    by (auto simp: state_ok_def step_post_def meta_post_def spec_step_def abs_of_def)
qed

lemma serves_ex:
  assumes "state_ok (fs, s)" "ok_request (blocks (fs_disk fs) s) req"
  obtains r fs' s' where "serves (fs, s) req r (fs', s')" "fs_disk fs' = fs_disk fs"
proof -
  have ok: "disk_ok (fs_disk fs) s" "fs_ok (blocks (fs_disk fs) s) (fs_sb fs)" using assms(1) by (auto simp: state_ok_def)
  from dwp_run [OF handle_awp [OF ok(2) assms(2)] ok(1)] obtain r fs' s' where
    "handle fs req s = Some ((r, fs'), s')" "fs_disk fs' = fs_disk fs" by (auto simp: step_post_def)
  with that assms(2) show ?thesis by (blast intro: serves.request)
qed

interpretation srv: simulation served state_ok abs_of spec_step
proof
  fix st :: "'s SimpleFS \<times> 's" and l st'
  assume "state_ok st" "served st l st'"
  then show "state_ok st'" "spec_step (abs_of st) l (abs_of st')"
    using serves_ok [of "fst st" "snd st" "fst l" "snd l" "fst st'" "snd st'"] by (simp_all add: served_def)
qed

section \<open>The specification is deterministic\<close>

text \<open>
  What the specification fixes of a reply: all but the times in its attributes, and the order in
  which the entries of a directory are listed. \<open>alike V req\<close> relates the replies that a request may
  have on the tree \<open>V\<close>: two listings are alike when each of them hands over the entries of that very
  directory, each name once, in some order.
\<close>

definition plain_attr :: "FileAttr \<Rightarrow> FileAttr" where
  "plain_attr a = a\<lparr>attr_atime := 0, attr_mtime := 0, attr_ctime := 0, attr_crtime := 0\<rparr>"

fun plain :: "reply \<Rightarrow> reply" where
  "plain (ReplyAttr ttl a) = ReplyAttr ttl (plain_attr a)"
| "plain (ReplyEntry ttl a g) = ReplyEntry ttl (plain_attr a) g"
| "plain (ReplyCreated ttl a g fh fl) = ReplyCreated ttl (plain_attr a) g fh fl"
| "plain r = r"

fun alike :: "tree \<Rightarrow> request \<Rightarrow> reply \<Rightarrow> reply \<Rightarrow> bool" where
  "alike V (Readdir ino offset add) r r' \<longleftrightarrow> (case V (ucast ino) of
     Some (Dir m) \<Rightarrow> \<exists>es es'. lists m es \<and> lists m es' \<and>
       r = ReplyDirectory (feed add (int (nat (sint offset))) (drop (nat (sint offset)) es) []) \<and>
       r' = ReplyDirectory (feed add (int (nat (sint offset))) (drop (nat (sint offset)) es') [])
   | _ \<Rightarrow> r = r')"
| "alike V req r r' \<longleftrightarrow> plain r = plain r'"

lemma attr_for_plain:
  assumes "attr_for n nd a" "attr_for n nd b" "attr_meta q a" "attr_meta q b"
  shows "plain_attr a = plain_attr b"
proof -
  have "attr_ino a = attr_ino b" "attr_kind a = attr_kind b"
    using assms(1,2) by (auto simp: attr_for_def split: node.splits)
  with assms(3,4) show ?thesis by (simp add: plain_attr_def attr_meta_def)
qed

lemma attr_for_ino: "attr_for n nd a \<Longrightarrow> ucast (attr_ino a) = n"
  by (simp add: attr_for_def ucast_up_down)

text \<open>The requests that look up, make or remove a name, one by one; the others are immediate.\<close>

lemma lookup_det:
  assumes "abs_step V (Lookup p nm) r V1" "meta_step V P (Lookup p nm) r V1 P1"
    and "abs_step V (Lookup p nm) r' V2" "meta_step V P (Lookup p nm) r' V2 P2"
  shows "V1 = V2 \<and> P1 = P2 \<and> plain r = plain r'"
proof -
  obtain m where m: "V (ucast p) = Some (Dir m)" using assms(1) by auto
  show ?thesis
  proof (cases "m (os_str_or nm [])")
    case (Some x)
    with assms m show ?thesis by (cases x) (auto simp: attr_for_ino intro!: attr_for_plain)
  qed (use assms m in simp)
qed

lemma create_det:
  assumes "abs_step V (Create p nm) r V1" "meta_step V P (Create p nm) r V1 P1"
    and "abs_step V (Create p nm) r' V2" "meta_step V P (Create p nm) r' V2 P2"
  shows "V1 = V2 \<and> P1 = P2 \<and> plain r = plain r'"
proof -
  obtain m where m: "V (ucast p) = Some (Dir m)" using assms(1) by auto
  show ?thesis
  proof (cases "m (os_str_or nm (ascii ''unknown''))")
    case None
    with assms m show ?thesis
      by (cases "next_ino V 1000 2000") (auto split: if_splits intro!: attr_for_plain)
  qed (use assms m in simp)
qed

lemma mkdir_det:
  assumes "abs_step V (Mkdir p nm) r V1" "meta_step V P (Mkdir p nm) r V1 P1"
    and "abs_step V (Mkdir p nm) r' V2" "meta_step V P (Mkdir p nm) r' V2 P2"
  shows "V1 = V2 \<and> P1 = P2 \<and> plain r = plain r'"
proof -
  obtain m where m: "V (ucast p) = Some (Dir m)" using assms(1) by auto
  show ?thesis
  proof (cases "m (os_str_or nm (ascii ''unknown''))")
    case None
    with assms m show ?thesis by (cases "next_ino V 500 900") (auto intro!: attr_for_plain)
  qed (use assms m in simp)
qed

lemma rmdir_det:
  assumes "abs_step V (Rmdir p nm) r V1" "meta_step V P (Rmdir p nm) r V1 P1"
    and "abs_step V (Rmdir p nm) r' V2" "meta_step V P (Rmdir p nm) r' V2 P2"
  shows "V1 = V2 \<and> P1 = P2 \<and> plain r = plain r'"
proof -
  obtain m where m: "V (ucast p) = Some (Dir m)" using assms(1) by auto
  show ?thesis
  proof (cases "m (os_str_or nm [])")
    case (Some x)
    with assms m show ?thesis by (cases x, cases "V (fst x)") (auto split: node.splits if_splits)
  qed (use assms m in simp)
qed

lemma readdir_alike:
  assumes "abs_step V (Readdir ino off add) r V1" "abs_step V (Readdir ino off add) r' V2"
  shows "alike V (Readdir ino off add) r r'"
proof (cases "V (ucast ino)")
  case None
  with assms(1) show ?thesis by simp
next
  case (Some nd)
  show ?thesis
  proof (cases nd)
    case (Dir m)
    from assms show ?thesis unfolding abs_step.simps alike.simps Some Dir option.case node.case by blast
  next
    case (File bs)
    with Some assms show ?thesis by simp
  qed
qed

lemma spec_det:
  assumes "abs_step V req r V1" "meta_step V P req r V1 P1" "abs_step V req r' V2" "meta_step V P req r' V2 P2"
  shows "V1 = V2 \<and> P1 = P2 \<and> alike V req r r'"
proof (cases req)
  case (Getattr ino)
  with assms show ?thesis by (cases "V (ucast ino)") (auto intro!: attr_for_plain)
next
  case (Readdir ino off add)
  have "alike V req r r'" by (rule readdir_alike [OF assms(1,3) [unfolded Readdir], folded Readdir])
  moreover have "V1 = V2" using assms(1,3) Readdir by simp
  moreover have "P1 = P2" using assms(2,4) Readdir by simp
  ultimately show ?thesis by simp
next
  case (Setattr ino m)
  with assms show ?thesis by (auto intro!: attr_for_plain)
next
  case (Open u g ino flags)
  with assms show ?thesis by auto
next
  case (Read ino offset sz)
  with assms show ?thesis by auto
next
  case (Write ino offset data)
  with assms show ?thesis by (auto split: if_splits)
next
  case (Unlink p nm)
  with assms show ?thesis by (auto split: option.splits if_splits)
next
  case (Lookup p nm)
  with lookup_det [OF assms [unfolded Lookup]] show ?thesis by simp
next
  case (Create p nm)
  with create_det [OF assms [unfolded Create]] show ?thesis by simp
next
  case (Mkdir p nm)
  with mkdir_det [OF assms [unfolded Mkdir]] show ?thesis by simp
next
  case (Rmdir p nm)
  with rmdir_det [OF assms [unfolded Rmdir]] show ?thesis by simp
qed

interpretation spec: det_steps spec_step fst "\<lambda>a l l'. alike (fst a) (fst l) (snd l) (snd l')"
proof
  fix s t u :: spec_state and l k :: "request \<times> reply"
  assume "spec_step s l t" "spec_step s k u" "fst l = fst k"
  then show "t = u \<and> alike (fst s) (fst l) (snd l) (snd k)"
    using spec_det [of "fst s" "fst l" "snd l" "fst t" "snd s" "snd t" "snd k" "fst u" "snd u"]
    by (simp add: spec_step_def prod_eq_iff)
qed

text \<open>A restart finds the same blocks and the same superblock.\<close>

lemma restart_same:
  assumes ok: "state_ok (fs, s)" and c: "disk_image (fs_disk fs) s = Some c" and o: "opens_image h path s1 fd c"
  shows "\<exists>fs' s'. fs_mount h path s1 = Some (fs', s') \<and> disk_ok (fs_disk fs') s' \<and> fs_sb fs' = fs_sb fs \<and>
    blocks (fs_disk fs') s' = blocks (fs_disk fs) s"
proof -
  let ?v = "blocks (fs_disk fs) s"
  have d: "disk_ok (fs_disk fs) s" and f: "fs_ok ?v (fs_sb fs)" using ok by (auto simp: state_ok_def)
  have inv: "alloc_inv ?v (fs_sb fs)" by (rule fs_okD(3) [OF f])
  have len: "length c = 10485760" using d c by (simp add: disk_ok_def)
  have sb: "take 512 c = sb_block (fs_sb fs)" "sb_layout (fs_sb fs)"
    using inv c by (auto simp: alloc_inv_def blocks_def)
  then have dec: "sb_from_bytes (take 512 c) = Some (fs_sb fs)" "sb_is_valid (fs_sb fs)"
    by (simp_all add: sb_block_decode)
  have "magic (fs_sb fs) = take 16 (take 512 c)" using dec(1) len sb_from_bytes_total [of "take 512 c"] by auto
  with dec(2) len have "usable c" by (simp add: usable_def sb_is_valid_def)
  from mount_keeps [OF o refl this] dec(1) o len c show ?thesis
    by (auto simp: disk_ok_def opens_image_def blocks_def fun_eq_iff)
qed

lemma reach_ok: "reach st \<Longrightarrow> state_ok st"
proof (induction rule: reach.induct)
  case (start fs s)
  then show ?case by (simp add: state_ok_def fresh_fs_ok)
next
  case (serve fs s req r fs' s')
  then show ?case by (blast intro: serves_ok)
next
  case (restart fs s c h path s1 fd fs' s')
  have "state_ok (fs, s)" by fact
  from restart_same [OF this restart(2,3)] restart(4) this show ?case by (auto simp: state_ok_def)
qed

section \<open>The contents of a file over a run\<close>

text \<open>
  The requests that leave the contents of the file \<open>n\<close> alone: all but \<open>write\<close> to it and \<open>unlink\<close> of
  a name that leads to it. \<open>later n\<close> relates a state to those that follow over such requests and
  restarts.
\<close>

fun spares :: "u32 \<Rightarrow> tree \<Rightarrow> request \<Rightarrow> bool" where
  "spares n V (Write ino offset data) \<longleftrightarrow> ucast ino \<noteq> n"
| "spares n V (Unlink parent name) \<longleftrightarrow>
     (\<forall>m ty. V (ucast parent) = Some (Dir m) \<longrightarrow> m (os_str_or name []) \<noteq> Some (n, ty))"
| "spares n V _ \<longleftrightarrow> True"

inductive later :: "u32 \<Rightarrow> 's SimpleFS \<times> 's \<Rightarrow> 's SimpleFS \<times> 's \<Rightarrow> bool" for n where
  now: "later n st st"
| serve: "later n st (fs, s) \<Longrightarrow> spares n (view (blocks (fs_disk fs) s)) req \<Longrightarrow>
    serves (fs, s) req r (fs', s') \<Longrightarrow> later n st (fs', s')"
| restart: "later n st (fs, s) \<Longrightarrow> disk_image (fs_disk fs) s = Some c \<Longrightarrow> opens_image h path s1 fd c \<Longrightarrow>
    fs_mount h path s1 = Some (fs', s') \<Longrightarrow> later n st (fs', s')"

lemma spares_file:
  assumes st: "abs_step V req r V'" and sp: "spares n V req" and n: "V n = Some (File bs)"
  shows "V' n = Some (File bs)"
proof -
  have nx: "next_ino V a lim \<noteq> Some n" for a lim using n next_ino_unused by force
  show ?thesis
  proof (cases req)
    case (Write ino offset data)
    with st sp n show ?thesis by (auto split: if_splits)
  next
    case (Create parent name)
    with st n show ?thesis by (auto simp: add_node_def nx split: if_splits option.splits)
  next
    case (Mkdir parent name)
    with st n show ?thesis by (auto simp: add_node_def nx split: if_splits option.splits)
  next
    case (Unlink parent name)
    with st sp n show ?thesis by (fastforce simp: drop_node_def split: if_splits option.splits)
  next
    case (Rmdir parent name)
    with st n show ?thesis by (auto simp: drop_node_def split: if_splits option.splits node.splits)
  qed (use st n in auto)
qed

lemma later_file:
  assumes "later n st st'" "state_ok st" "fst (abs_of st) n = Some (File bs)"
  shows "state_ok st' \<and> fst (abs_of st') n = Some (File bs)"
  using assms
proof (induction rule: later.induct)
  case (serve st fs s req r fs' s')
  then have ok: "state_ok (fs, s)" and n: "view (blocks (fs_disk fs) s) n = Some (File bs)" by (auto simp: abs_of_def)
  from spares_file [OF serves_ok(2) [OF ok serve(3)] serve(2) n] serves_ok(1) [OF ok serve(3)]
  show ?case by (simp add: abs_of_def)
next
  case (restart st fs s c h path s1 fd fs' s')
  then have ok: "state_ok (fs, s)" by simp
  from restart_same [OF ok restart(2,3)] restart ok show ?case by (auto simp: abs_of_def state_ok_def)
qed simp

end
