(* ===== verification/Formatted_Image.thy ===== *)
theory Formatted_Image
  imports Server Memory_Host
begin

text \<open>
  The formatted image of the memory host as the start of a run, and the first step of one: what
  the instances of the theorems about runs share.
\<close>

lemma fmt_only_root: "only_root fmt_vol"
  by (rule zero_only_root [OF fmt_zero])

lemma fmt_reach: "reach (fmt_fs, fmt_state)"
  using fmt_ok fmt_formatted fmt_only_root by (intro reach.start) simp_all

text \<open>A directory buffer that is never full.\<close>

definition keep_all :: "dirent list \<Rightarrow> u64 \<Rightarrow> int \<Rightarrow> FileType \<Rightarrow> str \<Rightarrow> bool \<times> dirent list" where
  "keep_all r c k ty nm = (False, r @ [(c, k, ty, nm)])"

lemma fmt_view: "view fmt_vol = [1 \<mapsto> Dir [ascii ''.'' \<mapsto> (1, 2), ascii ''..'' \<mapsto> (1, 2)]]"
  by (rule fresh_fs_ok(2) [OF fmt_formatted fmt_only_root])

lemma fmt_fs_ok: "fs_ok fmt_vol fmt_sb"
  by (rule fresh_fs_ok(1) [OF fmt_formatted fmt_only_root])

lemma fmt_metas: "meta_map fmt_vol = [1 \<mapsto> dir_meta]"
  using fresh_live [OF fmt_formatted fmt_only_root] fmt_formatted by (auto simp: meta_map_def meta_of_def dir_meta_def fun_eq_iff formatted_def)

lemma fmt_dir: "live_dir_at fmt_vol 1"
  using dir_node_view [of fmt_vol 1] by (simp add: fmt_view is_dir_node_def live_dir_at_def)

lemma fmt_room: "room fmt_vol 89 = 57"
proof -
  have "{x. x < 89 \<and> \<not> allocd fmt_vol x} = {32..<89}" using fmt_formatted by (auto simp: formatted_def)
  then show ?thesis by (simp add: room_def)
qed

lemma name_a [simp]: "os_str_or (ascii ''a'') d = ascii ''a''" "name_ok (ascii ''a'')" "ascii ''a'' \<notin> dots"
proof -
  show "name_ok (ascii ''a'')" by (simp add: name_ok_def) code_simp
  then show "os_str_or (ascii ''a'') d = ascii ''a''" by (simp add: name_ok_def os_str_or_def)
  have "ascii ''a'' = [97]" by code_simp
  then show "ascii ''a'' \<notin> dots" by (simp add: dots_def ascii_dot ascii_dotdot)
qed

lemma fmt_create_ok: "ok_request fmt_vol (Create 1 (ascii ''a''))"
  using fmt_dir fmt_room by simp

lemma fmt_first_free: "first_free fmt_vol 1000 2000 = Some 1000"
proof -
  have "\<not> live fmt_vol 1000" using fresh_live [OF fmt_formatted fmt_only_root, of 1000] by simp
  then have "nlink (inode_at fmt_vol (of_nat 1000)) = 0" by (simp add: live_def valid_ino_def)
  moreover have "find P (x # xs) = Some x" if "P x" for P and x :: nat and xs using that by simp
  moreover have "[1000..<Suc 2000] = 1000 # [Suc 1000..<Suc 2000]" by (rule upt_conv_Cons) simp
  ultimately show ?thesis unfolding first_free_def by metis
qed

lemma fmt_create:
  obtains r fs' s' where "serves (fmt_fs, fmt_state) (Create 1 (ascii ''a'')) r (fs', s')" "reach (fs', s')"
    "fs_disk fs' = mem_disk" "\<exists>a. r = ReplyCreated 1 a 0 1000 0" "\<exists>t. inode_at (blocks mem_disk s') 1000 = created_inode 1000 t"
proof -
  let ?Q = "\<lambda>(r, fs') v. fs_disk fs' = mem_disk \<and> (\<exists>a. r = ReplyCreated 1 a 0 1000 0) \<and> (\<exists>t. inode_at v 1000 = created_inode 1000 t)"
  have m: "dir_map fmt_vol (inode_at fmt_vol 1) (ascii ''a'') = None" "card (dom (dir_map fmt_vol (inode_at fmt_vol 1))) \<noteq> 150"
  proof -
    have "dir_map fmt_vol (inode_at fmt_vol 1) = [ascii ''.'' \<mapsto> (1, 2), ascii ''..'' \<mapsto> (1, 2)]"
      using fmt_view view_dir [OF fmt_dir] by simp
    then show "dir_map fmt_vol (inode_at fmt_vol 1) (ascii ''a'') = None"
      "card (dom (dir_map fmt_vol (inode_at fmt_vol 1))) \<noteq> 150"
      using name_a(3) by (auto simp: dots_def card_insert_if)
  qed
  have "dwp (fs_disk fmt_fs) (fs_create fmt_fs 1 (ascii ''a'')) ?Q fmt_vol"
  proof (rule fs_create_awp)
    show "store_ok fmt_vol (fs_sb fmt_fs)" using fmt_fs_ok by (simp add: fs_ok_def)
    show "?Q (r, fmt_fs\<lparr>fs_sb := sb'\<rparr>) v'" if "first_free fmt_vol 1000 2000 = Some k"
        "create_post fmt_vol (ucast (1 :: u64)) (os_str_or (ascii ''a'') (ascii ''unknown'')) (of_nat k) r v' sb'" for k r sb' v'
      using that m(2) by (auto simp: fmt_first_free create_post_def split: if_splits)
  qed (use fmt_dir fmt_room m(1) fmt_first_free in \<open>simp_all add: live_dir_at_def\<close>)
  then have "dwp mem_disk (fs_create fmt_fs 1 (ascii ''a'')) ?Q fmt_vol" by simp
  from dwp_run [OF this fmt_ok] obtain r fs' s' where
    1: "handle fmt_fs (Create 1 (ascii ''a'')) fmt_state = Some ((r, fs'), s')" "?Q (r, fs') (blocks mem_disk s')" by auto
  then have "serves (fmt_fs, fmt_state) (Create 1 (ascii ''a'')) r (fs', s')"
    using fmt_create_ok by (intro serves.request) simp_all
  with 1 reach.serve [OF fmt_reach this] that show ?thesis by auto
qed

text \<open>After that the new file can be written: the root directory takes at most ten of the free blocks.\<close>

lemma room_root_only:
  assumes ok: "store_ok v sb" and d: "live v 1" "is_dir_at v 1" and f: "\<And>n. live v n \<Longrightarrow> n \<noteq> 1 \<Longrightarrow> owned v n = {}"
  shows "48 \<le> room v 89"
proof -
  note l = live_dir [OF ok d]
  have wf: "dir_wf v (inode_at v 1)" using l(1) by (simp add: dir_inv_def)
  have "card (owned v 1) \<le> length (dir_blocks (inode_at v 1))" unfolding l(7) by (metis card_length set_map length_map)
  with length_dir_blocks [OF wf] wf have o: "card (owned v 1) \<le> 10" by (simp add: dir_wf_def)
  have "{31..<89} - owned v 1 \<subseteq> {x. x < 89 \<and> \<not> allocd v x}"
  proof
    fix x assume x: "x \<in> {31..<89} - owned v 1"
    then have "\<not> (\<exists>n. live v n \<and> x \<in> owned v n)" using f by blast
    with x store_okD(5) [OF ok, of x] show "x \<in> {x. x < 89 \<and> \<not> allocd v x}" by auto
  qed
  then have "card ({31..<89} - owned v 1) \<le> room v 89" unfolding room_def by (intro card_mono) auto
  moreover have "card {31..<89 :: nat} - card (owned v 1) \<le> card ({31..<89} - owned v 1)"
    by (rule diff_card_le_card_Diff) (simp add: l(7))
  ultimately show ?thesis using o by simp
qed

lemma fmt_create_file:
  obtains r fs s where "serves (fmt_fs, fmt_state) (Create 1 (ascii ''a'')) r (fs, s)" "reach (fs, s)" "fs_disk fs = mem_disk"
    "live (blocks mem_disk s) = (\<lambda>n. n = 1 \<or> n = 1000)" "live_dir_at (blocks mem_disk s) 1"
    "live_file_at (blocks mem_disk s) 1000" "block_count (inode_at (blocks mem_disk s) 1000) = 0"
    "file_contents (blocks mem_disk s) (inode_at (blocks mem_disk s) 1000) = []"
    "dir_map (blocks mem_disk s) (inode_at (blocks mem_disk s) 1) =
       [ascii ''.'' \<mapsto> (1, 2), ascii ''..'' \<mapsto> (1, 2), ascii ''a'' \<mapsto> (1000, 1)]"
    "48 \<le> room (blocks mem_disk s) 89"
proof -
  obtain r fs s where 1: "serves (fmt_fs, fmt_state) (Create 1 (ascii ''a'')) r (fs, s)" "reach (fs, s)" "fs_disk fs = mem_disk"
      "\<exists>t. inode_at (blocks mem_disk s) 1000 = created_inode 1000 t"
    by (rule fmt_create)
  let ?v = "blocks mem_disk s"
  note st = serves_ok [OF reach_ok [OF fmt_reach] 1(1)]
  have ok: "store_ok ?v (fs_sb fs)" using st(1) 1(3) by (simp add: state_ok_def fs_ok_def)
  obtain t where i: "inode_at ?v 1000 = created_inode 1000 t" using 1(4) ..
  have f: "\<not> is_dir_at ?v 1000" "block_count (inode_at ?v 1000) = 0"
    by (simp_all add: i is_dir_at_def created_inode_def S_IFDIR_def)
  have vw: "is_dir_node (view ?v) 1" "\<And>n. view ?v n = None \<longleftrightarrow> n \<noteq> 1 \<and> n \<noteq> 1000"
      "view ?v 1 = Some (Dir [ascii ''.'' \<mapsto> (1, 2), ascii ''..'' \<mapsto> (1, 2), ascii ''a'' \<mapsto> (1000, 1)])"
  proof -
    have "next_ino (view fmt_vol) 1000 2000 = Some 1000" using next_ino_eq [of 1000 2000 fmt_vol] fmt_first_free by simp
    moreover have "ascii ''a'' \<noteq> ascii ''.''" "ascii ''a'' \<noteq> ascii ''..''" using name_a(3) by (auto simp: dots_def)
    moreover have "card {ascii ''..'', ascii ''.''} \<noteq> 150" by (simp add: card_insert_if)
    ultimately show "is_dir_node (view ?v) 1" "\<And>n. view ?v n = None \<longleftrightarrow> n \<noteq> 1 \<and> n \<noteq> 1000"
      "view ?v 1 = Some (Dir [ascii ''.'' \<mapsto> (1, 2), ascii ''..'' \<mapsto> (1, 2), ascii ''a'' \<mapsto> (1000, 1)])"
      using st(2) 1(3) by (auto simp: fmt_view is_dir_node_def add_node_def split: if_splits)
  qed
  have live: "live ?v n \<longleftrightarrow> n = 1 \<or> n = 1000" for n using vw(2) [of n] by (auto simp: view_def split: if_splits)
  have "owned ?v 1000 = {}"
    using f(1) new_file_inv(2) [OF store_okD(1) [OF ok] mem_inode_sel(6)] by (simp add: owned_def i)
  then have "48 \<le> room ?v 89" using vw(1) live by (intro room_root_only [OF ok]) (auto simp: dir_node_view)
  moreover have "dir_map ?v (inode_at ?v 1) = [ascii ''.'' \<mapsto> (1, 2), ascii ''..'' \<mapsto> (1, 2), ascii ''a'' \<mapsto> (1000, 1)]"
  proof -
    have "live_dir_at ?v 1" using vw(1) by (simp add: dir_node_view live_dir_at_def)
    from view_dir [OF this] vw(3) show ?thesis by simp
  qed
  moreover have "file_contents ?v (inode_at ?v 1000) = []" by (simp add: i new_file_inv(3) [OF store_okD(1) [OF ok] mem_inode_sel(6)])
  ultimately show ?thesis
    using 1 f live vw(1) by (intro that) (simp_all add: live_file_at_def live_dir_at_def dir_node_view fun_eq_iff)
qed

lemma fmt_create_write:
  obtains r fs s where "serves (fmt_fs, fmt_state) (Create 1 (ascii ''a'')) r (fs, s)" "reach (fs, s)" "fs_disk fs = mem_disk"
    "ok_request (blocks (fs_disk fs) s) (Write 1000 0 [1, 2, 3])"
    "file_contents (blocks mem_disk s) (inode_at (blocks mem_disk s) 1000) = []"
proof (rule fmt_create_file)
  fix r fs s
  assume 1: "serves (fmt_fs, fmt_state) (Create 1 (ascii ''a'')) r (fs, s)" "reach (fs, s)" "fs_disk fs = mem_disk"
    "live_file_at (blocks mem_disk s) 1000" "block_count (inode_at (blocks mem_disk s) 1000) = 0" "48 \<le> room (blocks mem_disk s) 89"
    "file_contents (blocks mem_disk s) (inode_at (blocks mem_disk s) 1000) = []"
  then have "ok_request (blocks (fs_disk fs) s) (Write 1000 0 [1, 2, 3])" by (simp add: grow_need_def)
  with 1 that show thesis by blast
qed

end
