(* ===== verification/File_Properties.thy ===== *)
theory File_Properties
  imports File_Image Formatted_Image
begin

text \<open>
  The main theorems about the contents of files: reading, writing, and that the loops which move
  the data end. The instances use an empty file in the formatted image of the memory host, put there as an
  inode or made by a \<open>create\<close> request.
\<close>

section \<open>Reading and writing\<close>

text \<open>C12. \<open>read\<close> replies with exactly the bytes of the file from the offset on, at most as many as
  were asked for, and none at or after the end of the file; it changes nothing.\<close>

theorem read_returns_contents:
  assumes "disk_ok (fs_disk fs) s" "file_inv (blocks (fs_disk fs) s) (fs_sb fs) (inode_at (blocks (fs_disk fs) s) (ucast ino))"
    "on_disk (ucast ino)" "0 \<le> sint offset"
  shows "\<exists>s'. fs_read fs ino offset sz s =
      Some ((ReplyData (read_at (file_contents (blocks (fs_disk fs) s) (inode_at (blocks (fs_disk fs) s) (ucast ino))) (unat offset) (unat sz)), fs), s') \<and>
    disk_ok (fs_disk fs) s' \<and> blocks (fs_disk fs) s' = blocks (fs_disk fs) s"
proof -
  let ?v = "blocks (fs_disk fs) s"
  have "dwp (fs_disk fs) (fs_read fs ino offset sz) (\<lambda>r v. v = ?v \<and>
      r = (ReplyData (read_at (file_contents ?v (inode_at ?v (ucast ino))) (unat offset) (unat sz)), fs)) ?v"
    using assms by (intro fs_read_awp) auto
  from dwp_run [OF this assms(1)] show ?thesis by auto
qed

theorem read_returns_contents_witness:
  "\<exists>s'. fs_read fmt_fs 1000 0 100 file_state = Some ((ReplyData [], fmt_fs), s')"
  using read_returns_contents [of fmt_fs file_state 1000 0 100] file_state_ok mem_file_inv mem_file_contents
  by (auto simp: read_at_def)

text \<open>C7. On a consistent file system a non-empty \<open>write\<close> to a file that ends within the first 10200
  bytes (20 blocks) succeeds when the free blocks below block 89, where the unprotected inodes begin, are as many as the
  file has to grow by. Afterwards the file holds the data at the offset and its old bytes elsewhere,
  with zeros in a gap; no other file or directory changes, and the file system is consistent again.
  \<open>write_post\<close> adds that the growth takes the first free blocks, and that behind the bitmap only the
  blocks of the file and of its inode are written.\<close>

theorem write_updates_contents:
  assumes "disk_ok (fs_disk fs) s" "fs_ok (blocks (fs_disk fs) s) (fs_sb fs)"
    "live_file_at (blocks (fs_disk fs) s) (ucast ino)" "data \<noteq> []" "unat offset + length data \<le> 10200"
    "grow_need (unat (block_count (inode_at (blocks (fs_disk fs) s) (ucast ino)))) ((unat offset + length data + 509) div 510)
      \<le> room (blocks (fs_disk fs) s) 89"
  shows "\<exists>sb' s'. fs_write fs ino offset data s = Some ((ReplyWritten (of_nat (length data)), fs\<lparr>fs_sb := sb'\<rparr>), s') \<and>
    disk_ok (fs_disk fs) s' \<and> fs_ok (blocks (fs_disk fs) s') sb' \<and>
    view (blocks (fs_disk fs) s') = (view (blocks (fs_disk fs) s))(ucast ino \<mapsto>
      File (write_at (file_contents (blocks (fs_disk fs) s) (inode_at (blocks (fs_disk fs) s) (ucast ino))) (unat offset) data)) \<and>
    write_post 89 (blocks (fs_disk fs) s) (ucast ino) (unat offset) data (blocks (fs_disk fs) s') sb'"
proof -
  let ?v = "blocks (fs_disk fs) s" and ?n = "ucast ino :: u32"
  let ?V = "(view ?v)(?n \<mapsto> File (write_at (file_contents ?v (inode_at ?v ?n)) (unat offset) data))"
  note f = fs_okD [OF assms(2)]
  have n: "live ?v ?n" "\<not> is_dir_at ?v ?n" "valid_ino ?n" using assms(3) by (simp_all add: live_file_at_def live_def)
  have "live ?v 1" "is_dir_at ?v 1" using tree_okD(1) [OF f(2)] by (simp_all add: dir_node_view)
  with n have "?n \<noteq> 1" by auto
  with n(3) have n89: "89 \<le> inode_blk ?n" "on_disk ?n" using valid_ino_blk(1) by (auto simp: valid_ino_def inode_blk_def)
  have step: "fs_ok v' sb' \<and> view v' = ?V" if w: "write_post 89 ?v ?n (unat offset) data v' sb'" for v' sb'
  proof -
    note st = write_step [OF f(1) n(1,2) order_refl w]
    have "tree_ok (view v')" using tree_ok_write [OF f(2) view_file [OF assms(3)]] st(2) by simp
    with st(2) store_stepD(1) [OF st(1)] show ?thesis by (simp add: fs_ok_def)
  qed
  have "dwp (fs_disk fs) (fs_write fs ino offset data) (\<lambda>(r, fs') v. \<exists>sb'. r = ReplyWritten (of_nat (length data)) \<and>
      fs' = fs\<lparr>fs_sb := sb'\<rparr> \<and> fs_ok v sb' \<and> view v = ?V \<and> write_post 89 ?v ?n (unat offset) data v sb') ?v"
    using assms(4-6) n89 step live_file(1) [OF f(1) n(1,2)] by (intro fs_write_ok_awp [where L = 89]) auto
  from dwp_run [OF this assms(1)] show ?thesis by auto
qed

theorem write_updates_contents_witness:
  "\<exists>(fs :: mem SimpleFS) s fs' s'. reach (fs, s) \<and> view (blocks (fs_disk fs) s) 1000 = Some (File []) \<and>
    fs_write fs 1000 0 [1, 2, 3] s = Some ((ReplyWritten 3, fs'), s') \<and>
    fs_ok (blocks (fs_disk fs) s') (fs_sb fs') \<and> view (blocks (fs_disk fs) s') 1000 = Some (File [1, 2, 3])"
proof (rule fmt_create_write)
  fix r and fs :: "mem SimpleFS" and s
  assume 1: "reach (fs, s)" "fs_disk fs = mem_disk" "ok_request (blocks (fs_disk fs) s) (Write 1000 0 [1, 2, 3])"
    "file_contents (blocks mem_disk s) (inode_at (blocks mem_disk s) 1000) = []"
  have ok: "disk_ok (fs_disk fs) s" "fs_ok (blocks (fs_disk fs) s) (fs_sb fs)" using reach_ok [OF 1(1)] by (auto simp: state_ok_def)
  have n: "live_file_at (blocks (fs_disk fs) s) 1000" using 1(3) by simp
  have v: "view (blocks (fs_disk fs) s) 1000 = Some (File [])" using view_file [OF n] 1(2,4) by simp
  have "write_at [] 0 [1, 2, 3 :: byte] = [1, 2, 3]" by (simp add: write_at_def overwrite_def)
  with write_updates_contents [OF ok, of 1000 "[1, 2, 3]" 0] n 1(2-4) obtain sb' s' where
    "fs_write fs 1000 0 [1, 2, 3] s = Some ((ReplyWritten 3, fs\<lparr>fs_sb := sb'\<rparr>), s')"
    "fs_ok (blocks (fs_disk fs) s') sb'" "view (blocks (fs_disk fs) s') 1000 = Some (File [1, 2, 3])"
    by (auto simp: numeral_3_eq_3)
  with 1(1) v show ?thesis
    by (intro exI [of _ fs] exI [of _ s] exI [of _ "fs\<lparr>fs_sb := sb'\<rparr>"] exI [of _ s'] conjI) simp_all
qed

text \<open>What was written is read back: a \<open>read\<close> at the same offset and length returns the data of
  the \<open>write\<close> before it.\<close>

theorem write_then_read:
  assumes "disk_ok (fs_disk fs) s" "file_inv (blocks (fs_disk fs) s) (fs_sb fs) (inode_at (blocks (fs_disk fs) s) (ucast ino))"
    "on_disk (ucast ino)" "data \<noteq> []" "unat offset + length data \<le> 10200"
    "grow_need (unat (block_count (inode_at (blocks (fs_disk fs) s) (ucast ino)))) ((unat offset + length data + 509) div 510)
      \<le> room (blocks (fs_disk fs) s) (inode_blk (ucast ino))"
  shows "\<exists>fs1 s1 s2. fs_write fs ino offset data s = Some ((ReplyWritten (of_nat (length data)), fs1), s1) \<and>
    fs_read fs1 ino offset (of_nat (length data)) s1 = Some ((ReplyData data, fs1), s2)"
proof -
  let ?d = "fs_disk fs" and ?v = "blocks (fs_disk fs) s" and ?n = "ucast ino :: u32"
  have "dwp ?d (fs_write fs ino offset data) (\<lambda>(r, fs') v. \<exists>sb'. r = ReplyWritten (of_nat (length data)) \<and>
      fs' = fs\<lparr>fs_sb := sb'\<rparr> \<and> write_post (inode_blk ?n) ?v ?n (unat offset) data v sb') ?v"
    using assms by (intro fs_write_ok_awp) auto
  from dwp_run [OF this assms(1)] obtain sb' s1 where
    w: "fs_write fs ino offset data s = Some ((ReplyWritten (of_nat (length data)), fs\<lparr>fs_sb := sb'\<rparr>), s1)"
      "disk_ok ?d s1" "write_post (inode_blk ?n) ?v ?n (unat offset) data (blocks ?d s1) sb'" by auto
  let ?fs1 = "fs\<lparr>fs_sb := sb'\<rparr>"
  have len: "unat (of_nat (length data) :: u32) = length data" using assms(5) by (simp add: unat_of_nat)
  have pos: "0 \<le> sint offset" by (rule sint_small) (use assms(5) in simp)
  have "dwp (fs_disk ?fs1) (fs_read ?fs1 ino offset (of_nat (length data))) (\<lambda>r _. r = (ReplyData data, ?fs1)) (blocks (fs_disk ?fs1) s1)"
    using w(3) assms(3) pos read_write_at by (intro fs_read_awp) (auto simp: write_post_def len)
  from dwp_run [OF this] w show ?thesis by auto
qed

theorem write_then_read_witness:
  "\<exists>fs1 s1 s2. fs_write fmt_fs 1000 600 [1, 2, 3] file_state = Some ((ReplyWritten 3, fs1), s1) \<and>
    fs_read fs1 1000 600 3 s1 = Some ((ReplyData [1, 2, 3], fs1), s2)"
  using write_then_read [of fmt_fs file_state 1000 "[1, 2, 3]" 600] file_state_ok mem_file_inv mem_file_room
  by (simp add: grow_need_def numeral_3_eq_3)

text \<open>
  The loops as the source has them, without fuel: their recursion ends since each round makes the
  number of bytes that remain smaller. At an offset of a whole block, which the code never has, a
  round would copy nothing; the definitions stop there.
\<close>

function read_rounds :: "'s Disk \<Rightarrow> Inode \<Rightarrow> nat \<Rightarrow> u32 \<Rightarrow> nat \<Rightarrow> byte list \<Rightarrow> 's \<Rightarrow> (byte list \<times> 's) option" where
  "read_rounds d inode remaining block_index block_offset acc s =
     (if remaining = 0 \<or> PAGE_SIZE \<le> block_offset then Some (acc, s)
      else do {
        (b, s) \<leftarrow> get_block inode d block_index s;
        case b of
          None \<Rightarrow> Some (acc, s)
        | Some block_num \<Rightarrow> do {
            (block_buf, s) \<leftarrow> read_block d block_num s;
            let to_copy = min remaining (PAGE_SIZE - block_offset);
            part \<leftarrow> slice_range block_buf block_offset (block_offset + to_copy);
            read_rounds d inode (remaining - to_copy) (block_index + 1) 0 (acc @ part) s } })"
  by pat_completeness auto
termination
  by (relation "measure (\<lambda>(d, inode, remaining, block_index, block_offset, acc, s). remaining)") auto

function write_rounds :: "'s Disk \<Rightarrow> Inode \<Rightarrow> byte list \<Rightarrow> nat \<Rightarrow> u32 \<Rightarrow> nat \<Rightarrow> nat \<Rightarrow> 's \<Rightarrow> (unit \<times> 's) option" where
  "write_rounds d inode data remaining block_index block_offset data_offset s =
     (if remaining = 0 \<or> PAGE_SIZE \<le> block_offset then Some ((), s)
      else do {
        (b, s) \<leftarrow> get_block inode d block_index s;
        block_num \<leftarrow> b;
        (block_buf, s) \<leftarrow> read_block d block_num s;
        let to_write = min remaining (PAGE_SIZE - block_offset);
        part \<leftarrow> slice_range data data_offset (data_offset + to_write);
        block_buf \<leftarrow> copy_from_slice block_buf block_offset (block_offset + to_write) part;
        (_, s) \<leftarrow> write_block d block_num block_buf s;
        write_rounds d inode data (remaining - to_write) (block_index + 1) 0 (data_offset + to_write) s })"
  by pat_completeness auto
termination
  by (relation "measure (\<lambda>(d, inode, data, remaining, block_index, block_offset, data_offset, s). remaining)") auto

declare read_rounds.simps [simp del] write_rounds.simps [simp del]

lemma loop_step: "off < 510 \<Longrightarrow> n \<noteq> 0 \<Longrightarrow> n \<le> Suc f \<Longrightarrow> n - min n (510 - off) \<le> f"
  by auto

lemma read_loop_fuel:
  "off < 510 \<Longrightarrow> n \<le> fuel \<Longrightarrow> read_loop fuel d i n k off acc s = read_rounds d i n k off acc s"
proof (induction fuel arbitrary: n k off acc s)
  case 0
  then show ?case by (simp add: read_rounds.simps)
next
  case (Suc f)
  show ?case
  proof (cases "n = 0")
    case False
    have IH: "read_loop f d i (n - min n (510 - off)) k' 0 acc' s' = read_rounds d i (n - min n (510 - off)) k' 0 acc' s'" for k' acc' s'
      using Suc.prems False loop_step by (intro Suc.IH) auto
    with False Suc.prems(1) show ?thesis
      by (subst read_rounds.simps) (simp add: IH Let_def cong: option.case_cong)
  qed (simp add: read_rounds.simps)
qed

lemma write_loop_fuel:
  "off < 510 \<Longrightarrow> n \<le> fuel \<Longrightarrow> write_loop fuel d i bs n k off pos s = write_rounds d i bs n k off pos s"
proof (induction fuel arbitrary: n k off pos s)
  case 0
  then show ?case by (simp add: write_rounds.simps)
next
  case (Suc f)
  show ?case
  proof (cases "n = 0")
    case False
    have IH: "write_loop f d i bs (n - min n (510 - off)) k' 0 pos' = write_rounds d i bs (n - min n (510 - off)) k' 0 pos'" for k' pos'
      using Suc.prems False loop_step by (intro ext Suc.IH) auto
    with False Suc.prems(1) show ?thesis
      by (subst write_rounds.simps) (simp add: IH Let_def)
  qed (simp add: write_rounds.simps)
qed

text \<open>C23. The data loops of \<open>read\<close> and \<open>write\<close> end: on any disk and any inode, with as much fuel as bytes
  remain or more, they compute what the loops without fuel compute, which are total.\<close>

theorem data_loops_terminate:
  assumes "off < 510" "n \<le> fuel"
  shows "read_loop fuel d i n k off acc s = read_rounds d i n k off acc s \<and>
    write_loop fuel d i bs n k off pos s = write_rounds d i bs n k off pos s"
  using assms by (intro conjI read_loop_fuel write_loop_fuel) auto

theorem data_loops_terminate_witness:
  "read_loop 99 mem_disk mem_inode 3 0 5 [] file_state = read_rounds mem_disk mem_inode 3 0 5 [] file_state"
  using data_loops_terminate [of 5 3 99 mem_disk mem_inode 0 "[]" file_state] by simp

end
