(* ===== verification/File_Limits.thy ===== *)
theory File_Limits
  imports File_Image
begin

text \<open>
  Where \<open>write\<close> stops to be correct: the limit on the size of a file, a full disk, offsets at which
  32 bits are not enough, and the collision between data blocks and the inode table.
\<close>

section \<open>The limit on the size of a file\<close>

text \<open>C25. A \<open>write\<close> that would end beyond 20 blocks (10200 bytes) and below \<open>510 * 2 ^ 32 - 509\<close>, so that the
  number of blocks fits 32 bits, is refused with \<open>EFBIG\<close> and changes nothing; only a \<open>write\<close> of no
  data is accepted there, and changes nothing either.\<close>

theorem write_too_big:
  assumes "disk_ok (fs_disk fs) s" "sb_layout (fs_sb fs)" "on_disk (ucast ino)"
    "10200 < unat offset + length data" "unat offset + length data + 509 < 510 * 2 ^ 32"
  shows "\<exists>s'. fs_write fs ino offset data s = Some ((if data = [] then ReplyWritten 0 else ReplyError EFBIG, fs), s') \<and>
    disk_ok (fs_disk fs) s' \<and> blocks (fs_disk fs) s' = blocks (fs_disk fs) s"
proof -
  let ?v = "blocks (fs_disk fs) s"
  have "dwp (fs_disk fs) (fs_write fs ino offset data)
      (\<lambda>r v. r = (if data = [] then ReplyWritten 0 else ReplyError EFBIG, fs) \<and> v = ?v) ?v"
    using assms fs_write_empty_awp [OF disk_ok_vol, of "fs_disk fs" s fs ino _ offset]
    by (cases "data = []") (auto intro!: fs_write_big_awp disk_ok_vol)
  from dwp_run [OF this assms(1)] show ?thesis by auto
qed

theorem write_too_big_witness:
  "\<exists>s'. fs_write fmt_fs 1000 10200 [1] file_state = Some ((ReplyError EFBIG, fmt_fs), s')"
  using write_too_big [of fmt_fs file_state 1000 10200 "[1]"] file_state_ok fmt_inv(3) by auto

text \<open>How many of the blocks that a \<open>write\<close> needs it gets when only \<open>f\<close> blocks are free.\<close>

lemma grow_need_stops:
  assumes "f < grow_need c r" "\<not> (c \<le> 10 \<and> 10 < r \<and> f = 11 - c)"
  obtains k where "c \<le> k" "k < r" "grow_need c k = f"
proof (cases "c \<le> 10 \<and> 10 < c + f \<and> 10 < r")
  case True
  with assms that [of "c + f - 1"] show ?thesis by (auto simp: grow_need_def split: if_splits)
next
  case False
  with assms that [of "c + f"] show ?thesis by (auto simp: grow_need_def split: if_splits)
qed

text \<open>C26. When fewer blocks are free, wherever they lie, than a \<open>write\<close> within the size limit needs to let a file
  grow from \<open>c\<close> to \<open>r\<close> blocks, it replies \<open>ENOSPC\<close> and leaves the inode as it was, but every block that
  was free is marked as used afterwards, though the inode does not count them. Excluded is the number of
  free blocks at which the eleventh block of the file would be the last free one, where the code panics
  instead; the block of the file's own inode is marked as used, so that the growing file cannot take it.\<close>

theorem write_disk_full:
  assumes "disk_ok (fs_disk fs) s" "file_inv (blocks (fs_disk fs) s) (fs_sb fs) (inode_at (blocks (fs_disk fs) s) (ucast ino))"
    "on_disk (ucast ino)" "data \<noteq> []" "unat offset + length data \<le> 10200"
    "c = unat (block_count (inode_at (blocks (fs_disk fs) s) (ucast ino)))" "r = (unat offset + length data + 509) div 510"
    "card (free_set (blocks (fs_disk fs) s)) < grow_need c r"
    "\<not> (c \<le> 10 \<and> 10 < r \<and> card (free_set (blocks (fs_disk fs) s)) = 11 - c)"
    "allocd (blocks (fs_disk fs) s) (inode_blk (ucast ino))"
  shows "\<exists>sb' s'. fs_write fs ino offset data s = Some ((ReplyError ENOSPC, fs\<lparr>fs_sb := sb'\<rparr>), s') \<and>
    inode_at (blocks (fs_disk fs) s') (ucast ino) = inode_at (blocks (fs_disk fs) s) (ucast ino) \<and>
    free_set (blocks (fs_disk fs) s') = {}"
proof -
  let ?v = "blocks (fs_disk fs) s"
  obtain k where k: "c \<le> k" "k < r" "grow_need c k = card (free_set ?v)" using grow_need_stops [OF assms(8,9)] by metis
  have "510 * k < unat offset + length data" using k(2) assms(7) by linarith
  then have "dwp (fs_disk fs) (fs_write fs ino offset data) (\<lambda>(r, fs') v. \<exists>sb'. r = ReplyError ENOSPC \<and>
      fs' = fs\<lparr>fs_sb := sb'\<rparr> \<and> inode_at v (ucast ino) = inode_at ?v (ucast ino) \<and> free_set v = {}) ?v"
    using k assms(6,10) by (intro fs_write_full_awp [OF assms(2-5), where r = k]) auto
  from dwp_run [OF this assms(1)] show ?thesis by auto
qed

theorem write_disk_full_witness:
  "\<exists>fs' s'. fs_write (fmt_fs\<lparr>fs_sb := full_sb 1\<rparr>) 1000 600 [1, 2, 3] (full_state 1 0xFE 0xFF) = Some ((ReplyError ENOSPC, fs'), s') \<and>
    inode_at (blocks mem_disk s') 1000 = mem_inode \<and> free_set (blocks mem_disk s') = {}"
proof -
  let ?fs = "fmt_fs\<lparr>fs_sb := full_sb 1\<rparr>" and ?s = "full_state 1 0xFE 0xFF"
  have "\<exists>sb' s'. fs_write ?fs 1000 600 [1, 2, 3] ?s = Some ((ReplyError ENOSPC, ?fs\<lparr>fs_sb := sb'\<rparr>), s') \<and>
    inode_at (blocks (fs_disk ?fs) s') (ucast (1000 :: u64)) = inode_at (blocks (fs_disk ?fs) ?s) (ucast (1000 :: u64)) \<and>
    free_set (blocks (fs_disk ?fs) s') = {}"
    by (rule write_disk_full [where c = 0 and r = 2])
       (use full_ok full_file full_one full_free in \<open>simp_all add: full_blocks full_inode grow_need_def\<close>)
  then show ?thesis by (auto simp: full_blocks full_inode)
qed

text \<open>C27. The last free block: when a file of at most ten blocks has to grow beyond ten and exactly as many blocks
  are free as it takes up to its eleventh, none is left for the block of indirect pointers, and
  \<open>write\<close> panics instead of replying \<open>ENOSPC\<close>. The block of the file's inode is marked as used.\<close>

theorem write_panics_last_block:
  assumes "disk_ok (fs_disk fs) s" "file_inv (blocks (fs_disk fs) s) (fs_sb fs) (inode_at (blocks (fs_disk fs) s) (ucast ino))"
    "on_disk (ucast ino)" "data \<noteq> []" "5100 < unat offset + length data" "unat offset + length data \<le> 10200"
    "unat (block_count (inode_at (blocks (fs_disk fs) s) (ucast ino))) \<le> 10"
    "card (free_set (blocks (fs_disk fs) s)) = 11 - unat (block_count (inode_at (blocks (fs_disk fs) s) (ucast ino)))"
    "allocd (blocks (fs_disk fs) s) (inode_blk (ucast ino))"
  shows "fs_write fs ino offset data s = None"
  by (rule dpanics_run [OF fs_write_panics [OF assms(2,3,5,6,4,7-9)] assms(1)])

theorem write_panics_last_block_witness:
  "fs_write (fmt_fs\<lparr>fs_sb := full_sb 11\<rparr>) 1000 5200 [1, 2, 3] (full_state 11 0 0xF8) = None"
  by (rule write_panics_last_block)
     (use full_ok full_file [of 11 0 "0xF8"] full_eleven full_free in \<open>simp_all add: full_blocks full_inode\<close>)

text \<open>At the offset \<open>510 * 2 ^ 32\<close> the number of blocks and the new size lose their upper halves.\<close>

lemma required_of_wrap:
  assumes "len \<le> 10200"
  shows "unat (required_of (510 * 2 ^ 32) len) = (len + 509) div 510"
proof -
  have off: "unat (510 * 2 ^ 32 :: i64) = 510 * 2 ^ 32" by simp
  have "(510 * 2 ^ 32 + len + 509) div 510 = 2 ^ 32 + (len + 509) div 510"
    using div_mult_self2 [of 510 "len + 509" "2 ^ 32"] by (simp add: ac_simps)
  then show ?thesis using assms by (subst required_of_eq) (simp_all only: off, simp_all)
qed

lemma size_after_wrap:
  assumes "len \<le> 10200"
  shows "unat (size_after sz (510 * 2 ^ 32) len) = len"
proof -
  let ?off = "510 * 2 ^ 32 :: i64"
  have sum: "unat (?off + of_nat len) = 510 * 2 ^ 32 + len"
    using assms by (simp add: unat_word_ariths unat_of_nat)
  have "unat (ucast sz :: u64) < 2 ^ 32"
    using unsigned_less [of sz, where ?'a = nat] by (simp add: unsigned_ucast_eq unsigned_take_bit_eq take_bit_nat_eq_self)
  with sum have "?off + of_nat len > (ucast sz :: u64)" by (simp add: word_less_nat_alt)
  moreover have "unat (ucast (?off + of_nat len) :: u32) = unat (?off + of_nat len) mod 2 ^ 32"
    by (simp add: unsigned_ucast_eq unsigned_take_bit_eq take_bit_eq_mod)
  moreover have "(510 * 2 ^ 32 + len) mod 2 ^ 32 = len"
    using mod_mult_self3 [of 510 "2 ^ 32" len] assms by simp
  ultimately show ?thesis
    unfolding size_after_def sum by (simp only: if_True)
qed

text \<open>C38. At the offset \<open>510 * 2 ^ 32\<close> the number of blocks wraps around, so the limit is not applied:
  the \<open>write\<close> is accepted, the data overwrites the start of the file and the file is cut to the
  length of the data, whatever it held before.\<close>

theorem write_offset_wraps:
  assumes "disk_ok (fs_disk fs) s" "file_inv (blocks (fs_disk fs) s) (fs_sb fs) (inode_at (blocks (fs_disk fs) s) (ucast ino))"
    "on_disk (ucast ino)" "data \<noteq> []" "length data \<le> 10200"
    "grow_need (unat (block_count (inode_at (blocks (fs_disk fs) s) (ucast ino)))) ((length data + 509) div 510)
      \<le> room (blocks (fs_disk fs) s) (inode_blk (ucast ino))"
  shows "\<exists>fs' s'. fs_write fs ino (510 * 2 ^ 32) data s = Some ((ReplyWritten (of_nat (length data)), fs'), s') \<and>
    file_contents (blocks (fs_disk fs) s') (inode_at (blocks (fs_disk fs) s') (ucast ino)) = data"
proof -
  let ?v = "blocks (fs_disk fs) s" and ?n = "ucast ino :: u32" and ?off = "510 * 2 ^ 32 :: i64"
  let ?i = "inode_at ?v ?n" and ?r = "(length data + 509) div 510"
  have req: "unat (required_of ?off (length data)) = ?r" by (rule required_of_wrap [OF assms(5)])
  have start: "start_of ?off = 0" by (simp add: start_of_def)
  have r20: "?r \<le> 20" using assms(5) by simp
  have c20: "unat (block_count ?i) \<le> 20" using assms(2) by (simp add: file_inv_def file_wf_def)
  have "dwp (fs_disk fs) (fs_write fs ino ?off data) (\<lambda>(r, fs') v. r = ReplyWritten (of_nat (length data)) \<and>
      file_contents v (inode_at v ?n) = data) ?v"
  proof (rule fs_write_awp [where L = "inode_blk ?n", OF assms(2,3)], unfold req start, goal_cases)
    case (8 i1 v1 sb1 v2 t)
    let ?i2 = "i1\<lparr>isize := size_after (isize i1) ?off (length data), mtime := t, atime := t\<rparr>"
    have bc: "unat (block_count i1) = max (unat (block_count ?i)) ?r"
      using grown_fields(5) [OF 8(1)] r20 c20 by (simp add: unat_word_ariths unat_of_nat)
    have no: "inode_no i1 = ?n"
      using grown_fields(1) [OF 8(1)] inode_at_decode(3) [OF disk_ok_vol [OF assms(1)] assms(3)] by simp
    have wf1: "file_wf v1 i1" using grown_inv [OF 8(1)] by (simp add: file_inv_def)
    have p: "file_wf v2 i1" "file_data v2 i1 = overwrite (file_data v1 i1) 0 data" using 8(2) by (auto simp: data_post_def)
    note put = file_put_inode [of v2 i1 ?i2 "put_inode v2 ?i2", OF p(1), simplified, unfolded no]
    have "unat (size_after (isize i1) ?off (length data)) = length data" by (rule size_after_wrap [OF assms(5)])
    then have "file_contents (put_inode v2 ?i2) ?i2 = take (length data) (overwrite (file_data v1 i1) 0 data)"
      using put(4) p(2) by (simp add: file_contents_def)
    also have "\<dots> = data" by (simp add: overwrite_def)
    finally show ?case using put(1) by simp
  qed (use assms r20 in \<open>auto simp: on_disk_def\<close>)
  from dwp_run [OF this assms(1)] show ?thesis by auto
qed

theorem write_offset_wraps_witness:
  "\<exists>fs' s'. fs_write fmt_fs 1000 (510 * 2 ^ 32) [1, 2, 3] file_state = Some ((ReplyWritten 3, fs'), s') \<and>
    file_contents (blocks mem_disk s') (inode_at (blocks mem_disk s') 1000) = [1, 2, 3]"
  using write_offset_wraps [of fmt_fs file_state 1000 "[1, 2, 3]"] file_state_ok mem_file_inv mem_file_room
  by (auto simp: grow_need_def numeral_3_eq_3)

section \<open>Data blocks and the inode table\<close>

text \<open>Growing by one direct block takes the next free block and fills it with zeros.\<close>

lemma grow_direct_awp:
  assumes inv: "alloc_inv v sb" and nf: "next_free v x" and c: "unat (block_count i) < 10"
    and Q: "\<And>sb' v'. alloc_inv v' sb' \<Longrightarrow> v' x = replicate 512 0 \<Longrightarrow>
      Q (Some (i\<lparr>direct_blocks := (direct_blocks i)[unat (block_count i) := of_nat x], block_count := block_count i + 1\<rparr>), sb') v'"
  shows "dwp d (grow_loop d (block_count i + 1) sb i) Q v"
proof -
  have lt: "block_count i < block_count i + 1"
    using c unat_inc [of "block_count i" 10] by (simp add: word_less_nat_alt)
  have idx: "unat (ucast (block_count i) :: u32) < 10" using c by (simp add: ucast_count_lt)
  have stop: "grow_loop d (block_count i + 1) sb (j\<lparr>block_count := block_count i + 1\<rparr>) =
      (\<lambda>s. Some ((Some (j\<lparr>block_count := block_count i + 1\<rparr>), sb), s))" for sb j
    by (subst grow_loop.simps [abs_def]) simp
  have eq: "grow_loop d (block_count i + 1) sb i = (\<lambda>s. do {
      ((r, sb), s) \<leftarrow> allocate_block d sb s;
      case r of
        None \<Rightarrow> Some ((None, sb), s)
      | Some b \<Rightarrow> do {
          (_, s) \<leftarrow> write_block d b (replicate 512 0) s;
          Some ((Some (i\<lparr>direct_blocks := (direct_blocks i)[unat (ucast (block_count i) :: u32) := b], block_count := block_count i + 1\<rparr>), sb), s) } })"
    using lt idx by (subst grow_loop.simps [abs_def])
      (simp add: attach_block_def [abs_def] word_less_nat_alt stop cong: option.case_cong)
  show ?thesis
    unfolding eq
  proof (rule awp_bind, rule allocate_block_awp [OF inv], goal_cases)
    case 1
    with nf show ?case by (auto simp: free_set_def next_free_def)
  next
    case (2 b v1)
    have b: "b = x" using 2(3,4) nf by (metis linorder_neqE_nat next_free_def)
    have v1: "vol v1" using 2(6) by (simp add: alloc_inv_def)
    have "alloc_inv (v1(b := replicate 512 0)) (sb\<lparr>free_blocks := free_blocks sb - 1\<rparr>)"
      using v1 2(2) by (intro alloc_inv_cong [OF 2(6)]) auto
    with Q 2(1) b show ?case by (auto simp: unat_of_nat ucast_count_lt intro!: awp_rules)
  qed
qed

text \<open>\<open>k\<close> allocations in a row.\<close>

primrec allocate_times :: "'s Disk \<Rightarrow> nat \<Rightarrow> SuperBlock \<Rightarrow> 's \<Rightarrow> (SuperBlock \<times> 's) option" where
  "allocate_times d 0 sb s = Some (sb, s)"
| "allocate_times d (Suc k) sb s = do { ((_, sb), s) \<leftarrow> allocate_block d sb s; allocate_times d k sb s }"

lemma allocate_times_awp:
  assumes "alloc_inv v sb" "\<And>b. b < 20480 \<Longrightarrow> allocd v b \<longleftrightarrow> b < a" "a + k \<le> 20480"
    and "\<And>v' sb'. alloc_inv v' sb' \<Longrightarrow> (\<And>b. b < 20480 \<Longrightarrow> allocd v' b \<longleftrightarrow> b < a + k) \<Longrightarrow>
      (\<And>i. 6 \<le> i \<Longrightarrow> v' i = v i) \<Longrightarrow> Q sb' v'"
  shows "dwp d (allocate_times d k sb) Q v"
  using assms
proof (induction k arbitrary: v sb a)
  case 0
  then show ?case by (auto intro!: awp_rules)
next
  case (Suc k)
  show ?case
    unfolding ext [OF allocate_times.simps(2)]
  proof (rule awp_bind, rule allocate_block_awp [OF Suc.prems(1)], goal_cases)
    case 1
    have "a \<in> free_set v" using Suc.prems(2) [of a] Suc.prems(3) by (simp add: free_set_def)
    with 1 show ?case by simp
  next
    case (2 b v1)
    have b: "b = a"
      using 2(1,3,4) Suc.prems(2) [of b] Suc.prems(2) [of a] Suc.prems(3) by (metis add_lessD1 le_add1 less_le_trans linorder_neqE_nat not_less_iff_gr_or_eq zero_less_Suc less_add_same_cancel1)
    have p: "allocd v1 = (\<lambda>x. x = b \<or> allocd v x)" "\<And>i. 6 \<le> i \<Longrightarrow> v1 i = v i"
      using 2(5) by (auto simp: bitmap_post_def)
    have "dwp d (allocate_times d k (sb\<lparr>free_blocks := free_blocks sb - 1\<rparr>)) Q v1"
    proof (rule Suc.IH [OF 2(6), of "a + 1"])
      show "allocd v1 x = (x < a + 1)" if "x < 20480" for x
        using Suc.prems(2) [OF that] by (auto simp: p(1) b)
      show "a + 1 + k \<le> 20480" using Suc.prems(3) by simp
      show "Q sb' v'" if "alloc_inv v' sb'" "\<And>b. b < 20480 \<Longrightarrow> allocd v' b = (b < a + 1 + k)"
          "\<And>i. 6 \<le> i \<Longrightarrow> v' i = v1 i" for v' sb'
        using that p(2) by (intro Suc.prems(4)) auto
    qed
    then show ?case by simp
  qed
qed

text \<open>C36. On a freshly formatted disk 57 allocations suffice to reach that state: the next block to be
  handed out is then block 89, which holds inode 500, the first one that \<open>mkdir\<close> uses.\<close>

theorem collision_after_57_blocks:
  assumes "disk_ok d s" "formatted (blocks d s) sb"
  shows "\<exists>sb' s'. allocate_times d 57 sb s = Some (sb', s') \<and> disk_ok d s' \<and> alloc_inv (blocks d s') sb' \<and>
    next_free (blocks d s') (inode_blk 500) \<and> (\<forall>n. inode_at (blocks d s') n = inode_at (blocks d s) n)"
proof -
  let ?v = "blocks d s"
  have blk: "inode_blk 500 = 89" by (simp add: inode_blk_def)
  have "dwp d (allocate_times d 57 sb) (\<lambda>sb' v. alloc_inv v sb' \<and> next_free v (inode_blk 500) \<and>
      (\<forall>n. inode_at v n = inode_at ?v n)) ?v"
    using assms(2) by (intro allocate_times_awp [where a = 32])
      (auto simp: formatted_def next_free_def blk intro: inode_at_cong)
  from dwp_run [OF this assms(1)] show ?thesis by auto
qed

theorem collision_after_57_blocks_witness:
  "\<exists>sb' s'. allocate_times mem_disk 57 fmt_sb fmt_state = Some (sb', s') \<and> next_free (blocks mem_disk s') 89"
  using collision_after_57_blocks [OF fmt_ok fmt_formatted] by (fastforce simp: inode_blk_def)

text \<open>C35. The bitmap does not reserve the blocks that hold the inodes of directories and files: when the
  next free block is the one that holds the inode \<open>m\<close>, in use and reported by \<open>getattr\<close>, then the next block
  that a growing file takes and owns is that block; it is filled with zeros, and \<open>getattr\<close> reports that
  \<open>m\<close> does not exist.\<close>

theorem growth_destroys_inode:
  assumes "disk_ok (fs_disk fs) s" "alloc_inv (blocks (fs_disk fs) s) (fs_sb fs)"
    "nlink (inode_at (blocks (fs_disk fs) s) m) \<noteq> 0" "next_free (blocks (fs_disk fs) s) (inode_blk m)"
    "unat (block_count i) < 10"
  shows "\<exists>sb' s0 s1 s2. fs_getattr fs (ucast m) s = Some ((ReplyAttr 1 (inode_to_attr (inode_at (blocks (fs_disk fs) s) m)), fs), s0) \<and>
    grow_loop (fs_disk fs) (block_count i + 1) (fs_sb fs) i s0 = Some ((Some (i\<lparr>
      direct_blocks := (direct_blocks i)[unat (block_count i) := of_nat (inode_blk m)], block_count := block_count i + 1\<rparr>), sb'), s1) \<and>
    fs_getattr (fs\<lparr>fs_sb := sb'\<rparr>) (ucast m) s1 = Some ((ReplyError ENOENT, fs\<lparr>fs_sb := sb'\<rparr>), s2)"
proof -
  let ?d = "fs_disk fs" and ?v = "blocks (fs_disk fs) s"
  let ?i' = "i\<lparr>direct_blocks := (direct_blocks i)[unat (block_count i) := of_nat (inode_blk m)], block_count := block_count i + 1\<rparr>"
  have m: "on_disk m" using assms(4) by (simp add: next_free_def on_disk_def)
  have "dwp ?d (fs_getattr fs (ucast m)) (\<lambda>r v. r = (ReplyAttr 1 (inode_to_attr (inode_at ?v m)), fs) \<and> v = ?v) ?v"
    unfolding fs_getattr_def [abs_def] using m assms(2,3)
    by (intro awp_bind read_inode_awp) (auto simp: ucast_up_down alloc_inv_def intro!: awp_rules)
  from dwp_run [OF this assms(1)] obtain s0 where
    a: "fs_getattr fs (ucast m) s = Some ((ReplyAttr 1 (inode_to_attr (inode_at ?v m)), fs), s0)" "disk_ok ?d s0" "blocks ?d s0 = ?v"
    by auto
  have "dwp ?d (grow_loop ?d (block_count i + 1) (fs_sb fs) i)
      (\<lambda>(r, sb') v. r = Some ?i' \<and> alloc_inv v sb' \<and> nlink (inode_at v m) = 0) ?v"
    by (rule grow_direct_awp [OF assms(2,4,5)]) (simp add: inode_at_zero_block)
  from dwp_run [OF this [folded a(3)] a(2)] obtain sb' s1 where
    g: "grow_loop ?d (block_count i + 1) (fs_sb fs) i s0 = Some ((Some ?i', sb'), s1)" "disk_ok ?d s1"
      "alloc_inv (blocks ?d s1) sb'" "nlink (inode_at (blocks ?d s1) m) = 0" by auto
  let ?fs = "fs\<lparr>fs_sb := sb'\<rparr>"
  from g m have "dwp ?d (fs_getattr ?fs (ucast m)) (\<lambda>r _. r = (ReplyError ENOENT, ?fs)) (blocks ?d s1)"
    unfolding fs_getattr_def [abs_def]
    by (intro awp_bind read_inode_awp) (auto simp: ucast_up_down alloc_inv_def intro!: awp_rules)
  from dwp_run [OF this g(2)] g(1) a(1) show ?thesis by auto
qed

text \<open>The instance: 140 allocations after the file 1000 was made, the next free block is that of its inode.\<close>

theorem growth_destroys_inode_witness:
  "\<exists>sb s i' sb' s0 s1 s2.
    fs_getattr (fmt_fs\<lparr>fs_sb := sb\<rparr>) 1000 s = Some ((ReplyAttr 1 (inode_to_attr mem_inode), fmt_fs\<lparr>fs_sb := sb\<rparr>), s0) \<and>
    grow_loop mem_disk 1 sb (mem_inode\<lparr>inode_no := 1006\<rparr>) s0 = Some ((Some i', sb'), s1) \<and> direct_blocks i' ! 0 = 172 \<and>
    fs_getattr (fmt_fs\<lparr>fs_sb := sb'\<rparr>) 1000 s1 = Some ((ReplyError ENOENT, fmt_fs\<lparr>fs_sb := sb'\<rparr>), s2)"
proof -
  have "dwp mem_disk (allocate_times mem_disk 140 fmt_sb) (\<lambda>sb v. alloc_inv v sb \<and> next_free v 172 \<and> inode_at v 1000 = mem_inode) file_vol"
    by (rule allocate_times_awp [OF file_alloc_inv, where a = 32])
      (auto simp: file_allocd next_free_def intro: inode_at_cong [THEN trans])
  from dwp_run [OF this file_state_ok] obtain sb s where
    1: "disk_ok mem_disk s" "alloc_inv (blocks mem_disk s) sb" "next_free (blocks mem_disk s) 172" "inode_at (blocks mem_disk s) 1000 = mem_inode"
    by auto
  let ?i = "mem_inode\<lparr>inode_no := 1006\<rparr>"
  let ?i' = "?i\<lparr>direct_blocks := (direct_blocks ?i)[unat (block_count ?i) := of_nat (inode_blk 1000)], block_count := block_count ?i + 1\<rparr>"
  let ?fs = "fmt_fs\<lparr>fs_sb := sb\<rparr>"
  have st: "disk_ok (fs_disk ?fs) s" "alloc_inv (blocks (fs_disk ?fs) s) (fs_sb ?fs)" "nlink (inode_at (blocks (fs_disk ?fs) s) 1000) \<noteq> 0"
      "next_free (blocks (fs_disk ?fs) s) (inode_blk 1000)" "unat (block_count ?i) < 10" using 1 by simp_all
  from growth_destroys_inode [OF st] obtain sb' s0 s1 s2 where
    r: "fs_getattr ?fs (ucast (1000 :: u32)) s = Some ((ReplyAttr 1 (inode_to_attr (inode_at (blocks (fs_disk ?fs) s) 1000)), ?fs), s0)"
      "grow_loop (fs_disk ?fs) (block_count ?i + 1) (fs_sb ?fs) ?i s0 = Some ((Some ?i', sb'), s1)"
      "fs_getattr (?fs\<lparr>fs_sb := sb'\<rparr>) (ucast (1000 :: u32)) s1 = Some ((ReplyError ENOENT, ?fs\<lparr>fs_sb := sb'\<rparr>), s2)" by blast
  have "fs_getattr ?fs 1000 s = Some ((ReplyAttr 1 (inode_to_attr mem_inode), ?fs), s0)" using r(1) 1(4) by simp
  moreover have "grow_loop mem_disk 1 sb ?i s0 = Some ((Some ?i', sb'), s1)" using r(2) by simp
  moreover have "direct_blocks ?i' ! 0 = 172" using mem_inode_sel(2) by (simp add: inode_wf_def)
  moreover have "fs_getattr (fmt_fs\<lparr>fs_sb := sb'\<rparr>) 1000 s1 = Some ((ReplyError ENOENT, fmt_fs\<lparr>fs_sb := sb'\<rparr>), s2)" using r(3) by simp
  ultimately show ?thesis by blast
qed

end
