(* ===== verification/Sizes.thy ===== *)
theory Sizes
  imports Server
begin

text \<open>
  Sizes and block counts over a run: a file has as many blocks as its contents need, a directory has a
  size of full blocks and never more entries than slots. This is shown of the specification, whose
  steps are simpler than the handlers, and carried over to the server by the refinement.
\<close>

definition node_sized :: "node \<Rightarrow> meta \<Rightarrow> bool" where
  "node_sized nd q = (case nd of
     File bs \<Rightarrow> unat (m_size q) = length bs \<and> unat (m_blocks q) = (length bs + 509) div 510 \<and> length bs \<le> 10200
   | Dir m \<Rightarrow> unat (m_size q) = 510 * unat (m_blocks q) \<and> card (dom m) \<le> 15 * unat (m_blocks q) \<and> unat (m_blocks q) \<le> 10)"

definition sized :: "spec_state \<Rightarrow> bool" where
  "sized a \<longleftrightarrow> dom (fst a) = dom (snd a) \<and> (\<forall>n nd q. fst a n = Some nd \<longrightarrow> snd a n = Some q \<longrightarrow> node_sized nd q)"

section \<open>Lemmas: the changes of one node\<close>

lemma sized_new: "node_sized (File []) file_meta" "node_sized (Dir [a \<mapsto> x, b \<mapsto> y]) dir_meta"
proof -
  have "card {a, b} \<le> 2" by (simp add: card_insert_if)
  then have "card (insert b {a}) \<le> 15" by (simp add: insert_commute)
  then show "node_sized (File []) file_meta" "node_sized (Dir [a \<mapsto> x, b \<mapsto> y]) dir_meta"
    by (simp_all add: node_sized_def file_meta_def dir_meta_def)
qed

lemma sized_chmod: "node_sized nd (chmod_meta q m) = node_sized nd q"
  by (cases m) (simp_all add: node_sized_def chmod_meta_def split: node.split)

lemma sized_write:
  assumes "node_sized (File bs) q" "off + length data \<le> 10200"
  shows "node_sized (File (write_at bs off data)) (write_meta (off + length data) q)"
proof -
  let ?n = "max (length bs) (off + length data)"
  have q: "unat (m_size q) = length bs" "unat (m_blocks q) = (length bs + 509) div 510" "length bs \<le> 10200"
    using assms(1) by (simp_all add: node_sized_def)
  have "max ((length bs + 509) div 510) ((off + length data + 509) div 510) = (?n + 509) div 510"
    by (rule max_of_mono) (simp add: mono_def div_le_mono)
  moreover have "?n \<le> 10200" "(?n + 509) div 510 \<le> 20" using q(3) assms(2) by (auto simp: max_def)
  moreover have "length (write_at bs off data) = ?n" by (rule length_write_at)
  ultimately show ?thesis by (simp add: node_sized_def write_meta_def q unat_of_nat)
qed

lemma sized_enter:
  assumes "node_sized (Dir m) q" "card (dom m) < 150"
  shows "node_sized (Dir (m(nm \<mapsto> x))) (enter_meta (card (dom m)) q)"
proof -
  have q: "unat (m_size q) = 510 * unat (m_blocks q)" "card (dom m) \<le> 15 * unat (m_blocks q)" "unat (m_blocks q) \<le> 10"
    using assms(1) by (simp_all add: node_sized_def)
  have c: "card (dom (m(nm \<mapsto> x))) \<le> card (dom m) + 1" by (cases "finite (dom m)") (auto simp: card_insert_if)
  show ?thesis
  proof (cases "card (dom m) = 15 * unat (m_blocks q)")
    case True
    with assms(2) have b: "unat (m_blocks q) < 10" by simp
    then have "unat (m_blocks q + 1) = unat (m_blocks q) + 1" by (simp add: unat_word_ariths)
    moreover from this b have "unat (ucast (m_blocks q + 1) * 510 :: u32) = 510 * (unat (m_blocks q) + 1)"
      by (simp add: unat_word_ariths unsigned_ucast_eq unsigned_take_bit_eq take_bit_nat_eq_self)
    ultimately show ?thesis using True b c by (simp add: node_sized_def enter_meta_def)
  next
    case False
    with q c show ?thesis by (simp add: node_sized_def enter_meta_def)
  qed
qed

lemma sized_remove: "node_sized (Dir m) q \<Longrightarrow> node_sized (Dir (m(nm := None))) q"
  using card_Diff1_le [of "dom m" nm] by (simp add: node_sized_def)

section \<open>Every step of the specification keeps the sizes\<close>

lemma sized_add:
  assumes sz: "sized (V, P)" and p: "V p = Some (Dir m)" "m nm = None" "card (dom m) < 150" and c: "V c = None"
    and nd: "node_sized nd q0" and V': "V' = V(c \<mapsto> nd, p \<mapsto> Dir (m(nm \<mapsto> x)))"
    and P': "P' = given V' (entered V V' p P) q0"
  shows "sized (V', P')"
proof -
  have d: "dom V = dom P" and old: "\<And>n nd q. V n = Some nd \<Longrightarrow> P n = Some q \<Longrightarrow> node_sized nd q"
    using sz by (auto simp: sized_def)
  obtain q where q: "P p = Some q" using d p(1) by blast
  have pc: "p \<noteq> c" and Pc: "P c = None" using p(1) c d by auto
  have ne: "V' p \<noteq> V p" using p(1,2) by (auto simp: V' dest: fun_cong [of _ _ nm])
  have P'': "P' n = (if n = p then Some (enter_meta (card (dom m)) q) else if n = c then Some q0 else P n)" for n
  proof -
    have "V n \<noteq> None \<longleftrightarrow> P n \<noteq> None" using d by blast
    with pc Pc q p(1) ne show ?thesis by (auto simp: P' given_def entered_def names_in_def V')
  qed
  have e: "node_sized (Dir (m(nm \<mapsto> x))) (enter_meta (card (dom m)) q)" by (rule sized_enter [OF old [OF p(1) q] p(3)])
  have "dom V' = dom P'" using d by (auto simp: P'' V' dom_def)
  moreover have "node_sized nd' q'" if "V' n = Some nd'" "P' n = Some q'" for n nd' q'
    using that e nd old pc by (auto simp: V' P'' split: if_splits)
  ultimately show ?thesis by (auto simp: sized_def)
qed

lemma sized_drop:
  assumes sz: "sized (V, P)" and p: "V p = Some (Dir m)" and V': "V' = V(c := None, p \<mapsto> Dir (m(nm := None)))"
    and P': "P' = P |` dom V'"
  shows "sized (V', P')"
proof -
  have d: "dom V = dom P" and old: "\<And>n nd q. V n = Some nd \<Longrightarrow> P n = Some q \<Longrightarrow> node_sized nd q"
    using sz by (auto simp: sized_def)
  have "dom V' \<subseteq> dom P" using d p by (auto simp: V')
  then have "dom V' = dom P'" by (auto simp: P')
  moreover have "node_sized nd q" if "V' n = Some nd" "P' n = Some q" for n nd q
  proof -
    have "P n = Some q" using that(2) by (auto simp: P' restrict_map_def split: if_splits)
    with that(1) old p sized_remove show ?thesis by (auto simp: V' split: if_splits)
  qed
  ultimately show ?thesis by (auto simp: sized_def)
qed

lemma sized_same: "sized (V, P) \<Longrightarrow> sized (V, P |` dom V)" "sized (V, P) \<Longrightarrow> sized (V, given V (entered V V p P) q)"
proof -
  assume sz: "sized (V, P)"
  then have d: "dom V = dom P" by (simp add: sized_def)
  then have "P |` dom V = P" "given V (entered V V p P) q = P"
    by (auto simp: given_def entered_def restrict_map_def fun_eq_iff domIff)
  with sz show "sized (V, P |` dom V)" "sized (V, given V (entered V V p P) q)" by simp_all
qed

lemma sized_upd:
  assumes "sized (V, P)" "V n = Some nd" "P n = Some q" "node_sized nd' q'"
  shows "sized (V(n \<mapsto> nd'), P(n \<mapsto> q'))"
  using assms by (auto simp: sized_def)

text \<open>\<open>create\<close> in a full directory makes a file without a name.\<close>

lemma sized_orphan:
  assumes sz: "sized (V, P)" and p: "V p \<noteq> None" and c: "V c = None" and nd: "node_sized nd q"
    and P': "P' = given (V(c \<mapsto> nd)) (entered V (V(c \<mapsto> nd)) p P) q"
  shows "sized (V(c \<mapsto> nd), P')"
proof -
  have d: "dom V = dom P" using sz by (simp add: sized_def)
  have "p \<noteq> c" "P c = None" using p c d by auto
  moreover have "V n \<noteq> None \<longleftrightarrow> P n \<noteq> None" for n using d by blast
  ultimately have "P' = P(c \<mapsto> q)" by (auto simp: P' given_def entered_def fun_eq_iff)
  with sz nd show ?thesis by (auto simp: sized_def)
qed

lemma sized_create:
  assumes sz: "sized (V, P)" and st: "abs_step V (Create p nm) r V'" "meta_step V P (Create p nm) r V' P'"
  shows "sized (V', P')"
proof -
  let ?nm = "os_str_or nm (ascii ''unknown'')"
  obtain m where m: "V (ucast p) = Some (Dir m)" using st by auto
  have P': "P' = given V' (entered V V' (ucast p) P) file_meta" using st by simp
  show ?thesis
  proof (cases "m ?nm = None \<and> next_ino V 1000 2000 \<noteq> None")
    case False
    with st m have "V' = V" by (auto split: if_splits option.splits)
    with P' sized_same [OF sz] show ?thesis by simp
  next
    case True
    then obtain c where c: "next_ino V 1000 2000 = Some c" "m ?nm = None" by auto
    note cN = next_ino_unused [OF c(1)]
    obtain q where "P (ucast p) = Some q" using sz m by (force simp: sized_def)
    with sz m have q: "node_sized (Dir m) q" by (auto simp: sized_def)
    show ?thesis
    proof (cases "card (dom m) = 150")
      case True
      with st m c have "V' = V(c \<mapsto> File [])" by simp
      with P' m cN sized_new(1) show ?thesis by (auto intro!: sized_orphan [OF sz])
    next
      case False
      with q have "card (dom m) < 150" by (auto simp: node_sized_def)
      moreover have "V' = add_node V (ucast p) m ?nm c 1 (File [])" using False st m c by auto
      ultimately show ?thesis using P' m c cN sized_new(1) by (intro sized_add [OF sz]) (auto simp: add_node_def)
    qed
  qed
qed

lemma sized_mkdir:
  assumes sz: "sized (V, P)" and st: "abs_step V (Mkdir p nm) r V'" "meta_step V P (Mkdir p nm) r V' P'"
  shows "sized (V', P')"
proof -
  let ?nm = "os_str_or nm (ascii ''unknown'')"
  obtain m where m: "V (ucast p) = Some (Dir m)" using st by auto
  have P': "P' = given V' (entered V V' (ucast p) P) dir_meta" using st by simp
  show ?thesis
  proof (cases "m ?nm = None \<and> next_ino V 500 900 \<noteq> None")
    case False
    with st m have "V' = V" by (auto split: if_splits option.splits)
    with P' sized_same [OF sz] show ?thesis by simp
  next
    case True
    then obtain c where c: "next_ino V 500 900 = Some c" "m ?nm = None" by auto
    with st m have "card (dom m) < 150"
      "V' = add_node V (ucast p) m ?nm c 2 (Dir [ascii ''.'' \<mapsto> (c, 2), ascii ''..'' \<mapsto> (ucast p, 2)])" by auto
    with P' m c next_ino_unused [OF c(1)] sized_new(2) show ?thesis
      by (intro sized_add [OF sz]) (auto simp: add_node_def)
  qed
qed

lemma sized_write_step:
  assumes sz: "sized (V, P)" and st: "abs_step V (Write ino off data) r V'" "meta_step V P (Write ino off data) r V' P'"
  shows "sized (V', P')"
proof (cases "data = [] \<or> 10200 < unat off + length data")
  case True
  with st sz show ?thesis by (auto split: if_splits)
next
  case False
  with st obtain bs q where q: "V (ucast ino) = Some (File bs)" "P (ucast ino) = Some q"
      "V' = V(ucast ino \<mapsto> File (write_at bs (unat off) data))" "P' = P(ucast ino \<mapsto> write_meta (unat off + length data) q)"
    by auto
  with sz have "node_sized (File bs) q" by (auto simp: sized_def)
  with sized_upd [OF sz q(1,2) sized_write] False q show ?thesis by simp
qed

lemma sized_step:
  assumes sz: "sized (V, P)" and st: "abs_step V req r V'" "meta_step V P req r V' P'"
  shows "sized (V', P')"
proof (cases req)
  case (Setattr ino m)
  then obtain q nd where q: "P (ucast ino) = Some q" "V (ucast ino) = Some nd" "V' = V" "P' = P(ucast ino \<mapsto> chmod_meta q m)"
    using st by auto
  with sz have "node_sized nd (chmod_meta q m)" by (auto simp: sized_def sized_chmod)
  from sized_upd [OF sz q(2,1) this] q show ?thesis by (simp add: fun_upd_idem [of V])
next
  case (Write ino off data)
  show ?thesis by (rule sized_write_step [OF sz st [unfolded Write]])
next
  case (Create p nm)
  show ?thesis by (rule sized_create [OF sz st [unfolded Create]])
next
  case (Mkdir p nm)
  show ?thesis by (rule sized_mkdir [OF sz st [unfolded Mkdir]])
next
  case (Unlink p nm)
  have "V' = V \<or> (\<exists>m c. V (ucast p) = Some (Dir m) \<and> V' = drop_node V (ucast p) m (os_str_or nm []) c)" "P' = P |` dom V'"
    using st Unlink by (auto split: option.splits if_splits)
  then show ?thesis using sized_same [OF sz] sized_drop [OF sz] by (auto simp: drop_node_def)
next
  case (Rmdir p nm)
  obtain m where m: "V (ucast p) = Some (Dir m)" using st Rmdir by auto
  have "V' = V \<or> (\<exists>c. V' = drop_node V (ucast p) m (os_str_or nm []) c)"
  proof (cases "m (os_str_or nm [])")
    case (Some x)
    with st Rmdir m show ?thesis by (cases x, cases "V (fst x)") (auto split: node.splits if_splits)
  qed (use st Rmdir m in simp)
  moreover have "P' = P |` dom V'" using st Rmdir by simp
  ultimately show ?thesis using m sized_same [OF sz] sized_drop [OF sz] by (auto simp: drop_node_def)
qed (use st sz in auto)

interpretation sizes: stable_steps spec_step sized
proof
  fix a b :: spec_state and l :: "request \<times> reply"
  assume "sized a" "spec_step a l b"
  then show "sized b"
    using sized_step [of "fst a" "snd a" "fst l" "snd l" "fst b" "snd b"] by (simp add: spec_step_def)
qed

section \<open>The sizes in every state of a run\<close>

lemma fresh_sized:
  assumes f: "formatted v sb" "only_root v"
  shows "sized (view v, meta_map v)"
proof -
  have m: "meta_map v = [1 \<mapsto> dir_meta]"
    using fresh_live [OF f] f(1) by (auto simp: meta_map_def meta_of_def dir_meta_def fun_eq_iff formatted_def)
  show ?thesis unfolding fresh_fs_ok(2) [OF f] m by (auto simp: sized_def sized_new(2))
qed

lemma reach_sized: "reach st \<Longrightarrow> sized (abs_of st)"
proof (induction rule: reach.induct)
  case (start fs s)
  then show ?case by (simp add: abs_of_def fresh_sized)
next
  case (serve fs s req r fs' s')
  from sizes.inv_step [OF serve.IH serves_ok(3) [OF reach_ok [OF serve.hyps(1)] serve.hyps(2)]] show ?case .
next
  case (restart fs s c h path s1 fd fs' s')
  from restart_same [OF reach_ok [OF restart(1)] restart(2,3)] restart(4,5) show ?case by (auto simp: abs_of_def)
qed

end
