(* ===== verification/Run_Properties.thy ===== *)
theory Run_Properties
  imports Formatted_Image Sizes
begin

text \<open>
  The main theorems about the file system as a server: what holds in every state of a run, and that
  every request has the reply and the effect of the abstract specification. A run starts on a formatted
  image on which no inode but the root is in use, and goes on with admissible requests (\<open>ok_request\<close>)
  and restarts (\<open>reach\<close>). The instances are at the formatted image of the memory
  host.
\<close>

section \<open>Every state of a run\<close>

text \<open>C1. In every state of a run (admissible requests and restarts, from a formatted image on which no
  inode but the root is in use) the whole file system is consistent: the allocator, every directory and file, the ownership of the blocks and
  the tree of the names.\<close>

theorem reachable_consistent:
  assumes "reach (fs, s)"
  shows "disk_ok (fs_disk fs) s \<and> fs_ok (blocks (fs_disk fs) s) (fs_sb fs)"
  using reach_ok [OF assms] by (simp add: state_ok_def)

theorem reachable_consistent_witness:
  "\<exists>r fs' s'. serves (fmt_fs, fmt_state) (Create 1 (ascii ''a'')) r (fs', s') \<and>
    fs_ok (blocks (fs_disk fs') s') (fs_sb fs')"
  using fmt_create reachable_consistent by metis

text \<open>C2. The file system refines its abstract specification: every run of admissible requests with their replies,
  errors included, is a run of the specification on the tree of directories and files and their
  attributes: modes, owners, link counts, sizes and block counts.\<close>

theorem requests_refine:
  assumes "reach (fs, s)" "is_run served (fs, s) ls (fs', s')"
  shows "is_run spec_step (view (blocks (fs_disk fs) s), meta_map (blocks (fs_disk fs) s)) ls
    (view (blocks (fs_disk fs') s'), meta_map (blocks (fs_disk fs') s'))"
  using srv.run_sim [OF reach_ok [OF assms(1)] assms(2)] by (simp add: abs_of_def)

theorem requests_refine_witness:
  "\<exists>r fs' s'. served (fmt_fs, fmt_state) (Create 1 (ascii ''a''), r) (fs', s') \<and>
    is_run spec_step ([1 \<mapsto> Dir [ascii ''.'' \<mapsto> (1, 2), ascii ''..'' \<mapsto> (1, 2)]], [1 \<mapsto> dir_meta])
      [(Create 1 (ascii ''a''), r)] (view (blocks mem_disk s'), meta_map (blocks mem_disk s'))"
proof -
  obtain r fs' s' where 1: "serves (fmt_fs, fmt_state) (Create 1 (ascii ''a'')) r (fs', s')" "fs_disk fs' = mem_disk"
    using fmt_create by metis
  then have "is_run served (fmt_fs, fmt_state) [(Create 1 (ascii ''a''), r)] (fs', s')" by (simp add: served_def)
  from requests_refine [OF fmt_reach this] have
    "is_run spec_step ([1 \<mapsto> Dir [ascii ''.'' \<mapsto> (1, 2), ascii ''..'' \<mapsto> (1, 2)]], [1 \<mapsto> dir_meta])
      [(Create 1 (ascii ''a''), r)] (view (blocks mem_disk s'), meta_map (blocks mem_disk s'))"
    by (simp only: fmt_fs_sel fmt_view fmt_metas 1(2))
  with 1(1) show ?thesis by (auto simp: served_def simp del: is_run.simps)
qed

text \<open>C4. Users cannot tell two file systems with the same tree and attributes apart: whatever the
  layout of their disks and their hosts, the same admissible requests lead to the same tree and attributes,
  and each request is answered alike, up to times and the order of listings: the two replies to
  \<open>readdir\<close> both list exactly the entries of the directory as it is at that point of the run.\<close>

theorem requests_deterministic:
  assumes "reach (fs1, s1)" "reach (fs2, s2)"
    and "view (blocks (fs_disk fs1) s1) = view (blocks (fs_disk fs2) s2)"
      "meta_map (blocks (fs_disk fs1) s1) = meta_map (blocks (fs_disk fs2) s2)"
    and "is_run served (fs1, s1) ls1 (fs1', s1')" "is_run served (fs2, s2) ls2 (fs2', s2')" "map fst ls1 = map fst ls2"
  shows "view (blocks (fs_disk fs1') s1') = view (blocks (fs_disk fs2') s2') \<and>
    meta_map (blocks (fs_disk fs1') s1') = meta_map (blocks (fs_disk fs2') s2') \<and>
    (\<forall>k < length ls1. \<exists>fs s. is_run served (fs1, s1) (take k ls1) (fs, s) \<and>
      alike (view (blocks (fs_disk fs) s)) (fst (ls1 ! k)) (snd (ls1 ! k)) (snd (ls2 ! k)))"
proof -
  note ok1 = reach_ok [OF assms(1)]
  have same: "abs_of (fs2, s2) = abs_of (fs1, s1)" using assms(3,4) by (simp add: abs_of_def)
  note r1 = srv.run_sim [OF ok1 assms(5)] and r2 = srv.run_sim [OF reach_ok [OF assms(2)] assms(6), unfolded same]
  have "abs_of (fs1', s1') = abs_of (fs2', s2')" using spec.run_det [OF r1 r2 assms(7)] .
  moreover have "\<exists>fs s. is_run served (fs1, s1) (take k ls1) (fs, s) \<and>
      alike (view (blocks (fs_disk fs) s)) (fst (ls1 ! k)) (snd (ls1 ! k)) (snd (ls2 ! k))" if k: "k < length ls1" for k
  proof -
    have len: "k < length ls2" using k map_eq_imp_length_eq [OF assms(7)] by simp
    note split = id_take_nth_drop [OF k, symmetric] id_take_nth_drop [OF len, symmetric]
    have "is_run served (fs1, s1) (take k ls1 @ drop k ls1) (fs1', s1')" using assms(5) by simp
    then obtain fs s where p: "is_run served (fs1, s1) (take k ls1) (fs, s)" unfolding is_run_append by auto
    have "alike (fst (abs_of (fs, s))) (fst (ls1 ! k)) (snd (ls1 ! k)) (snd (ls2 ! k))"
    proof (rule spec.run_same)
      show "is_run spec_step (abs_of (fs1, s1)) (take k ls1 @ ls1 ! k # drop (Suc k) ls1) (abs_of (fs1', s1'))"
        "is_run spec_step (abs_of (fs1, s1)) (take k ls2 @ ls2 ! k # drop (Suc k) ls2) (abs_of (fs2', s2'))"
        unfolding split by (fact r1 r2)+
      show "map fst (take k ls1) = map fst (take k ls2)" using assms(7) by (simp add: take_map [symmetric])
      show "fst (ls1 ! k) = fst (ls2 ! k)" using assms(7) k len by (metis nth_map)
    qed (rule srv.run_sim [OF ok1 p])
    with p show ?thesis by (auto simp: abs_of_def)
  qed
  ultimately show ?thesis by (simp add: abs_of_def)
qed

text \<open>The instance: the root directory is listed twice, with the host's file at different positions.\<close>

theorem requests_deterministic_witness:
  "\<exists>r r' fs fs' s s'. serves (fmt_fs, fmt_state) (Readdir 1 0 keep_all) r (fs, s) \<and>
    serves (fmt_fs, fmt_state\<lparr>mem_pos := 7\<rparr>) (Readdir 1 0 keep_all) r' (fs', s') \<and>
    alike (view fmt_vol) (Readdir 1 0 keep_all) r r' \<and> view (blocks (fs_disk fs) s) = view (blocks (fs_disk fs') s')"
proof -
  let ?s = "fmt_state\<lparr>mem_pos := 7\<rparr>" and ?q = "Readdir 1 0 keep_all"
  have im: "disk_image mem_disk ?s = disk_image mem_disk fmt_state" by (simp add: disk_image_def) (simp add: mem_host_def)
  then have b: "blocks mem_disk ?s = fmt_vol" by (simp add: blocks_def fun_eq_iff)
  have r2: "reach (fmt_fs, ?s)"
    using im fmt_ok fmt_formatted fmt_only_root by (intro reach.start) (simp_all add: b disk_ok_def)
  have q: "ok_request (blocks (fs_disk fmt_fs) fmt_state) ?q" "ok_request (blocks (fs_disk fmt_fs) ?s) ?q"
    using fmt_dir by (simp_all add: b live_dir_at_def)
  obtain r fs s where 1: "serves (fmt_fs, fmt_state) ?q r (fs, s)" by (rule serves_ex [OF reach_ok [OF fmt_reach] q(1)])
  obtain r' fs' s' where 2: "serves (fmt_fs, ?s) ?q r' (fs', s')" by (rule serves_ex [OF reach_ok [OF r2] q(2)])
  have "is_run served (fmt_fs, fmt_state) [(?q, r)] (fs, s)" "is_run served (fmt_fs, ?s) [(?q, r')] (fs', s')"
    using 1 2 by (simp_all add: served_def)
  from requests_deterministic [OF fmt_reach r2 _ _ this] b
  have "alike (view fmt_vol) ?q r r'" "view (blocks (fs_disk fs) s) = view (blocks (fs_disk fs') s')" by auto
  with 1 2 show ?thesis by blast
qed

text \<open>C3. Every admissible request is answered: no handler panics or runs forever, and the next state
  is again one of the run.\<close>

theorem requests_answered:
  assumes "reach (fs, s)" "ok_request (blocks (fs_disk fs) s) req"
  shows "\<exists>r fs' s'. handle fs req s = Some ((r, fs'), s') \<and> reach (fs', s')"
proof -
  from serves_ex [OF reach_ok [OF assms(1)] assms(2)] obtain r fs' s' where run: "serves (fs, s) req r (fs', s')" .
  with reach.serve [OF assms(1) run] show ?thesis by auto
qed

theorem requests_answered_witness:
  "\<exists>r fs' s'. handle fmt_fs (Create 1 (ascii ''a'')) fmt_state = Some ((r, fs'), s') \<and> reach (fs', s')"
  using requests_answered [OF fmt_reach, of "Create 1 (ascii ''a'')"] fmt_create_ok by simp

text \<open>C9. The names form a tree: in every state of a run each directory has a path of user-made names
  from the root.\<close>

theorem directories_rooted:
  assumes "reach (fs, s)" "is_dir_node (view (blocks (fs_disk fs) s)) n"
  shows "\<exists>names. set names \<inter> dots = {} \<and> walk (view (blocks (fs_disk fs) s)) 1 names = Some n"
  using reach_ok [OF assms(1)] assms(2) by (intro tree_rooted) (auto simp: state_ok_def fs_ok_def)

theorem directories_rooted_witness:
  "\<exists>names. set names \<inter> dots = {} \<and> walk (view fmt_vol) 1 names = Some 1"
  using directories_rooted [OF fmt_reach, of 1] by (simp add: fmt_view is_dir_node_def)

text \<open>C8. No block is shared and none is lost: in every state of a run a data block is marked as used
  in the bitmap exactly when exactly one live inode owns it.\<close>

theorem blocks_have_one_owner:
  assumes "reach (fs, s)" "x < 20480" "31 \<le> x"
  shows "allocd (blocks (fs_disk fs) s) x \<longleftrightarrow>
    (\<exists>!n. live (blocks (fs_disk fs) s) n \<and> x \<in> owned (blocks (fs_disk fs) s) n)"
proof -
  have ok: "store_ok (blocks (fs_disk fs) s) (fs_sb fs)"
    using reach_ok [OF assms(1)] by (auto simp: state_ok_def fs_ok_def)
  note o = store_okD [OF ok]
  show ?thesis
  proof
    assume "allocd (blocks (fs_disk fs) s) x"
    then show "\<exists>!n. live (blocks (fs_disk fs) s) n \<and> x \<in> owned (blocks (fs_disk fs) s) n"
      using o(5) [OF assms(2) _ assms(3)] o(4) by blast
  qed (use owned_data(3) [OF o(3)] in blast)
qed

theorem blocks_have_one_owner_witness:
  "allocd fmt_vol 31 \<longleftrightarrow> (\<exists>!n. live fmt_vol n \<and> 31 \<in> owned fmt_vol n)"
  using blocks_have_one_owner [OF fmt_reach, of 31] by simp

text \<open>C10. The type in a directory entry is right: in every state of a run each entry leads to a live
  inode, with type 2 if that is a directory and type 1 if it is a file.\<close>

theorem entry_types_right:
  assumes "reach (fs, s)" "live_dir_at (blocks (fs_disk fs) s) p"
    "dir_map (blocks (fs_disk fs) s) (inode_at (blocks (fs_disk fs) s) p) nm = Some (c, ty)"
  shows "live (blocks (fs_disk fs) s) c \<and> ty = (if is_dir_at (blocks (fs_disk fs) s) c then 2 else 1)"
proof -
  let ?v = "blocks (fs_disk fs) s"
  have ok: "tree_ok (view ?v)" using reach_ok [OF assms(1)] by (auto simp: state_ok_def fs_ok_def)
  note t = tree_okD [OF ok] and pv = view_dir [OF assms(2)]
  consider "nm = ascii ''.''" | "nm = ascii ''..''" | "nm \<notin> dots" by (auto simp: dots_def)
  then have "ty = (if is_dir_at ?v c then 2 else 1)"
  proof cases
    case 1
    with t(2) [OF pv] assms(2,3) show ?thesis by (simp add: live_dir_at_def)
  next
    case 2
    with t(3) [OF pv] assms(3) show ?thesis by (auto simp: parent_ok_def dir_node_view)
  next
    case 3
    then have "edge (view ?v) p nm c ty" using pv assms(3) by (simp add: edge_def)
    from t(4) [OF this] show ?thesis by (auto simp: child_ok_def dir_node_view file_node_view)
  qed
  with entry_live [OF ok assms(2,3)] show ?thesis by simp
qed

theorem entry_types_right_witness:
  "live fmt_vol 1 \<and> (2 :: byte) = (if is_dir_at fmt_vol 1 then 2 else 1)"
proof -
  have "dir_map fmt_vol (inode_at fmt_vol 1) (ascii ''.'') = Some (1, 2)" by (simp add: fmt_root)
  then show ?thesis using entry_types_right [OF fmt_reach, of 1] fmt_dir by simp
qed

text \<open>C11. Sizes and block counts agree: in every state of a run a file has as many blocks as its bytes
  need, 510 to a block and at most 20, and a directory has a size of full blocks, at most ten,
  with at most 15 entries in each. The number of blocks is what \<open>getattr\<close> reports.\<close>

theorem blocks_fit_size:
  assumes "reach (fs, s)" "live (blocks (fs_disk fs) s) n" "i = inode_at (blocks (fs_disk fs) s) n"
  shows "if is_dir_at (blocks (fs_disk fs) s) n
    then unat (isize i) = 510 * unat (block_count i) \<and> unat (block_count i) \<le> 10 \<and>
      card (dom (dir_map (blocks (fs_disk fs) s) i)) \<le> 15 * unat (block_count i)
    else unat (block_count i) = (unat (isize i) + 509) div 510 \<and> unat (block_count i) \<le> 20"
proof -
  let ?v = "blocks (fs_disk fs) s"
  have "sized (view ?v, meta_map ?v)" using reach_sized [OF assms(1)] by (simp add: abs_of_def)
  then have "node_sized (node_at ?v n) (meta_of i)"
    using view_Some [OF assms(2)] meta_map_live [OF assms(2)] by (auto simp: sized_def assms(3))
  then show ?thesis by (auto simp: node_sized_def node_at_def assms(3))
qed

theorem blocks_fit_size_witness:
  "is_dir_at fmt_vol 1 \<and> unat (isize (inode_at fmt_vol 1)) = 510 * unat (block_count (inode_at fmt_vol 1))"
  using blocks_fit_size [OF fmt_reach, of 1 "inode_at fmt_vol 1"] fmt_dir by (simp add: live_dir_at_def)

section \<open>Restarting\<close>

text \<open>C6. Everything survives a restart: mounting a file that holds the bytes which a run left
  succeeds, and shows the same directories and files with the same superblock; the restarted
  file system continues the run.\<close>

theorem restart_keeps_files:
  fixes fs :: "'s SimpleFS" and h :: "'s host"
  assumes "reach (fs, s)" "disk_image (fs_disk fs) s = Some c" "opens_image h path s1 fd c"
  shows "\<exists>fs' s'. fs_mount h path s1 = Some (fs', s') \<and> reach (fs', s') \<and> fs_sb fs' = fs_sb fs \<and>
    view (blocks (fs_disk fs') s') = view (blocks (fs_disk fs) s)"
proof -
  from restart_same [OF reach_ok [OF assms(1)] assms(2,3)] obtain fs' s' where
    1: "fs_mount h path s1 = Some (fs', s')" "fs_sb fs' = fs_sb fs" "blocks (fs_disk fs') s' = blocks (fs_disk fs) s"
    by auto
  with reach.restart [OF assms 1(1)] show ?thesis by auto
qed

theorem restart_keeps_files_witness:
  "\<exists>r fs1 s1 fs' s'. serves (fmt_fs, fmt_state) (Create 1 (ascii ''a'')) r (fs1, s1) \<and>
    fs_mount mem_host ''disk.img'' s1 = Some (fs', s') \<and> view (blocks (fs_disk fs') s') = view (blocks mem_disk s1)"
proof -
  obtain r fs1 s1 where 1: "serves (fmt_fs, fmt_state) (Create 1 (ascii ''a'')) r (fs1, s1)" "reach (fs1, s1)"
      "fs_disk fs1 = mem_disk"
    using fmt_create by metis
  have "disk_ok mem_disk s1" using reach_ok [OF 1(2)] 1(3) by (simp add: state_ok_def)
  then have "disk_image (fs_disk fs1) s1 = Some (mem_bytes s1)" "length (mem_bytes s1) < 2 ^ 63"
    using 1(3) by (auto simp: disk_ok_def disk_image_def) (auto simp: mem_host_def)
  from restart_keeps_files [OF 1(2) this(1) mem_opens [OF this(2)]] 1(1,3) show ?thesis by (metis)
qed

text \<open>C5. Data once written stay: after a successful \<open>write\<close>, whatever admissible requests follow other than
  \<open>write\<close> to the same file and its \<open>unlink\<close>, and over restarts, \<open>read\<close> of the same range returns
  the data that were written.\<close>

theorem written_data_survive:
  assumes "reach (fs, s)" "serves (fs, s) (Write ino off data) (ReplyWritten k) (fs1, s1)"
    "later (ucast ino) (fs1, s1) (fs2, s2)"
  shows "\<exists>s3. fs_read fs2 ino off (of_nat (length data)) s2 = Some ((ReplyData data, fs2), s3)"
proof -
  let ?n = "ucast ino :: u32" and ?v = "blocks (fs_disk fs) s" and ?v1 = "blocks (fs_disk fs1) s1"
  let ?v2 = "blocks (fs_disk fs2) s2"
  note ok = serves_ok [OF reach_ok [OF assms(1)] assms(2)]
  from assms(2) have req: "unat off + length data + 509 < 510 * 2 ^ 32" by auto
  obtain bs where v: "view ?v ?n = Some (File bs)" "length data \<le> 10200"
      "view ?v1 = (if data = [] then view ?v else (view ?v)(?n \<mapsto> File (write_at bs (unat off) data)))"
    using ok(2) by (auto split: if_splits)
  then obtain c where c: "view ?v1 ?n = Some (File c)" "read_at c (unat off) (length data) = data"
    using read_write_at [of bs "unat off" data] by (cases "data = []") (auto simp: read_at_def)
  from later_file [OF assms(3) ok(1)] c(1)
  have ok2: "disk_ok (fs_disk fs2) s2" "fs_ok ?v2 (fs_sb fs2)" "view ?v2 ?n = Some (File c)"
    by (auto simp: abs_of_def state_ok_def)
  then have n: "live ?v2 ?n" "\<not> is_dir_at ?v2 ?n" "file_contents ?v2 (inode_at ?v2 ?n) = c"
    by (auto simp: view_def node_at_def split: if_splits)
  note l = live_file [OF fs_okD(1) [OF ok2(2)] n(1,2)]
  have "0 \<le> sint off" using req by (intro sint_small) simp
  moreover have "unat (of_nat (length data) :: u32) = length data" using v(2) by (simp add: unat_of_nat)
  ultimately have "dwp (fs_disk fs2) (fs_read fs2 ino off (of_nat (length data))) (\<lambda>r v'. r = (ReplyData data, fs2)) ?v2"
    using l(1,3) n(3) c(2) by (intro fs_read_awp) simp_all
  from dwp_run [OF this ok2(1)] show ?thesis by auto
qed

theorem written_data_survive_witness:
  "\<exists>r fs s k fs1 s1 r' fs2 s2 s3. serves (fmt_fs, fmt_state) (Create 1 (ascii ''a'')) r (fs, s) \<and>
    serves (fs, s) (Write 1000 0 [1, 2, 3]) (ReplyWritten k) (fs1, s1) \<and>
    serves (fs1, s1) (Setattr 1000 (Some 0)) r' (fs2, s2) \<and>
    fs_read fs2 1000 0 3 s2 = Some ((ReplyData [1, 2, 3], fs2), s3)"
proof -
  obtain r fs s where 1: "serves (fmt_fs, fmt_state) (Create 1 (ascii ''a'')) r (fs, s)" "reach (fs, s)"
      "ok_request (blocks (fs_disk fs) s) (Write 1000 0 [1, 2, 3])"
    using fmt_create_write by metis
  note ok = reach_ok [OF 1(2)]
  obtain r1 fs1 s1 where w: "serves (fs, s) (Write 1000 0 [1, 2, 3]) r1 (fs1, s1)" by (rule serves_ex [OF ok 1(3)])
  note ok1 = serves_ok [OF ok w]
  then have r1: "\<exists>k. r1 = ReplyWritten k" and f: "view (blocks (fs_disk fs1) s1) 1000 \<noteq> None" by auto
  then have "ok_request (blocks (fs_disk fs1) s1) (Setattr 1000 (Some 0))" by (auto simp: view_def split: if_splits)
  then obtain r2 fs2 s2 where c: "serves (fs1, s1) (Setattr 1000 (Some 0)) r2 (fs2, s2)" by (rule serves_ex [OF ok1(1)])
  have "later (ucast (1000 :: u64)) (fs1, s1) (fs2, s2)" by (rule later.serve [OF later.now _ c]) simp
  from written_data_survive [OF 1(2) _ this] w r1 obtain s3 where
    "fs_read fs2 1000 0 3 s2 = Some ((ReplyData [1, 2, 3], fs2), s3)" by fastforce
  with 1(1) w r1 c show ?thesis by blast
qed

end
