(* ===== verification/Paths.thy ===== *)
theory Paths
  imports Requests
begin

text \<open>
  Resolving a path, \<open>path_resolve\<close> of \<open>src/src/directory.rs\<close>, on a consistent file system.
\<close>

section \<open>Resolving a path\<close>

text \<open>
  On a path whose components are valid names, the loop of \<open>path_resolve\<close> finds exactly the inode
  that the path means in the tree, with its parent; otherwise it reports an error.
\<close>

definition resolved :: "volume \<Rightarrow> u32 \<Rightarrow> str list \<Rightarrow> string + Inode \<times> Inode \<times> str \<Rightarrow> bool" where
  "resolved v n cs r \<longleftrightarrow> (case walk (view v) n cs of
     Some c \<Rightarrow> \<exists>q. walk (view v) n (butlast cs) = Some q \<and> r = Inr (inode_at v c, inode_at v q, last cs)
   | None \<Rightarrow> \<exists>e. r = Inl e)"

lemma resolved_step:
  assumes "view v n = Some (Dir m)" "m c = Some (k, ty)" "cs \<noteq> []" "resolved v k cs r"
  shows "resolved v n (c # cs) r"
  using assms by (auto simp: resolved_def split: option.splits)

text \<open>The part of the loop after a component \<open>c\<close> of the path was found; \<open>cs\<close> are those that follow.\<close>

lemma resolve_child_awp:
  assumes ok: "fs_ok v sb" and n: "live_dir_at v n" and m: "dir_map v (inode_at v n) c = Some (k, ty)"
    and rest: "cs \<noteq> [] \<Longrightarrow> live_dir_at v k \<Longrightarrow> dwp d (resolve_loop d sb (inode_at v k) cs) Q v"
    and Q: "\<And>r. resolved v n (c # cs) r \<Longrightarrow> Q r v"
  shows "dwp d (\<lambda>s. do {
      (child, s) \<leftarrow> read_inode d sb k s;
      if cs = [] then Some (Inr (child, inode_at v n, c), s)
      else if mode child AND S_IFDIR = 0 then Some (Inl ''not a directory'', s)
      else resolve_loop d sb child cs s }) Q v"
proof -
  note f = fs_okD [OF ok] and nv = view_dir [OF n]
  have lk: "live v k" by (rule entry_live [OF f(2) n m])
  have "dwp d (\<lambda>s. if cs = [] then Some (Inr (inode_at v k, inode_at v n, c), s)
      else if mode (inode_at v k) AND S_IFDIR = 0 then Some (Inl ''not a directory'', s)
      else resolve_loop d sb (inode_at v k) cs s) Q v"
  proof (cases cs)
    case Nil
    with nv m have "resolved v n (c # cs) (Inr (inode_at v k, inode_at v n, c))" by (simp add: resolved_def)
    with Nil Q show ?thesis by (auto intro: awp_return)
  next
    case (Cons a as)
    show ?thesis
    proof (cases "is_dir_at v k")
      case True
      with lk rest Cons show ?thesis by (simp add: is_dir_at_def live_dir_at_def del: resolve_loop.simps)
    next
      case False
      with nv m lk Cons have "resolved v n (c # cs) (Inl e)" for e
        by (simp add: resolved_def view_def node_at_def)
      with False Cons Q show ?thesis by (auto simp: is_dir_at_def intro: awp_return)
    qed
  qed
  moreover have "on_disk k" using lk by (intro valid_ino_blk(1)) (simp add: live_def)
  ultimately show ?thesis using f(4,5) by (intro awp_bind read_inode_awp) simp_all
qed

lemma resolve_loop_awp:
  assumes ok: "fs_ok v sb" and n: "live_dir_at v n" and cs: "cs \<noteq> []" "\<forall>c \<in> set cs. c \<noteq> [] \<and> length c \<le> 28"
    and Q: "\<And>r. resolved v n cs r \<Longrightarrow> Q r v"
  shows "dwp d (resolve_loop d sb (inode_at v n) cs) Q v"
  using n cs Q
proof (induction cs arbitrary: n)
  case Nil
  then show ?case by simp
next
  case (Cons c cs)
  note f = fs_okD [OF ok] and nv = view_dir [OF Cons.prems(1)]
  let ?m = "dir_map v (inode_at v n)"
  have n: "live v n" "is_dir_at v n" using Cons.prems(1) by (simp_all add: live_dir_at_def)
  have c: "\<not> (c = [] \<or> length c > MAX_NAME_LEN)" using Cons.prems(3) by auto
  have "dwp d (dir_find d (inode_at v n) c) (\<lambda>hit. dwp d (\<lambda>s. case hit of
          Some (de, _, _) \<Rightarrow> do {
            (child, s) \<leftarrow> read_inode d sb (entry_inode de) s;
            if cs = [] then Some (Inr (child, inode_at v n, c), s)
            else if mode child AND S_IFDIR = 0 then Some (Inl ''not a directory'', s)
            else resolve_loop d sb child cs s }
        | None \<Rightarrow> Some (Inl (if cs = [] then ''no such entry'' else ''no such directory''), s)) Q) v"
  proof (rule awp_mono [OF dir_find_law [OF live_dir(1) [OF f(1) n]]], goal_cases)
    case (1 hit v')
    then have v': "v' = v" and hit: "map_option (\<lambda>(e, _). (entry_inode e, entry_type e)) hit = ?m c" by auto
    show ?case
    proof (cases hit)
      case None
      then have "resolved v n (c # cs) (Inl e)" for e using hit nv by (simp add: resolved_def)
      with None Cons.prems(4) v' show ?thesis by (auto intro: awp_return)
    next
      case (Some x)
      then obtain e b o' where h: "hit = Some (e, b, o')" by (cases x) auto
      have m: "?m c = Some (entry_inode e, entry_type e)" using hit h by simp
      have "dwp d (resolve_loop d sb (inode_at v (entry_inode e)) cs) Q v" if "cs \<noteq> []" "live_dir_at v (entry_inode e)"
        using Cons.IH [OF that(2,1)] Cons.prems(3,4) resolved_step [OF nv m that(1)] by simp
      from resolve_child_awp [OF ok Cons.prems(1) m this Cons.prems(4)] show ?thesis by (simp add: h v')
    qed
  qed
  then show ?case
    unfolding ext [OF resolve_loop.simps(2)] if_not_P [OF c] by (intro awp_bind) simp
qed

lemma path_resolve_awp:
  assumes ok: "fs_ok v sb" and root: "root_inode sb = 1"
    and cs: "components path \<noteq> []" "\<forall>c \<in> set (components path). length c \<le> 28"
    and Q: "\<And>r. resolved v 1 (components path) r \<Longrightarrow> Q r v"
  shows "dwp d (path_resolve d sb path) Q v"
proof -
  note f = fs_okD [OF ok]
  have n: "live_dir_at v 1" using tree_okD(1) [OF f(2)] by (simp add: dir_node_view live_dir_at_def)
  have "path \<noteq> [0x2F]" using cs(1) by (auto simp: components_def)
  moreover have "\<forall>c \<in> set (components path). c \<noteq> [] \<and> length c \<le> 28" using cs(2) by (simp add: components_def)
  moreover have "on_disk 1" by (simp add: on_disk_def inode_blk_def)
  ultimately show ?thesis
    unfolding path_resolve_def [abs_def] root using cs(1) f(4,5) resolve_loop_awp [OF ok n cs(1), where Q = Q] Q
    by (intro awp_bind read_inode_awp) simp_all
qed

end
