(* ===== verification/Crowded_Root.thy ===== *)
theory Crowded_Root
  imports Formatted_Image
begin

text \<open>
  A run that fills the root directory: \<open>crowded v k\<close> says that the root is the only directory, has
  \<open>k\<close> names beside \<open>.\<close> and \<open>..\<close>, and that there are \<open>k\<close> files, all without blocks.
\<close>

definition crowded :: "volume \<Rightarrow> nat \<Rightarrow> bool" where
  "crowded v k \<longleftrightarrow> live_dir_at v 1 \<and> card (dom (dir_map v (inode_at v 1))) = k + 2 \<and> card {n. live v n} = k + 1 \<and>
     (\<forall>n. live v n \<and> n \<noteq> 1 \<longrightarrow> \<not> is_dir_at v n \<and> block_count (inode_at v n) = 0)"

lemma no_blocks:
  assumes "store_ok v sb" "live v n" "\<not> is_dir_at v n" "block_count (inode_at v n) = 0"
  shows "owned v n = {}"
proof -
  have "file_wf v (inode_at v n)" using live_file(1) [OF assms(1-3)] by (simp add: file_inv_def)
  with assms(3,4) show ?thesis by (simp add: owned_def file_all_def file_blocks_def file_wf_def)
qed

lemma crowded_room:
  assumes ok: "store_ok v sb" and cr: "crowded v k"
  shows "48 \<le> room v 89"
  using no_blocks [OF ok] cr by (intro room_root_only [OF ok]) (auto simp: crowded_def live_dir_at_def)

text \<open>An unused inode number and an unused name are left, as there are more of them than files.\<close>

lemma free_number:
  assumes "card {n. live v n} \<le> 200" "a = 1000 \<and> lim = 2000 \<or> a = 500 \<and> lim = 900"
  shows "first_free v a lim \<noteq> None"
proof
  assume none: "first_free v a lim = None"
  have "inj_on (of_nat :: nat \<Rightarrow> u32) {a..lim}"
    using assms(2) by (intro inj_onI) (auto simp: word_unat_eq_iff unat_of_nat)
  then have "card ((of_nat :: nat \<Rightarrow> u32) ` {a..lim}) = card {a..lim}" by (rule card_image)
  moreover have "(of_nat :: nat \<Rightarrow> u32) ` {a..lim} \<subseteq> {n. live v n}"
  proof clarify
    fix k assume "k \<in> {a..lim}"
    with none assms(2) show "live v (of_nat k)"
      by (auto simp: first_free_def find_None_iff live_def valid_ino_def unat_of_nat simp del: upt_Suc)
  qed
  ultimately have "card {a..lim} \<le> card {n. live v n}" using card_mono [of "{n. live v n}"] by (metis finite)
  with assms show False by auto
qed

definition some_name :: "nat \<Rightarrow> str" where
  "some_name i = [of_nat (i mod 128), of_nat (i div 128)]"

lemma some_name_ok: "i < 256 \<Longrightarrow> name_ok (some_name i)"
  by (simp add: some_name_def name_ok_def utf8_valid.simps(2) word_less_nat_alt unat_of_nat less_mult_imp_div_less)

lemma some_name_inj: "inj_on some_name {..<256}"
proof (rule inj_onI)
  fix i j assume ij: "i \<in> {..<256 :: nat}" "j \<in> {..<256}" "some_name i = some_name j"
  then have "i mod 128 = j mod 128" "i div 128 = j div 128"
    by (auto simp: some_name_def word_unat_eq_iff unat_of_nat less_mult_imp_div_less)
  then show "i = j" by (metis div_mult_mod_eq)
qed

lemma fresh_name:
  assumes "finite (dom m)" "card (dom m) \<le> 200"
  obtains nm where "name_ok nm" "m nm = None"
proof -
  have "card (some_name ` {..<256}) = 256" using card_image [OF some_name_inj] by simp
  with assms card_mono [OF assms(1), of "some_name ` {..<256}"] have "\<not> some_name ` {..<256} \<subseteq> dom m" by auto
  then obtain i where "i < 256" "some_name i \<notin> dom m" by auto
  with that some_name_ok show ?thesis by (auto simp: domIff)
qed

lemma name_os_str: "name_ok nm \<Longrightarrow> os_str_or nm e = nm"
  by (simp add: name_ok_def os_str_or_def)

lemma crowded_step:
  assumes ok: "store_ok v sb" and cr: "crowded v k" and k: "k < 148" and post: "create_post v 1 nm c r v' sb'"
    and nm: "dir_map v (inode_at v 1) nm = None" and c: "valid_ino c" "\<not> live v c"
  shows "crowded v' (Suc k)"
proof -
  let ?m = "dir_map v (inode_at v 1)"
  have st: "store_step v {1, c} v' sb'" and at: "\<exists>t. inode_at v' c = created_inode c t"
    using post by (auto simp: create_post_def)
  have vw: "view v' = (view v)(c \<mapsto> File [], 1 \<mapsto> Dir (?m(nm \<mapsto> (c, 1))))"
    using post cr k by (auto simp: create_post_def crowded_def split: if_splits)
  have c1: "c \<noteq> 1" using cr c by (auto simp: crowded_def live_dir_at_def)
  have live: "live v' n \<longleftrightarrow> n = c \<or> live v n" for n
  proof -
    have "view v' n = None \<longleftrightarrow> \<not> (n = c \<or> live v n)" using cr by (auto simp: vw view_def crowded_def live_dir_at_def)
    then show ?thesis by (auto simp: view_def split: if_splits)
  qed
  then have "{n. live v' n} = insert c {n. live v n}" by auto
  then have card: "card {n. live v' n} = Suc k + 1" using c(2) cr by (simp add: crowded_def)
  have "view v' 1 = Some (Dir (?m(nm \<mapsto> (c, 1))))" by (simp add: vw)
  then have d: "live_dir_at v' 1" "dir_map v' (inode_at v' 1) = ?m(nm \<mapsto> (c, 1))"
    by (auto simp: view_def node_at_def live_dir_at_def split: if_splits)
  have "finite (dom ?m)" by (rule finite_dir_map)
  with d(2) nm cr have cm: "card (dom (dir_map v' (inode_at v' 1))) = Suc k + 2"
    by (simp add: crowded_def card_insert_if domIff)
  have "\<not> is_dir_at v' n \<and> block_count (inode_at v' n) = 0" if "live v' n" "n \<noteq> 1" for n
  proof (cases "n = c")
    case True
    with at show ?thesis by (auto simp: is_dir_at_def created_inode_def S_IFDIR_def)
  next
    case False
    with that live have "live v n" by simp
    moreover from this have "inode_at v' n = inode_at v n" using False that(2) by (intro store_stepD(2) [OF st]) (auto simp: live_def)
    ultimately show ?thesis using cr that(2) by (simp add: crowded_def is_dir_at_def)
  qed
  with card d(1) cm show ?thesis by (simp add: crowded_def)
qed

lemma crowded_create:
  fixes fs :: "'s SimpleFS"
  assumes r: "reach (fs, s)" and cr: "crowded (blocks (fs_disk fs) s) k" and k: "k < 148"
  obtains fs' :: "'s SimpleFS" and s' where "reach (fs', s')" "crowded (blocks (fs_disk fs') s') (Suc k)"
proof -
  let ?v = "blocks (fs_disk fs) s"
  have ok: "disk_ok (fs_disk fs) s" "fs_ok ?v (fs_sb fs)" using reach_ok [OF r] by (auto simp: state_ok_def)
  note f = fs_okD [OF ok(2)]
  obtain nm where nm: "name_ok nm" "dir_map ?v (inode_at ?v 1) nm = None"
    using fresh_name [OF finite_dir_map, of ?v "inode_at ?v 1"] cr k by (auto simp: crowded_def)
  have p: "live_dir_at ?v 1" "live ?v 1" "is_dir_at ?v 1" using cr by (auto simp: crowded_def live_dir_at_def)
  have room: "0 < room ?v 89" using crowded_room [OF f(1) cr] by simp
  have num: "first_free ?v 1000 2000 \<noteq> None" using cr k by (intro free_number) (auto simp: crowded_def)
  have "dwp (fs_disk fs) (fs_create fs 1 nm) (\<lambda>(r, fs') v'. fs_disk fs' = fs_disk fs \<and> crowded v' (Suc k)) ?v"
    by (rule fs_create_awp)
       (use p f(1) room nm num crowded_step [OF f(1) cr k _ nm(2) first_free_fresh] in \<open>auto simp: name_os_str\<close>)
  from dwp_run [OF this ok(1)] obtain r fs' s' where
    1: "fs_create fs 1 nm s = Some ((r, fs'), s')" "crowded (blocks (fs_disk fs') s') (Suc k)" by auto
  have "serves (fs, s) (Create 1 nm) r (fs', s')"
    using 1(1) p(1) room nm(1) by (intro serves.request) (simp_all add: name_os_str)
  from that [OF reach.serve [OF \<open>reach (fs, s)\<close> this] 1(2)] show ?thesis .
qed

lemma crowded_fmt: "crowded fmt_vol 0"
proof -
  have "{n. live fmt_vol n} = {1}" using fresh_live [OF fmt_formatted fmt_only_root] by auto
  moreover have "card (dom (dir_map fmt_vol (inode_at fmt_vol 1))) = 2"
    by (simp add: fmt_root ascii_dot ascii_dotdot card_insert_if)
  ultimately show ?thesis using fmt_dir fresh_live [OF fmt_formatted fmt_only_root] by (simp add: crowded_def)
qed

lemma crowded_reach: "k \<le> 148 \<Longrightarrow> \<exists>fs s. reach (fs :: mem SimpleFS, s) \<and> crowded (blocks (fs_disk fs) s) k"
proof (induction k)
  case 0
  have "crowded (blocks (fs_disk fmt_fs) fmt_state) 0" using crowded_fmt by simp
  with fmt_reach show ?case by blast
next
  case (Suc k)
  then obtain fs :: "mem SimpleFS" and s where "reach (fs, s)" "crowded (blocks (fs_disk fs) s) k" by auto
  from crowded_create [OF this] Suc.prems show ?case by (metis Suc_le_lessD)
qed

end
