(* ===== verification/Removed_File.thy ===== *)
theory Removed_File
  imports Formatted_Image
begin

text \<open>
  A run in which a file is made, written and removed, and its block is given to a new directory:
  \<open>create\<close>, \<open>write\<close>, \<open>unlink\<close>, \<open>mkdir\<close>. The inode of the removed file still points to the block.
\<close>

lemma next_free_unique: "next_free v x \<Longrightarrow> next_free v y \<Longrightarrow> x = y"
  by (metis linorder_neqE_nat next_free_def)

lemma first_free_start: "\<not> live v 500 \<Longrightarrow> first_free v 500 900 = Some 500"
proof -
  assume "\<not> live v 500"
  then have "nlink (inode_at v (of_nat 500)) = 0" by (simp add: live_def valid_ino_def)
  moreover have "find P (x # xs) = Some x" if "P x" for P and x :: nat and xs using that by simp
  moreover have "[500..<Suc 900] = 500 # [Suc 500..<Suc 900]" by (rule upt_conv_Cons) simp
  ultimately show ?thesis unfolding first_free_def by metis
qed

lemma live_view_iff: "live v n \<longleftrightarrow> view v n \<noteq> None"
  by (simp add: view_def)

lemma live_view: "view v' = (view v)(c \<mapsto> x) \<Longrightarrow> live v' n \<longleftrightarrow> live v n \<or> n = c"
  by (simp add: live_view_iff)

lemma view_DirD:
  assumes "view v p = Some (Dir m)"
  shows "live_dir_at v p" "dir_map v (inode_at v p) = m"
  using assms by (auto simp: view_def node_at_def live_dir_at_def split: if_splits)

text \<open>The file after the \<open>write\<close> of one page: it has one block, and no free block lies before that.\<close>

definition one_page :: "volume \<Rightarrow> u32 \<Rightarrow> nat \<Rightarrow> bool" where
  "one_page v n x \<longleftrightarrow> unat (isize (inode_at v n)) = 510 \<and> file_blocks v (inode_at v n) = [x] \<and> owned v n = {x} \<and>
     (\<forall>y < x. allocd v y)"

lemma written_page:
  assumes w: "write_post 89 v n 0 (replicate 510 7) v' sb'" and inv: "file_inv v sb (inode_at v n)"
    and e: "block_count (inode_at v n) = 0" "\<not> is_dir_at v n" "file_contents v (inode_at v n) = []"
  shows "\<exists>x. one_page v' n x"
proof -
  let ?i = "inode_at v n" and ?i' = "inode_at v' n"
  note p = w [unfolded write_post_def]
  have inv': "file_inv v' sb' ?i'" using p by simp
  have m: "meta_of ?i' = write_meta 510 (meta_of ?i)" using p by simp
  from arg_cong [OF m, of m_blocks] arg_cong [OF m, of m_mode] e(1,2)
  have bc: "block_count ?i' = 1" and nd: "\<not> is_dir_at v' n"
    by (simp_all add: meta_of_def write_meta_def is_dir_at_def)
  have "length (file_contents v' ?i') = 510"
    using p e(3) by (simp add: write_at_def)
  with length_file_contents [OF inv'] have sz: "unat (isize ?i') = 510" by simp
  have "length (file_blocks v' ?i') = 1" by (simp add: file_blocks_def bc)
  then obtain x where x: "file_blocks v' ?i' = [x]" by (auto simp: length_Suc_conv)
  then have all: "file_all v' ?i' = [x]" by (simp add: file_all_def bc)
  have "file_all v ?i = []" by (simp add: file_all_def file_blocks_def e(1))
  moreover have "\<forall>x \<in> set (file_all v' ?i') - set (file_all v ?i). x < 89 \<and> \<not> allocd v x \<and> (\<forall>y < x. allocd v' y)"
    using w unfolding write_post_def by (elim conjE)
  ultimately have "\<forall>y < x. allocd v' y" by (simp add: all)
  with x sz all nd show ?thesis by (auto simp: one_page_def owned_def)
qed

text \<open>When the file is removed, its block is the next free one.\<close>

lemma removed_block:
  assumes ok: "store_ok v sb" "store_ok v' sb'" and pg: "one_page v n x"
    and l: "\<And>m. live v m \<longleftrightarrow> m = p \<or> m = n" "p \<noteq> n" "\<And>m. live v' m \<longleftrightarrow> m = p" and ow: "owned v' p = owned v p"
  shows "next_free v' x"
proof -
  note o = store_okD [OF ok(1)] and o' = store_okD [OF ok(2)]
  have x: "x \<in> owned v n" "\<And>y. y < x \<Longrightarrow> allocd v y" using pg by (auto simp: one_page_def)
  have x20: "x < 20480" "31 \<le> x" using owned_data [OF o(3) x(1)] l by auto
  have "x \<notin> owned v' p" using o(4) [of p n] l ow x(1) by auto
  then have free: "\<not> allocd v' x" using o'(5) [OF x20(1) _ x20(2)] l(3) by metis
  have "allocd v' y" if y: "y < x" for y
  proof (cases "y < 31")
    case True
    with o'(1) show ?thesis by (simp add: alloc_inv_def)
  next
    case False
    then obtain m where "live v m" "y \<in> owned v m" using o(5) [of y] x(2) [OF y] y x20(1) by auto
    moreover have "y \<notin> owned v n" using pg y by (simp add: one_page_def)
    ultimately have "y \<in> owned v' p" using l(1) ow by auto
    then show ?thesis using owned_data(3) [OF o'(3)] l(3) by blast
  qed
  with free x20 show ?thesis by (simp add: next_free_def)
qed

text \<open>The inode of the removed file is still that of a well-formed file once its block is in use again.\<close>

lemma stale_inode_inv:
  assumes inv: "file_inv v sb (inode_at v n)" and pg: "one_page v n x"
    and i: "i = (inode_at v n)\<lparr>nlink := 0\<rparr>" and inv': "alloc_inv v' sb'" "allocd v' x"
  shows "file_inv v' sb' i" "file_blocks v' i = [x]"
proof -
  let ?i = "inode_at v n"
  have wf: "file_wf v ?i" using inv by (simp add: file_inv_def)
  have x: "file_blocks v ?i = [x]" "unat (isize ?i) = 510" using pg by (auto simp: one_page_def)
  then have bc: "unat (block_count ?i) = 1" by (metis file_wf_facts(5) [OF wf] One_nat_def list.size(3,4) add_0)
  have b: "block_of v' i = block_of v' ?i" by (simp add: i block_of_def fun_eq_iff)
  have b0: "block_of v' ?i 0 = block_of v ?i 0" by (simp add: block_of_def)
  have blk: "file_blocks w i = [unat (the (block_of w i 0))]" for w using bc by (simp add: file_blocks_def i)
  have "[unat (the (block_of v ?i 0))] = [x]" using x(1) bc by (simp add: file_blocks_def)
  then show fb: "file_blocks v' i = [x]" by (simp add: blk b b0)
  have all: "file_all v' i = [x]" "file_all v ?i = [x]" using fb x(1) bc by (simp_all add: file_all_def i)
  have "file_wf v' i"
    using wf inv'(1) bc b b0 all by (auto simp: file_wf_def i inode_wf_def alloc_inv_def)
  with inv' all bc x(2) show "file_inv v' sb' i" by (auto simp: file_inv_def i)
qed

section \<open>The run\<close>

text \<open>The file 1000 has been made and written.\<close>

lemma fmt_written:
  obtains fs s x where "reach (fs, s)" "fs_disk fs = mem_disk" "file_inv (blocks mem_disk s) (fs_sb fs) (inode_at (blocks mem_disk s) 1000)"
    "one_page (blocks mem_disk s) 1000 x" "live (blocks mem_disk s) = (\<lambda>n. n = 1 \<or> n = 1000)" "live_dir_at (blocks mem_disk s) 1"
    "\<not> is_dir_at (blocks mem_disk s) 1000"
    "dir_map (blocks mem_disk s) (inode_at (blocks mem_disk s) 1) =
       [ascii ''.'' \<mapsto> (1, 2), ascii ''..'' \<mapsto> (1, 2), ascii ''a'' \<mapsto> (1000, 1)]"
proof -
  obtain r1 fs1 s1 where 0: "serves (fmt_fs, fmt_state) (Create 1 (ascii ''a'')) r1 (fs1, s1)" and 1: "reach (fs1, s1)" "fs_disk fs1 = mem_disk"
    "live (blocks mem_disk s1) = (\<lambda>n. n = 1 \<or> n = 1000)" "live_dir_at (blocks mem_disk s1) 1"
    "live_file_at (blocks mem_disk s1) 1000" "block_count (inode_at (blocks mem_disk s1) 1000) = 0"
    "file_contents (blocks mem_disk s1) (inode_at (blocks mem_disk s1) 1000) = []"
    "dir_map (blocks mem_disk s1) (inode_at (blocks mem_disk s1) 1) =
       [ascii ''.'' \<mapsto> (1, 2), ascii ''..'' \<mapsto> (1, 2), ascii ''a'' \<mapsto> (1000, 1)]"
    "48 \<le> room (blocks mem_disk s1) 89" by (rule fmt_create_file)
  let ?v = "blocks mem_disk s1" and ?data = "replicate 510 7 :: byte list"
  have ok: "disk_ok mem_disk s1" "fs_ok ?v (fs_sb fs1)" using reach_ok [OF 1(1)] 1(2) by (auto simp: state_ok_def)
  have f: "live ?v 1000" "\<not> is_dir_at ?v 1000" using 1(5) by (auto simp: live_file_at_def)
  note l = live_file [OF fs_okD(1) [OF ok(2)] f]
  let ?Q = "\<lambda>(r, fs') v. \<exists>sb'. fs' = fs1\<lparr>fs_sb := sb'\<rparr> \<and> write_post 89 ?v 1000 0 ?data v sb'"
  have "dwp (fs_disk fs1) (fs_write fs1 1000 0 ?data) ?Q ?v"
    using l 1(6,9) by (intro fs_write_ok_awp [where L = 89]) (auto simp: grow_need_def)
  then have "dwp mem_disk (fs_write fs1 1000 0 ?data) ?Q ?v" using 1(2) by simp
  from dwp_run [OF this ok(1)] obtain r sb s where
    2: "handle fs1 (Write 1000 0 ?data) s1 = Some ((r, fs1\<lparr>fs_sb := sb\<rparr>), s)" "write_post 89 ?v 1000 0 ?data (blocks mem_disk s) sb"
    by auto
  let ?v2 = "blocks mem_disk s"
  have "ok_request (blocks (fs_disk fs1) s1) (Write 1000 0 ?data)" using 1(2,5,6,9) by (simp add: grow_need_def)
  with 2(1) have "serves (fs1, s1) (Write 1000 0 ?data) r (fs1\<lparr>fs_sb := sb\<rparr>, s)" by (intro serves.request)
  then have rch: "reach (fs1\<lparr>fs_sb := sb\<rparr>, s)" by (rule reach.serve [OF 1(1)])
  have vw: "view ?v2 = (view ?v)(1000 \<mapsto> File (write_at [] 0 ?data))"
    using write_step(2) [OF fs_okD(1) [OF ok(2)] f order_refl 2(2)] 1(7) by simp
  obtain x where x: "one_page ?v2 1000 x" using written_page [OF 2(2) l(1) 1(6) f(2) 1(7)] by blast
  have lv: "live ?v2 = (\<lambda>n. n = 1 \<or> n = 1000)" using live_view [OF vw] 1(3) by (auto simp: fun_eq_iff)
  have "view ?v2 1 = Some (Dir [ascii ''.'' \<mapsto> (1, 2), ascii ''..'' \<mapsto> (1, 2), ascii ''a'' \<mapsto> (1000, 1)])"
    using view_dir [OF 1(4)] 1(8) vw by simp
  note d = view_DirD [OF this]
  have "\<not> is_dir_at ?v2 1000" using fun_cong [OF vw, of 1000] by (simp add: view_def node_at_def split: if_splits)
  with that [OF rch _ _ x lv d(1) _ d(2)] 1(2) 2(2) show ?thesis by (simp add: write_post_def)
qed

text \<open>The file has been removed again: the root is all that is left.\<close>

lemma fmt_removed:
  obtains fs s sb2 v2 x where "reach (fs, s)" "fs_disk fs = mem_disk" "file_inv v2 sb2 (inode_at v2 1000)" "one_page v2 1000 x"
    "inode_at (blocks mem_disk s) 1000 = (inode_at v2 1000)\<lparr>nlink := 0\<rparr>" "next_free (blocks mem_disk s) x"
    "live (blocks mem_disk s) = (\<lambda>n. n = 1)" "live_dir_at (blocks mem_disk s) 1"
    "dir_map (blocks mem_disk s) (inode_at (blocks mem_disk s) 1) = [ascii ''.'' \<mapsto> (1, 2), ascii ''..'' \<mapsto> (1, 2)]"
proof -
  obtain fs2 s2 x where 2: "reach (fs2, s2)" "fs_disk fs2 = mem_disk" "file_inv (blocks mem_disk s2) (fs_sb fs2) (inode_at (blocks mem_disk s2) 1000)"
    "one_page (blocks mem_disk s2) 1000 x" "live (blocks mem_disk s2) = (\<lambda>n. n = 1 \<or> n = 1000)" "live_dir_at (blocks mem_disk s2) 1"
    "\<not> is_dir_at (blocks mem_disk s2) 1000"
    "dir_map (blocks mem_disk s2) (inode_at (blocks mem_disk s2) 1) =
       [ascii ''.'' \<mapsto> (1, 2), ascii ''..'' \<mapsto> (1, 2), ascii ''a'' \<mapsto> (1000, 1)]" by (rule fmt_written)
  let ?v = "blocks mem_disk s2" and ?a = "ascii ''a''"
  have ok: "disk_ok mem_disk s2" "fs_ok ?v (fs_sb fs2)" using reach_ok [OF 2(1)] 2(2) by (auto simp: state_ok_def)
  have nm: "?a \<noteq> ascii ''.''" "?a \<noteq> ascii ''..''" using name_a(3) by (auto simp: dots_def)
  let ?Q = "\<lambda>(r, fs') v. \<exists>sb'. fs' = fs2\<lparr>fs_sb := sb'\<rparr> \<and> remove_post ?v 1 ?a 1000 v sb'"
  have "dwp (fs_disk fs2) (fs_unlink fs2 1 ?a) ?Q ?v"
    using ok(2) 2(5-8) by (intro fs_unlink_awp) (auto simp: fs_ok_def live_dir_at_def)
  then have "dwp mem_disk (fs_unlink fs2 1 ?a) ?Q ?v" using 2(2) by simp
  from dwp_run [OF this ok(1)] obtain r sb s where
    3: "handle fs2 (Unlink 1 ?a) s2 = Some ((r, fs2\<lparr>fs_sb := sb\<rparr>), s)" "remove_post ?v 1 ?a 1000 (blocks mem_disk s) sb" by auto
  let ?v3 = "blocks mem_disk s"
  have "ok_request (blocks (fs_disk fs2) s2) (Unlink 1 ?a)" using 2(2,6) name_a(3) by simp
  with 3(1) have "serves (fs2, s2) (Unlink 1 ?a) r (fs2\<lparr>fs_sb := sb\<rparr>, s)" by (intro serves.request)
  then have rch: "reach (fs2\<lparr>fs_sb := sb\<rparr>, s)" by (rule reach.serve [OF 2(1)])
  have ok3: "fs_ok ?v3 sb" using reach_ok [OF rch] 2(2) by (auto simp: state_ok_def)
  have p: "owned ?v3 1 = owned ?v 1" "inode_at ?v3 1000 = (inode_at ?v 1000)\<lparr>nlink := 0\<rparr>"
      "view ?v3 = (view ?v)(1000 := None, 1 \<mapsto> Dir ((dir_map ?v (inode_at ?v 1))(?a := None)))"
    using 3(2) by (simp_all add: remove_post_def)
  have "(dir_map ?v (inode_at ?v 1))(?a := None) = [ascii ''.'' \<mapsto> (1, 2), ascii ''..'' \<mapsto> (1, 2)]"
    unfolding 2(8) using nm by (auto simp: fun_eq_iff)
  then have "view ?v3 1 = Some (Dir [ascii ''.'' \<mapsto> (1, 2), ascii ''..'' \<mapsto> (1, 2)])" using p(3) by simp
  note d = view_DirD [OF this]
  have "live ?v3 n \<longleftrightarrow> n = 1" for n
    using fun_cong [OF p(3), of n] fun_cong [OF 2(5), of n] live_view_iff [of ?v3 n] live_view_iff [of ?v n]
    by (cases "n = 1"; cases "n = 1000") simp_all
  then have lv: "live ?v3 = (\<lambda>n. n = 1)" by (simp add: fun_eq_iff)
  have "next_free ?v3 x"
    by (rule removed_block [OF fs_okD(1) [OF ok(2)] fs_okD(1) [OF ok3] 2(4) _ _ _ p(1)]) (simp_all add: 2(5) lv)
  with that [OF rch _ 2(3,4) p(2) _ lv d] 2(2) show ?thesis by simp
qed

text \<open>A new directory, inode 500, has taken the block to which the inode 1000 still points.\<close>

lemma fmt_stale:
  obtains fs s b where "reach (fs, s)" "fs_disk fs = mem_disk" "nlink (inode_at (blocks mem_disk s) 1000) = 0"
    "file_inv (blocks mem_disk s) (fs_sb fs) (inode_at (blocks mem_disk s) 1000)"
    "file_blocks (blocks mem_disk s) (inode_at (blocks mem_disk s) 1000) = [unat b]"
    "live_dir_at (blocks mem_disk s) 500" "dir_blocks (inode_at (blocks mem_disk s) 500) = [b]"
    "view (blocks mem_disk s) 500 = Some (Dir [ascii ''.'' \<mapsto> (500, 2), ascii ''..'' \<mapsto> (1, 2)])"
proof -
  obtain fs3 s3 sb2 v2 x where 3: "reach (fs3, s3)" "fs_disk fs3 = mem_disk" "file_inv v2 sb2 (inode_at v2 1000)" "one_page v2 1000 x"
    "inode_at (blocks mem_disk s3) 1000 = (inode_at v2 1000)\<lparr>nlink := 0\<rparr>" "next_free (blocks mem_disk s3) x"
    "live (blocks mem_disk s3) = (\<lambda>n. n = 1)" "live_dir_at (blocks mem_disk s3) 1"
    "dir_map (blocks mem_disk s3) (inode_at (blocks mem_disk s3) 1) = [ascii ''.'' \<mapsto> (1, 2), ascii ''..'' \<mapsto> (1, 2)]"
    by (rule fmt_removed)
  let ?v = "blocks mem_disk s3" and ?a = "ascii ''a''"
  have ok: "disk_ok mem_disk s3" "fs_ok ?v (fs_sb fs3)" using reach_ok [OF 3(1)] 3(2) by (auto simp: state_ok_def)
  have st: "store_ok ?v (fs_sb fs3)" by (rule fs_okD(1) [OF ok(2)])
  have d: "live ?v 1" "is_dir_at ?v 1" using 3(8) by (auto simp: live_dir_at_def)
  have rm: "48 \<le> room ?v 89" using 3(7) by (intro room_root_only [OF st d]) simp
  have m: "dir_map ?v (inode_at ?v 1) ?a = None" "card (dom (dir_map ?v (inode_at ?v 1))) < 150"
    unfolding 3(9) using name_a(3) by (auto simp: dots_def card_insert_if)
  have ff: "first_free ?v 500 900 = Some 500" by (rule first_free_start) (simp add: 3(7))
  let ?Q = "\<lambda>(r, fs') v. \<exists>sb'. fs' = fs3\<lparr>fs_sb := sb'\<rparr> \<and> mkdir_post ?v 1 ?a 500 r v sb'"
  have "dwp (fs_disk fs3) (fs_mkdir fs3 1 ?a) ?Q ?v"
    using st d rm m ff by (intro fs_mkdir_awp) auto
  then have "dwp mem_disk (fs_mkdir fs3 1 ?a) ?Q ?v" using 3(2) by simp
  from dwp_run [OF this ok(1)] obtain r sb s where
    4: "handle fs3 (Mkdir 1 ?a) s3 = Some ((r, fs3\<lparr>fs_sb := sb\<rparr>), s)" "mkdir_post ?v 1 ?a 500 r (blocks mem_disk s) sb" by auto
  let ?v4 = "blocks mem_disk s"
  have "ok_request (blocks (fs_disk fs3) s3) (Mkdir 1 ?a)" using 3(2,8) rm m(2) by simp
  with 4(1) have "serves (fs3, s3) (Mkdir 1 ?a) r (fs3\<lparr>fs_sb := sb\<rparr>, s)" by (intro serves.request)
  then have rch: "reach (fs3\<lparr>fs_sb := sb\<rparr>, s)" by (rule reach.serve [OF 3(1)])
  have ok4: "store_ok ?v4 sb" using reach_ok [OF rch] 3(2) by (auto simp: state_ok_def fs_ok_def)
  obtain b t where b: "next_free ?v (unat b)" "inode_at ?v4 500 = made_inode 500 b t"
    and step: "store_step ?v {1, 500} ?v4 sb"
    and vw: "view ?v4 500 = Some (Dir [ascii ''.'' \<mapsto> (500, 2), ascii ''..'' \<mapsto> (1, 2)])"
    using 4(2) by (auto simp: mkdir_post_def)
  have bx: "unat b = x" by (rule next_free_unique [OF b(1) 3(6)])
  note dir = view_DirD(1) [OF vw]
  then have l4: "live ?v4 500" "is_dir_at ?v4 500" by (simp_all add: live_dir_at_def)
  have bl: "dir_blocks (inode_at ?v4 500) = [b]" by (simp add: b(2))
  have "allocd ?v4 x" using dir_inv_blocks(4) [OF live_dir(1) [OF ok4 l4]] bl bx by auto
  moreover have i4: "inode_at ?v4 1000 = (inode_at v2 1000)\<lparr>nlink := 0\<rparr>"
    using store_stepD(2) [OF step, of 1000] 3(5) by (simp add: valid_ino_def)
  ultimately have "file_inv ?v4 sb (inode_at ?v4 1000)" "file_blocks ?v4 (inode_at ?v4 1000) = [unat b]"
    using stale_inode_inv [OF 3(3,4) i4 store_okD(1) [OF ok4]] bx by simp_all
  with that [OF rch] 3(2) i4 dir bl vw show ?thesis by simp
qed

end
