(* ===== verification/Handler_Properties.thy ===== *)
theory Handler_Properties
  imports Paths Crowded_Root Removed_File
begin

text \<open>
  Theorems about single handlers and the start of the program, in the states of a run where they
  need one and in any state where they do not.
\<close>

section \<open>Names and directories\<close>

lemma no_empty_name:
  assumes "vol v" "dir_wf v i"
  shows "dir_map v i [] = None"
proof -
  have "entry_name (fst x) \<noteq> []" if x: "x \<in> set (dir_entries v i)" for x
  proof -
    have "unat (name_len (fst x)) \<noteq> 0" using x by (auto simp: dir_entries_def is_empty_def unat_eq_zero)
    with dir_entry_name [OF assms x] show ?thesis
      by (auto simp: name_str_def slice_range_def ascii_def split: if_splits)
  qed
  then have "find (\<lambda>x. entry_name (fst x) = []) (dir_entries v i) = None" by (auto simp: find_None_iff)
  then show ?thesis by (simp add: dir_map_def)
qed

lemma utf8_unknown: "utf8_valid (ascii ''unknown'')"
  by code_simp

text \<open>C17. What \<open>create\<close> has made, \<open>lookup\<close> finds: after a successful \<open>create\<close>, whose stored name has at
  most 28 bytes, the name leads to the inode that was reported, an empty regular file. A name that is not
  valid UTF-8 is stored as \<open>unknown\<close>: that name leads to the file, and \<open>lookup\<close> of the name
  that was given to \<open>create\<close> answers \<open>ENOENT\<close>.\<close>

theorem create_then_lookup:
  assumes "reach (fs, s)" "serves (fs, s) (Create parent name) (ReplyCreated ttl a gen fh fl) (fs1, s1)"
  shows "(\<exists>a' s2. fs_lookup fs1 parent (if utf8_valid name then name else ascii ''unknown'') s1 =
      Some ((ReplyEntry 1 a' 0, fs1), s2) \<and>
      attr_ino a' = attr_ino a \<and> attr_kind a' = FT_RegularFile \<and> attr_size a' = 0) \<and>
    (\<not> utf8_valid name \<longrightarrow> (\<exists>s2. fs_lookup fs1 parent name s1 = Some ((ReplyError ENOENT, fs1), s2)))"
proof -
  let ?d = "fs_disk fs1" and ?p = "ucast parent :: u32" and ?nm = "os_str_or name (ascii ''unknown'')"
  let ?v = "blocks (fs_disk fs) s" and ?v1 = "blocks (fs_disk fs1) s1"
  note ok = serves_ok [OF reach_ok [OF assms(1)] assms(2)]
  obtain m c where m: "view ?v ?p = Some (Dir m)" "view ?v c = None" "attr_for c (File []) a"
      "view ?v1 = add_node (view ?v) ?p m ?nm c 1 (File [])"
    using ok(2) next_ino_unused [of "view ?v" 1000 2000] by (auto split: if_splits option.splits)
  have pc: "?p \<noteq> c" using m(1,2) by auto
  have p1: "view ?v1 ?p = Some (Dir (m(?nm \<mapsto> (c, 1))))" "view ?v1 c = Some (File [])"
    using pc by (simp_all add: m(4) add_node_def)
  have ok1: "disk_ok ?d s1" "fs_ok ?v1 (fs_sb fs1)" using ok(1) by (auto simp: state_ok_def)
  have "is_dir_node (view ?v1) ?p" using p1 by (simp add: is_dir_node_def)
  then have d1: "live_dir_at ?v1 ?p" by (simp add: dir_node_view live_dir_at_def)
  have "dir_wf ?v1 (inode_at ?v1 ?p)"
    using live_dir(1) [OF fs_okD(1) [OF ok1(2)]] d1 by (simp add: live_dir_at_def dir_inv_def)
  from no_empty_name [OF fs_okD(4) [OF ok1(2)] this] have e: "(m(?nm \<mapsto> (c, 1))) [] = None"
    using view_dir [OF d1] p1(1) by simp
  have sem: "\<exists>r s2. fs_lookup fs1 parent n s1 = Some ((r, fs1), s2) \<and> abs_step (view ?v1) (Lookup parent n) r (view ?v1)" for n
    using dwp_run [OF lookup_same [OF ok1(2) d1, of n] ok1(1)] by auto
  have nm: "os_str_or (if utf8_valid name then name else ascii ''unknown'') [] = ?nm"
    using utf8_unknown by (simp add: os_str_or_def)
  have "\<exists>s2. fs_lookup fs1 parent name s1 = Some ((ReplyError ENOENT, fs1), s2)" if "\<not> utf8_valid name"
    using sem [of name] that p1(1) e by (auto simp: os_str_or_def)
  moreover have "\<exists>a' s2. fs_lookup fs1 parent (if utf8_valid name then name else ascii ''unknown'') s1 =
      Some ((ReplyEntry 1 a' 0, fs1), s2) \<and> attr_ino a' = attr_ino a \<and> attr_kind a' = FT_RegularFile \<and> attr_size a' = 0"
    using sem [of "if utf8_valid name then name else ascii ''unknown''"] p1 m(3) nm
    by (auto simp: attr_for_def unat_eq_zero simp del: if_split)
  ultimately show ?thesis by blast
qed

theorem create_then_lookup_witness:
  "\<exists>a fs1 s1 a' s2. serves (fmt_fs, fmt_state) (Create 1 (ascii ''a'')) (ReplyCreated 1 a 0 1000 0) (fs1, s1) \<and>
    fs_lookup fs1 1 (ascii ''a'') s1 = Some ((ReplyEntry 1 a' 0, fs1), s2) \<and> attr_ino a' = attr_ino a"
proof -
  obtain a fs' s' where 1: "serves (fmt_fs, fmt_state) (Create 1 (ascii ''a'')) (ReplyCreated 1 a 0 1000 0) (fs', s')"
    using fmt_create by metis
  have "utf8_valid (ascii ''a'')" using name_a(2) by (simp add: name_ok_def)
  with create_then_lookup [OF fmt_reach 1] obtain a' s2 where
    "fs_lookup fs' 1 (ascii ''a'') s' = Some ((ReplyEntry 1 a' 0, fs'), s2)" "attr_ino a' = attr_ino a" by (simp only: if_True) blast
  with 1 show ?thesis by blast
qed

lemma next_ino_range:
  assumes "next_ino V k lim = Some c" "lim < 2 ^ 32"
  shows "k \<le> unat c \<and> unat c \<le> lim"
proof -
  obtain j where j: "find (\<lambda>k. V (of_nat k) = None) [k..<Suc lim] = Some j" "c = of_nat j"
    using assms(1) by (auto simp: next_ino_def)
  then have "j \<in> set [k..<Suc lim]" unfolding find_Some_iff by (metis nth_mem)
  then have "k \<le> j" "j \<le> lim" by auto
  with assms(2) j(2) show ?thesis by (simp add: unat_of_nat take_bit_nat_eq_self)
qed

text \<open>C34. The inodes that \<open>create\<close> and \<open>mkdir\<close> make are not protected by the bitmap: the number in a
  successful reply is at least 150, so the inode is stored behind the 25 blocks that the superblock
  reserves for the inode table, and \<open>is_allocated\<close> reports its block as free.\<close>

theorem new_inodes_unprotected:
  assumes "reach (fs, s)" "serves (fs, s) req r (fs1, s1)"
    "(\<exists>nm fh. req = Create parent nm \<and> r = ReplyCreated 1 a 0 fh 0) \<or> (\<exists>nm. req = Mkdir parent nm \<and> r = ReplyEntry 1 a 0)"
  shows "150 \<le> unat (attr_ino a) \<and>
    (\<exists>b off s2. inode_block_location (fs_sb fs1) (ucast (attr_ino a)) = (b, off) \<and>
      data_start (fs_sb fs1) \<le> b \<and> unat b < 20480 \<and>
      is_allocated (fs_disk fs1) (fs_sb fs1) b s1 = Some (False, s2))"
proof -
  let ?v1 = "blocks (fs_disk fs1) s1"
  note st = serves_ok [OF reach_ok [OF assms(1)] assms(2)]
  have ok: "disk_ok (fs_disk fs1) s1" "fs_ok ?v1 (fs_sb fs1)" using st(1) by (auto simp: state_ok_def)
  note f = fs_okD [OF ok(2)]
  have new: "\<exists>c nd. 500 \<le> unat c \<and> unat c \<le> 2000 \<and> attr_for c nd a"
    using assms(3)
  proof
    assume "\<exists>nm fh. req = Create parent nm \<and> r = ReplyCreated 1 a 0 fh 0"
    with st(2) obtain c nd where "next_ino (view (blocks (fs_disk fs) s)) 1000 2000 = Some c" "attr_for c nd a"
      by (auto split: if_splits option.splits)
    with next_ino_range [OF this(1)] show ?thesis by force
  next
    assume "\<exists>nm. req = Mkdir parent nm \<and> r = ReplyEntry 1 a 0"
    with st(2) obtain c nd where "next_ino (view (blocks (fs_disk fs) s)) 500 900 = Some c" "attr_for c nd a"
      by (auto split: if_splits option.splits)
    with next_ino_range [OF this(1)] show ?thesis by force
  qed
  then obtain c nd where c: "500 \<le> unat c" "unat c \<le> 2000" "attr_for c nd a" by blast
  define k where "k = unat c"
  note k = k_def [symmetric]
  have "unat (attr_ino a) = k" using c(3) using c(2,3) by (simp add: attr_for_def unsigned_ucast_eq k take_bit_nat_eq_self)
  moreover have "ucast (attr_ino a) = c" by (rule attr_for_ino [OF c(3)])
  moreover obtain b off where l: "inode_block_location (fs_sb fs1) c = (b, off)" by (cases "inode_block_location (fs_sb fs1) c")
  moreover have n: "on_disk c" "unat b = 6 + k div 6"
    using k c(2) l inode_location [OF f(5), of c] by (auto simp: on_disk_def inode_blk_def)
  moreover have bk: "89 \<le> unat b" "unat b < 20480" using n(2) c(1,2) by (auto simp: k)
  moreover have "data_start (fs_sb fs1) \<le> b" using f(5) bk(1) by (simp add: sb_layout_def word_le_nat_alt)
  moreover have "\<exists>s2. is_allocated (fs_disk fs1) (fs_sb fs1) b s1 = Some (False, s2)"
  proof -
    have "\<not> allocd ?v1 (unat b)" using store_okD(2) [OF f(1)] bk by (auto simp: low_use_def)
    then have "dwp (fs_disk fs1) (is_allocated (fs_disk fs1) (fs_sb fs1) b) (\<lambda>r v. r = False) ?v1"
      using f(4) bk(2) by (intro is_allocated_awp) auto
    from dwp_run [OF this ok(1)] show ?thesis by auto
  qed
  ultimately show ?thesis using c(1) k by auto
qed

theorem new_inodes_unprotected_witness:
  "\<exists>a fs1 s1 b off s2. serves (fmt_fs, fmt_state) (Create 1 (ascii ''a'')) (ReplyCreated 1 a 0 1000 0) (fs1, s1) \<and>
    inode_block_location (fs_sb fs1) (ucast (attr_ino a)) = (b, off) \<and>
    is_allocated (fs_disk fs1) (fs_sb fs1) b s1 = Some (False, s2)"
proof -
  obtain a fs' s' where 1: "serves (fmt_fs, fmt_state) (Create 1 (ascii ''a'')) (ReplyCreated 1 a 0 1000 0) (fs', s')"
    using fmt_create by metis
  with new_inodes_unprotected [OF fmt_reach 1, of 1 a] show ?thesis by blast
qed

text \<open>C22. \<open>readdir\<close> lists a directory completely and can be resumed: there is one listing that holds each
  entry of the directory exactly once, and a call with any offset hands the listing from that
  position on to the framework's buffer, entry \<open>k\<close> with the offset \<open>k + 1\<close> of its successor,
  until the buffer is full.\<close>

theorem readdir_lists_directory:
  assumes "reach (fs, s)" "live_dir_at (blocks (fs_disk fs) s) (ucast ino)"
  shows "\<exists>es. distinct (map (\<lambda>(c, ty, nm). nm) es) \<and>
    (\<forall>c ty nm. (c, ty, nm) \<in> set es \<longleftrightarrow>
      dir_map (blocks (fs_disk fs) s) (inode_at (blocks (fs_disk fs) s) (ucast ino)) nm = Some (c, ty)) \<and>
    (\<forall>add off r. \<exists>s'. fs_readdir add fs ino off r s =
        Some (Inr (feed add (int (nat (sint off))) (drop (nat (sint off)) es) r), s') \<and>
      disk_ok (fs_disk fs) s' \<and> blocks (fs_disk fs) s' = blocks (fs_disk fs) s)"
proof -
  let ?d = "fs_disk fs" and ?v = "blocks (fs_disk fs) s"
  let ?i = "inode_at ?v (ucast ino)"
  have ok: "disk_ok ?d s" "fs_ok ?v (fs_sb fs)" using reach_ok [OF assms(1)] by (auto simp: state_ok_def)
  have n: "live ?v (ucast ino)" and nd: "is_dir_at ?v (ucast ino)" using assms(2) by (simp_all add: live_dir_at_def)
  note l = listing_map [OF live_dir(1) [OF fs_okD(1) [OF ok(2)] n nd]]
  have run: "\<exists>s'. fs_readdir add fs ino off r s = Some (Inr (feed add (int (nat (sint off))) (drop (nat (sint off)) (listing ?v ?i)) r), s') \<and>
      disk_ok ?d s' \<and> blocks ?d s' = ?v" for add off r
    using dwp_run [OF readdir_awp [OF fs_okD(1) [OF ok(2)] n, where Q = "\<lambda>x v. v = ?v \<and>
        x = Inr (feed add (int (nat (sint off))) (drop (nat (sint off)) (listing ?v ?i)) r)"] ok(1)] nd by auto
  show ?thesis by (rule exI [of _ "listing ?v ?i"]) (intro conjI allI l run)
qed

lemma feed_names: "feed (\<lambda>r c k ty nm. (False, r @ [nm])) k es r = r @ map (\<lambda>(c, ty, nm). nm) es"
  by (induction es arbitrary: k r) auto

theorem readdir_lists_directory_witness:
  "\<exists>ns s'. fs_readdir (\<lambda>r c k ty nm. (False, r @ [nm])) fmt_fs 1 0 [] fmt_state = Some (Inr ns, s') \<and>
    set ns = {ascii ''.'', ascii ''..''}"
proof -
  have d: "live_dir_at (blocks (fs_disk fmt_fs) fmt_state) (ucast (1 :: u64))" using fmt_dir by simp
  from readdir_lists_directory [OF fmt_reach d] show ?thesis
    unfolding fmt_fs_sel
  proof (elim exE conjE)
    fix es :: "(u32 \<times> byte \<times> str) list"
    assume es: "\<forall>c ty nm. (c, ty, nm) \<in> set es \<longleftrightarrow> dir_map fmt_vol (inode_at fmt_vol (ucast (1 :: u64))) nm = Some (c, ty)"
      and run: "\<forall>add off (r :: str list). \<exists>s'. fs_readdir add fmt_fs 1 off r fmt_state =
        Some (Inr (feed add (int (nat (sint off))) (drop (nat (sint off)) es) r), s') \<and>
        disk_ok mem_disk s' \<and> blocks mem_disk s' = fmt_vol"
    have "set (map (\<lambda>(c, ty, nm). nm) es) = dom (dir_map fmt_vol (inode_at fmt_vol 1))"
      using es by (force simp: dom_def)
    then have "set (map (\<lambda>(c, ty, nm). nm) es) = {ascii ''.'', ascii ''..''}" by (auto simp: fmt_root(1))
    with run [rule_format, of "\<lambda>r c k ty nm. (False, r @ [nm])" 0 "[]"] show ?thesis by (auto simp: feed_names)
  qed
qed

text \<open>C16. \<open>path_resolve\<close> of a path with valid components is the walk through the tree: it returns the
  inode at the end of the path with that of its parent and the last component, or an error
  exactly when the path leads nowhere.\<close>

theorem path_resolve_walks:
  assumes "reach (fs, s)" "root_inode (fs_sb fs) = 1" "components path \<noteq> []" "\<forall>c \<in> set (components path). length c \<le> 28"
  shows "\<exists>r s'. path_resolve (fs_disk fs) (fs_sb fs) path s = Some (r, s') \<and>
    blocks (fs_disk fs) s' = blocks (fs_disk fs) s \<and>
    (case walk (view (blocks (fs_disk fs) s)) 1 (components path) of
       None \<Rightarrow> \<exists>e. r = Inl e
     | Some c \<Rightarrow> \<exists>q. walk (view (blocks (fs_disk fs) s)) 1 (butlast (components path)) = Some q \<and>
         r = Inr (inode_at (blocks (fs_disk fs) s) c, inode_at (blocks (fs_disk fs) s) q, last (components path)))"
proof -
  let ?d = "fs_disk fs" and ?v = "blocks (fs_disk fs) s"
  have ok: "disk_ok ?d s" "fs_ok ?v (fs_sb fs)" using reach_ok [OF assms(1)] by (auto simp: state_ok_def)
  have "dwp ?d (path_resolve ?d (fs_sb fs) path) (\<lambda>r v. v = ?v \<and> resolved ?v 1 (components path) r) ?v"
    by (rule path_resolve_awp [OF ok(2) assms(2-4)]) simp
  from dwp_run [OF this ok(1)] show ?thesis by (auto simp: resolved_def)
qed

theorem path_resolve_walks_witness:
  "\<exists>s'. path_resolve mem_disk fmt_sb (ascii ''/.'') fmt_state =
    Some (Inr (inode_at fmt_vol 1, inode_at fmt_vol 1, ascii ''.''), s')"
proof -
  have c: "components (ascii ''/.'') = [ascii ''.'']" by code_simp
  have "root_inode (fs_sb fmt_fs) = 1" using fmt_formatted by (simp add: formatted_def)
  from path_resolve_walks [OF fmt_reach this, of "ascii ''/.''"] show ?thesis
    by (simp add: c fmt_view ascii_dot ascii_dotdot) blast
qed

text \<open>C28. A full directory: \<open>mkdir\<close> of a new name in a directory that already has 150 entries panics, where
  \<open>create\<close> replies \<open>ENOSPC\<close>; such a directory arises in a run of 148 \<open>create\<close> requests.\<close>

theorem mkdir_panics_full_directory:
  assumes "reach (fs, s)" "view (blocks (fs_disk fs) s) (ucast parent) = Some (Dir m)" "card (dom m) = 150"
    "name_ok (os_str_or name (ascii ''unknown''))" "m (os_str_or name (ascii ''unknown'')) = None"
    "2 \<le> room (blocks (fs_disk fs) s) 89" "next_ino (view (blocks (fs_disk fs) s)) 500 900 \<noteq> None"
  shows "fs_mkdir fs parent name s = None"
proof -
  let ?v = "blocks (fs_disk fs) s" and ?p = "ucast parent :: u32"
  have ok: "disk_ok (fs_disk fs) s" "store_ok ?v (fs_sb fs)" using reach_ok [OF assms(1)] by (auto simp: state_ok_def fs_ok_def)
  have p: "live ?v ?p" "is_dir_at ?v ?p" "m = dir_map ?v (inode_at ?v ?p)"
    using assms(2) by (auto simp: view_def node_at_def split: if_splits)
  obtain k where k: "first_free ?v 500 900 = Some k" using assms(7) by (auto simp: next_ino_eq)
  have "dpanics (fs_disk fs) (fs_mkdir fs parent name) ?v"
    using assms(3-6) p(3) by (intro fs_mkdir_panics [OF ok(2) p(1,2) _ _ _ _ k]) simp_all
  then show ?thesis by (rule dpanics_run [OF _ ok(1)])
qed

theorem mkdir_panics_full_directory_witness:
  "\<exists>(fs :: mem SimpleFS) s nm. reach (fs, s) \<and> name_ok nm \<and> fs_mkdir fs 1 nm s = None"
proof -
  obtain fs :: "mem SimpleFS" and s where 1: "reach (fs, s)" "crowded (blocks (fs_disk fs) s) 148"
    using crowded_reach [of 148] by auto
  let ?v = "blocks (fs_disk fs) s"
  let ?m = "dir_map ?v (inode_at ?v 1)"
  have ok: "store_ok ?v (fs_sb fs)" using reach_ok [OF 1(1)] by (auto simp: state_ok_def fs_ok_def)
  have d: "view ?v 1 = Some (Dir ?m)" "card (dom ?m) = 150" "card {n. live ?v n} \<le> 200"
    using 1(2) view_dir [of ?v 1] by (simp_all add: crowded_def)
  obtain nm where nm: "name_ok nm" "?m nm = None" using fresh_name [OF finite_dir_map, of ?v "inode_at ?v 1"] d(2) by auto
  have "next_ino (view ?v) 500 900 \<noteq> None" using free_number [OF d(3), of 500 900] by (simp add: next_ino_eq)
  with nm d crowded_room [OF ok 1(2)] have "fs_mkdir fs 1 nm s = None"
    by (intro mkdir_panics_full_directory [OF 1(1), where m = ?m]) (simp_all add: name_os_str)
  with 1(1) nm(1) show ?thesis by blast
qed

section \<open>Permissions\<close>

text \<open>\<open>chmod\<close>, the part of \<open>setattr\<close> that the code implements: the nine permission bits are replaced,
  the type bits are kept, the set-id and sticky bits are cleared, and no other inode, name or
  contents change.\<close>

theorem setattr_changes_mode:
  assumes "reach (fs, s)" "live (blocks (fs_disk fs) s) (ucast ino)"
  shows "\<exists>a s'. fs_setattr fs ino (Some md) s = Some ((ReplyAttr 1 a, fs), s') \<and>
    mode (inode_at (blocks (fs_disk fs) s') (ucast ino)) =
      (mode (inode_at (blocks (fs_disk fs) s) (ucast ino)) AND 0xF000) OR ucast (md AND 511) \<and>
    attr_perm a = mode (inode_at (blocks (fs_disk fs) s') (ucast ino)) \<and>
    (\<forall>n. valid_ino n \<and> n \<noteq> ucast ino \<longrightarrow> inode_at (blocks (fs_disk fs) s') n = inode_at (blocks (fs_disk fs) s) n) \<and>
    view (blocks (fs_disk fs) s') = view (blocks (fs_disk fs) s)"
proof -
  let ?d = "fs_disk fs" and ?v = "blocks (fs_disk fs) s" and ?n = "ucast ino :: u32"
  have ok: "disk_ok ?d s" "fs_ok ?v (fs_sb fs)" using reach_ok [OF assms(1)] by (auto simp: state_ok_def)
  note f = fs_okD [OF ok(2)]
  have nv: "valid_ino ?n" "on_disk ?n" using assms(2) valid_ino_blk(1) by (auto simp: live_def)
  let ?Q = "\<lambda>r v. \<exists>t. r = (ReplyAttr 1 (inode_to_attr (chmod_of (inode_at ?v ?n) (Some md) t)), fs) \<and>
    v = put_inode ?v (chmod_of (inode_at ?v ?n) (Some md) t)"
  have "dwp ?d (fs_setattr fs ino (Some md)) ?Q ?v"
    using f(4,5) nv by (intro fs_setattr_awp) auto
  from dwp_run [OF this ok(1)] obtain t s' where
    run: "fs_setattr fs ino (Some md) s = Some ((ReplyAttr 1 (inode_to_attr (chmod_of (inode_at ?v ?n) (Some md) t)), fs), s')"
      "blocks ?d s' = put_inode ?v (chmod_of (inode_at ?v ?n) (Some md) t)" by auto
  let ?j = "chmod_of (inode_at ?v ?n) (Some md) t"
  have j: "inode_no ?j = ?n" "inode_wf ?j" using inode_at_decode [OF f(4) nv(2)] by (simp_all add: chmod_of_def inode_wf_def)
  have "inode_at (put_inode ?v ?j) ?n = ?j" using inode_at_put_inode [OF f(4) _ j(2) nv(2)] j(1) nv(2) by simp
  moreover have "mode ?j = (mode (inode_at ?v ?n) AND 0xF000) OR ucast (md AND 511)" by (simp add: chmod_of_def)
  ultimately show ?thesis
    using run chmod_step [OF f(1) assms(2), of "Some md" t] by (auto simp: inode_to_attr_def store_step_def)
qed

theorem setattr_changes_mode_witness:
  "\<exists>a s'. fs_setattr fmt_fs 1 (Some 0x9C0) fmt_state = Some ((ReplyAttr 1 a, fmt_fs), s') \<and> attr_perm a = 0x41C0"
proof -
  have m: "mode (inode_at fmt_vol 1) = 0x41ED" using fmt_formatted by (simp add: formatted_def)
  have "live fmt_vol 1" using fmt_dir by (simp add: live_dir_at_def)
  with setattr_changes_mode [OF fmt_reach, of 1 "0x9C0"] m show ?thesis by auto
qed

text \<open>C30. \<open>open\<close> refuses exactly the opening for writing of an inode without any write bit, whoever asks
  for it: the user and group of the request and of the inode do not matter, and reading is never
  refused.\<close>

theorem open_checks_write_bits:
  assumes "disk_ok (fs_disk fs) s" "sb_layout (fs_sb fs)" "on_disk (ucast ino)"
  shows "\<exists>s'. fs_open fs u g ino flags s = Some ((
      if (flags AND 1 \<noteq> 0 \<or> flags AND 2 \<noteq> 0) \<and> mode (inode_at (blocks (fs_disk fs) s) (ucast ino)) AND 146 = 0
      then ReplyError EACCES else ReplyOpened ino 0, fs), s') \<and> blocks (fs_disk fs) s' = blocks (fs_disk fs) s"
proof -
  let ?d = "fs_disk fs" and ?v = "blocks (fs_disk fs) s"
  have "dwp ?d (fs_open fs u g ino flags) (\<lambda>r v. v = ?v \<and> r = (
      if (flags AND 1 \<noteq> 0 \<or> flags AND 2 \<noteq> 0) \<and> mode (inode_at ?v (ucast ino)) AND 146 = 0
      then ReplyError EACCES else ReplyOpened ino 0, fs)) ?v"
    using assms disk_ok_vol by (intro fs_open_awp) auto
  from dwp_run [OF this assms(1)] show ?thesis by auto
qed

theorem open_checks_write_bits_witness:
  "\<exists>s'. fs_open fmt_fs 7 7 1 1 fmt_state = Some ((ReplyOpened 1 0, fmt_fs), s')"
proof -
  have m: "mode (inode_at fmt_vol 1) = 0x41ED" using fmt_formatted by (simp add: formatted_def)
  with open_checks_write_bits [of fmt_fs fmt_state 1 7 7 1] fmt_ok fmt_inv(3) show ?thesis
    by (auto simp: on_disk_def inode_blk_def)
qed

section \<open>Starting\<close>

text \<open>C18. \<open>format_new_fs\<close> succeeds on any image of full size, whatever it contains: afterwards
  blocks 0 to 31 and no others are allocated, 20448 blocks are free, inode 1 is an empty root
  directory that maps \<open>.\<close> and \<open>..\<close> to itself, and no block from 32 on has changed. When no other inode
  was in use in the old bytes, this is a consistent file system that holds only the root.\<close>

theorem format_correct:
  assumes "disk_ok d s"
  shows "\<exists>sb s'. format_new_fs d s = Some (sb, s') \<and> disk_ok d s' \<and> formatted (blocks d s') sb \<and>
    (\<forall>x \<ge> 32. blocks d s' x = blocks d s x) \<and>
    (only_root (blocks d s) \<longrightarrow> fs_ok (blocks d s') sb \<and>
      view (blocks d s') = [1 \<mapsto> Dir [ascii ''.'' \<mapsto> (1, 2), ascii ''..'' \<mapsto> (1, 2)]])"
proof -
  have "dwp d (format_new_fs d) (\<lambda>sb v. formatted v sb \<and> (\<forall>x \<ge> 32. v x = blocks d s x)) (blocks d s)"
    by (rule format_new_fs_awp) auto
  from dwp_run [OF this assms] obtain sb s' where
    1: "format_new_fs d s = Some (sb, s')" "disk_ok d s'" "formatted (blocks d s') sb" "\<forall>x \<ge> 32. blocks d s' x = blocks d s x" by auto
  have "only_root (blocks d s') = only_root (blocks d s)" using 1(4) by (intro only_root_cong) simp
  with 1 fresh_fs_ok [OF 1(3)] show ?thesis by blast
qed

theorem format_correct_witness:
  "\<exists>sb s'. format_new_fs mem_disk mem_blank = Some (sb, s') \<and> fs_ok (blocks mem_disk s') sb"
proof -
  have "zero_from 32 (blocks mem_disk mem_blank)"
    by (simp add: zero_from_def blocks_def disk_image_def mem_blank_def) (auto simp: mem_host_def min_def)
  with format_correct [OF mem_blank_ok] zero_only_root show ?thesis by blast
qed

text \<open>C20. Mounting a file that is empty, shorter than a block or without the magic number succeeds: the
  panic on a damaged superblock does not escape, the file is brought to full size and formatted, and
  its bytes from block 32 on are kept, or zero where it had none. When these bytes hold no inode that
  is in use, the result is a consistent file system with only the root.\<close>

theorem mount_unusable_image:
  assumes "opens_image h path s fd c" "\<not> usable c"
  shows "\<exists>fs s'. fs_mount h path s = Some (fs, s') \<and> disk_ok (fs_disk fs) s' \<and>
    formatted (blocks (fs_disk fs) s') (fs_sb fs) \<and> (\<forall>x \<ge> 32. blocks (fs_disk fs) s' x = image_vol c x) \<and>
    (only_root (image_vol c) \<longrightarrow> fs_ok (blocks (fs_disk fs) s') (fs_sb fs) \<and>
      view (blocks (fs_disk fs) s') = [1 \<mapsto> Dir [ascii ''.'' \<mapsto> (1, 2), ascii ''..'' \<mapsto> (1, 2)]])"
proof -
  from mount_formats [OF assms(1) refl assms(2)] obtain fs s' where
    1: "fs_mount h path s = Some (fs, s')" "disk_ok (fs_disk fs) s'" "formatted (blocks (fs_disk fs) s') (fs_sb fs)"
      "\<forall>x \<ge> 32. blocks (fs_disk fs) s' x = image_vol c x" by auto
  have "only_root (blocks (fs_disk fs) s') = only_root (image_vol c)" using 1(4) by (intro only_root_cong) simp
  with 1 fresh_fs_ok [OF 1(3)] show ?thesis by blast
qed

theorem mount_unusable_image_witness:
  "\<exists>fs s'. fs_mount mem_host ''disk.img'' mem_empty = Some (fs, s') \<and> fs_ok (blocks (fs_disk fs) s') (fs_sb fs)"
  using mount_unusable_image [OF mem_opens [of mem_empty]] zero_only_root [OF image_vol_empty]
  by (auto simp: mem_empty_def usable_def)

text \<open>C21. The program, given a mount point and an image that is new or empty, and a framework loop that
  returns, formats \<open>disk.img\<close> and hands the
  framework a file system from which every run is consistent; its exit status is that of the
  framework's loop. Without a mount point the status is 1 and nothing is touched; started without
  even its own name, the program panics.\<close>

theorem main_serves_new_image:
  assumes "opens_image h ''disk.img'' s fd []"
    "\<And>fs s1. reach (fs, s1) \<Longrightarrow> \<exists>b s2. mount2 fs (last args) s1 = Some (b, s2)"
  shows "if args = [] then main_linux h mount2 args s = None
    else if length args < 2 then main_linux h mount2 args s = Some (1, s)
    else \<exists>fs s1 b s2. reach (fs, s1) \<and> disk_path fs = ''disk.img'' \<and> mount2 fs (last args) s1 = Some (b, s2) \<and>
      main_linux h mount2 args s = Some (if b then 0 else 1, s2)"
proof -
  have "\<not> usable []" by (simp add: usable_def)
  from mount_formats [OF assms(1) refl this] obtain fs s1 where
    m: "fs_mount h ''disk.img'' s = Some (fs, s1)" "disk_path fs = ''disk.img''" "disk_ok (fs_disk fs) s1"
      "formatted (blocks (fs_disk fs) s1) (fs_sb fs)" "\<forall>x \<ge> 32. blocks (fs_disk fs) s1 x = image_vol [] x" by auto
  have "only_root (blocks (fs_disk fs) s1)"
    using only_root_cong [of "blocks (fs_disk fs) s1" "image_vol []"] m(5) zero_only_root [OF image_vol_empty] by simp
  with m(3,4) have r: "reach (fs, s1)" by (rule reach.start)
  from assms(2) [OF this] obtain b s2 where b: "mount2 fs (last args) s1 = Some (b, s2)" by blast
  have "main_linux h mount2 args s = (if args = [] then None
      else if length args < 2 then Some (1, s) else Some (if b then 0 else 1, s2))"
    using m(1) b by (auto simp: main_linux_def Let_def index_def)
  with m(2) r b show ?thesis
    by (cases "args = []", simp, cases "length args < 2", simp, simp only: if_False, intro exI [of _ fs] exI [of _ s1] exI [of _ b] exI [of _ s2]) simp
qed

theorem main_serves_new_image_witness:
  "\<exists>s2. main_linux mem_host (\<lambda>fs mp s. Some (mp = ''/mnt'', s)) [''simplefs'', ''/mnt''] mem_empty = Some (0, s2)"
proof -
  have "opens_image mem_host ''disk.img'' mem_empty 3 []"
    using mem_opens [of mem_empty] by (simp add: mem_empty_def)
  moreover have "\<exists>b s2. (\<lambda>fs mp s. Some (mp = ''/mnt'', s)) fs (last [''simplefs'', ''/mnt'']) s1 = Some (b, s2)"
    if "reach (fs, s1)" for fs :: "mem SimpleFS" and s1 by auto
  ultimately have "if [''simplefs'', ''/mnt''] = []
    then main_linux mem_host (\<lambda>fs mp s. Some (mp = ''/mnt'', s)) [''simplefs'', ''/mnt''] mem_empty = None
    else if length [''simplefs'', ''/mnt''] < 2
    then main_linux mem_host (\<lambda>fs mp s. Some (mp = ''/mnt'', s)) [''simplefs'', ''/mnt''] mem_empty = Some (1, mem_empty)
    else \<exists>fs s1 b s2. reach (fs, s1) \<and> disk_path fs = ''disk.img'' \<and>
      Some (last [''simplefs'', ''/mnt''] = ''/mnt'', s1) = Some (b, s2) \<and>
      main_linux mem_host (\<lambda>fs mp s. Some (mp = ''/mnt'', s)) [''simplefs'', ''/mnt''] mem_empty = Some (if b then 0 else 1, s2)"
    by (rule main_serves_new_image)
  then show ?thesis by auto
qed

text \<open>C40. Formatting does not clear the inode table: when an old or damaged image is formatted, an inode
  that was in use in a block behind the root directory is still reported by \<open>getattr\<close> with its old
  attributes, although nothing in the new tree leads to it.\<close>

theorem reformat_keeps_inodes:
  assumes "disk_ok d s" "on_disk n" "32 \<le> inode_blk n" "nlink (inode_at (blocks d s) n) \<noteq> 0"
  shows "\<exists>sb s1 s2. format_new_fs d s = Some (sb, s1) \<and>
    fs_getattr \<lparr>fs_disk = d, fs_sb = sb, disk_path = path\<rparr> (ucast n) s1 =
      Some ((ReplyAttr 1 (inode_to_attr (inode_at (blocks d s) n)), \<lparr>fs_disk = d, fs_sb = sb, disk_path = path\<rparr>), s2)"
proof -
  let ?v = "blocks d s"
  have "dwp d (format_new_fs d) (\<lambda>sb v. formatted v sb \<and> (\<forall>x \<ge> 32. v x = ?v x)) ?v"
    by (rule format_new_fs_awp) auto
  from dwp_run [OF this assms(1)] obtain sb s1 where
    1: "format_new_fs d s = Some (sb, s1)" "disk_ok d s1" "formatted (blocks d s1) sb" "\<forall>x \<ge> 32. blocks d s1 x = ?v x" by auto
  let ?fs = "\<lparr>fs_disk = d, fs_sb = sb, disk_path = path\<rparr>"
  have at: "inode_at (blocks d s1) n = inode_at ?v n" using 1(4) assms(3) by (intro inode_at_cong) simp
  have nn: "(ucast (ucast n :: u64) :: u32) = n" by (rule word_uint_eqI) (simp add: unsigned_ucast_eq take_bit_word_eq_self)
  have "dwp (fs_disk ?fs) (fs_getattr ?fs (ucast n)) (\<lambda>r v. r = (ReplyAttr 1 (inode_to_attr (inode_at ?v n)), ?fs)) (blocks d s1)"
    using 1(3) assms(2,4) at disk_ok_vol [OF 1(2)]
    by (intro fs_getattr_awp) (simp_all add: nn formatted_def alloc_inv_def)
  then have "dwp d (fs_getattr ?fs (ucast n)) (\<lambda>r v. r = (ReplyAttr 1 (inode_to_attr (inode_at ?v n)), ?fs)) (blocks d s1)"
    by simp
  from dwp_run [OF this 1(2)] 1(1) show ?thesis by auto
qed

theorem reformat_keeps_inodes_witness:
  "\<exists>sb s1 s2. format_new_fs mem_disk file_state = Some (sb, s1) \<and>
    fs_getattr \<lparr>fs_disk = mem_disk, fs_sb = sb, disk_path = ''disk.img''\<rparr> 1000 s1 =
      Some ((ReplyAttr 1 (inode_to_attr mem_inode), \<lparr>fs_disk = mem_disk, fs_sb = sb, disk_path = ''disk.img''\<rparr>), s2)"
  using reformat_keeps_inodes [OF file_state_ok, of 1000 "''disk.img''"] by simp

section \<open>Writing through the handle of a removed file\<close>

lemma write_at_prefix: "length c \<le> length bs \<Longrightarrow> write_at c 0 bs = bs"
  by (simp add: write_at_def overwrite_def)

lemma slot_take: "j < 15 \<Longrightarrow> slot (take 510 buf) j = slot buf j"
  by (simp add: slot_def drop_take min_absorb1)

text \<open>A file of one block, overwritten with a page of zeros.\<close>

lemma zeroed_block:
  assumes post: "write_post L v n 0 (replicate 510 0) v' sb'" and i: "file_inv v sb (inode_at v n)"
    and x: "file_blocks v (inode_at v n) = [x]" and j: "j < 15"
  shows "is_empty (slot (v' x) j)"
proof -
  let ?i = "inode_at v n" and ?i' = "inode_at v' n"
  obtain bs where p: "file_inv v' sb' ?i'" "file_blocks v' ?i' = x # bs"
      "file_contents v' ?i' = write_at (file_contents v ?i) 0 (replicate 510 0)"
    using post x by (auto simp: write_post_def)
  have "unat (block_count ?i) = 1" using arg_cong [OF x, of length] by (simp add: file_blocks_def)
  with i have "unat (isize ?i) \<le> 510" by (simp add: file_inv_def)
  then have c: "file_contents v' ?i' = replicate 510 0"
    using p(3) length_file_contents [OF i] by (simp add: write_at_prefix)
  then have sz: "unat (isize ?i') = 510" using length_file_contents [OF p(1)] by simp
  have "x < 20480" "vol v'" using p(1,2) by (auto simp: file_inv_def file_wf_def file_all_def)
  then have "length (v' x) = 512" by (simp add: vol_def)
  then have "take 510 (v' x) = file_contents v' ?i'"
    by (simp add: file_contents_def file_data_def data_of_def p(2) sz)
  then have "take 510 (v' x) = take 510 (replicate 512 0)" using c by simp
  then show ?thesis using slot_take [OF j, of "v' x"] slot_take [OF j, of "replicate 512 0"] slot_zero_block [OF j] by simp
qed

text \<open>C37. The handle of a removed file stays dangerous: \<open>write\<close> does not check that the inode is in use, and
  \<open>unlink\<close> leaves its block pointers. When the block of a removed file has become the block of a
  directory, a write of one page of zeros through the old inode number succeeds and erases every entry of the
  directory, \<open>.\<close> and \<open>..\<close> included, so that the file system is no longer consistent. The instance is
  a run of \<open>create\<close>, \<open>write\<close>, \<open>unlink\<close> and \<open>mkdir\<close>.\<close>

theorem stale_write_destroys_directory:
  assumes "disk_ok (fs_disk fs) s" "fs_ok (blocks (fs_disk fs) s) (fs_sb fs)"
    "valid_ino (ucast ino)" "nlink (inode_at (blocks (fs_disk fs) s) (ucast ino)) = 0"
    "file_inv (blocks (fs_disk fs) s) (fs_sb fs) (inode_at (blocks (fs_disk fs) s) (ucast ino))"
    "file_blocks (blocks (fs_disk fs) s) (inode_at (blocks (fs_disk fs) s) (ucast ino)) = [unat b]"
    "live_dir_at (blocks (fs_disk fs) s) p" "dir_blocks (inode_at (blocks (fs_disk fs) s) p) = [b]"
  shows "\<exists>fs' s'. fs_write fs ino 0 (replicate 510 0) s = Some ((ReplyWritten 510, fs'), s') \<and>
    view (blocks (fs_disk fs') s') p = Some (Dir Map.empty) \<and>
    \<not> fs_ok (blocks (fs_disk fs') s') (fs_sb fs')"
proof -
  let ?v = "blocks (fs_disk fs) s" and ?n = "ucast ino :: u32"
  let ?i = "inode_at ?v ?n" and ?pi = "inode_at ?v p"
  note f = fs_okD [OF assms(2)]
  have low: "low_use ?v" using f(1) by (simp add: store_ok_def)
  have "live ?v 1" using tree_okD(1) [OF f(2)] by (simp add: dir_node_view)
  with assms(4) have "?n \<noteq> 1" by (auto simp: live_def)
  with assms(3) have n89: "89 \<le> inode_blk ?n" by (auto simp: valid_ino_def inode_blk_def)
  have p: "live ?v p" "is_dir_at ?v p" "valid_ino p" "p \<noteq> ?n"
    using assms(4,7) by (auto simp: live_dir_at_def live_def)
  have bad: "view v' p = Some (Dir Map.empty)" "\<not> fs_ok v' sb'" if w: "write_post 89 ?v ?n 0 (replicate 510 0) v' sb'" for v' sb'
  proof -
    have at: "inode_at v' p = ?pi" using p by (intro write_post_other [OF w low assms(5)]) auto
    then have lp: "live_dir_at v' p" using p by (simp add: live_dir_at_def live_def is_dir_at_def)
    have "dir_entries v' ?pi = []"
      using zeroed_block [OF w assms(5,6)] by (auto simp: dir_entries_def dir_slots_def assms(8) block_slots_def)
    then show e: "view v' p = Some (Dir Map.empty)"
      using view_dir [OF lp] at by (simp add: dir_map_def fun_eq_iff)
    show "\<not> fs_ok v' sb'"
    proof
      assume "fs_ok v' sb'"
      from tree_okD(2) [OF fs_okD(2) [OF this] e] show False by simp
    qed
  qed
  have "unat (block_count ?i) = 1" using arg_cong [OF assms(6), of length] by (simp add: file_blocks_def)
  then have "dwp (fs_disk fs) (fs_write fs ino 0 (replicate 510 0)) (\<lambda>(r, fs') v'. r = ReplyWritten 510 \<and>
      fs_disk fs' = fs_disk fs \<and> view v' p = Some (Dir Map.empty) \<and> \<not> fs_ok v' (fs_sb fs')) ?v"
    using assms(3,5) bad n89 valid_ino_blk(1) [OF assms(3)]
    by (intro fs_write_ok_awp [where L = 89]) (auto simp: grow_need_def)
  from dwp_run [OF this assms(1)] show ?thesis by auto
qed

theorem stale_write_destroys_directory_witness:
  "\<exists>(fs :: mem SimpleFS) s fs' s'. reach (fs, s) \<and> nlink (inode_at (blocks (fs_disk fs) s) 1000) = 0 \<and>
    view (blocks (fs_disk fs) s) 500 = Some (Dir [ascii ''.'' \<mapsto> (500, 2), ascii ''..'' \<mapsto> (1, 2)]) \<and>
    fs_write fs 1000 0 (replicate 510 0) s = Some ((ReplyWritten 510, fs'), s') \<and>
    view (blocks (fs_disk fs') s') 500 = Some (Dir Map.empty)"
proof (rule fmt_stale)
  fix fs :: "mem SimpleFS" and s and b :: u32
  assume 1: "reach (fs, s)" "fs_disk fs = mem_disk" "nlink (inode_at (blocks mem_disk s) 1000) = 0"
    "file_inv (blocks mem_disk s) (fs_sb fs) (inode_at (blocks mem_disk s) 1000)"
    "file_blocks (blocks mem_disk s) (inode_at (blocks mem_disk s) 1000) = [unat b]"
    "live_dir_at (blocks mem_disk s) 500" "dir_blocks (inode_at (blocks mem_disk s) 500) = [b]"
    "view (blocks mem_disk s) 500 = Some (Dir [ascii ''.'' \<mapsto> (500, 2), ascii ''..'' \<mapsto> (1, 2)])"
  have "disk_ok (fs_disk fs) s" "fs_ok (blocks (fs_disk fs) s) (fs_sb fs)" using reach_ok [OF 1(1)] by (auto simp: state_ok_def)
  with 1 have "\<exists>fs' s'. fs_write fs 1000 0 (replicate 510 0) s = Some ((ReplyWritten 510, fs'), s') \<and>
      view (blocks (fs_disk fs') s') 500 = Some (Dir Map.empty) \<and> \<not> fs_ok (blocks (fs_disk fs') s') (fs_sb fs')"
    by (intro stale_write_destroys_directory [where b = b]) (simp_all add: valid_ino_def)
  then obtain fs' s' where "fs_write fs 1000 0 (replicate 510 0) s = Some ((ReplyWritten 510, fs'), s')"
    "view (blocks (fs_disk fs') s') 500 = Some (Dir Map.empty)" by blast
  with 1 show ?thesis by (intro exI [of _ fs] exI [of _ s] exI [of _ fs'] exI [of _ s'] conjI) simp_all
qed

end
