(* ===== verification/Spec2Isabelle.thy ===== *)
theory Spec2Isabelle
  imports Storage_Properties File_Properties File_Limits Run_Properties Handler_Properties
begin

text \<open>
  A verification development of SimpleFS, the FUSE file system in Rust under \<open>src/src\<close>.

  \<^bold>\<open>The program.\<close> SimpleFS keeps a file system in a 10 MB image file of 20480 blocks of 512 bytes:
  block 0 is the superblock, blocks 1 to 5 the bitmap of used blocks, block 6 begins the inode
  table, and 31 is the first data block. \<open>disk.rs\<close> reads and writes blocks with system calls;
  \<open>superblock.rs\<close>, \<open>bitmap.rs\<close>, \<open>inode.rs\<close> and \<open>directory.rs\<close> are the layers above it;
  \<open>fs.rs\<close> formats and mounts an image and implements the handlers of the \<open>fuser::Filesystem\<close>
  trait; \<open>main.rs\<close> mounts \<open>disk.img\<close> and hands the file system to the framework, which calls the
  handlers one after the other. No layer caches anything but the superblock, so the state is the
  bytes of the image, the handle \<open>SimpleFS\<close> and whatever else the host keeps.

  \<^bold>\<open>Theories that model the code.\<close>
  \<^item> \<open>Prelude\<close>: words, Rust slices with their bounds checks, little-endian integers; the
    total-correctness predicate \<open>awp\<close> with its rules, and \<open>panics\<close> for programs that certainly
    panic; the interface \<open>codec\<close>.
  \<^item> \<open>Disk\<close> (\<open>disk.rs\<close>): the operations on blocks over the record \<open>host\<close> of the system calls, a
    parameter; \<open>posix_host\<close> states what the theorems rely on: the documented behaviour of
    \<open>lseek\<close>, \<open>read\<close>, \<open>write\<close>, \<open>fsync\<close>, \<open>fstat\<close>, \<open>ftruncate\<close> and the clock on a regular file.
    \<open>blocks d s\<close> is the image as a function from block numbers, a \<open>volume\<close>; the interface
    \<open>block_device\<close> is interpreted here.
  \<^item> \<open>Superblock\<close> (\<open>superblock.rs\<close>), \<open>Bitmap\<close> (\<open>bitmap.rs\<close>, interface \<open>block_allocator\<close>),
    \<open>Inode_Table\<close> (\<open>inode.rs\<close>), \<open>Directory\<close> (\<open>directory.rs\<close>, interface \<open>name_map\<close>), with the encodings
    as instances of \<open>codec\<close>.
  \<^item> \<open>FileSystem\<close> (\<open>fs.rs\<close> and the Linux \<open>main\<close>): every handler, formatting and mounting.
  \<^item> \<open>Memory_Host\<close>: a host in memory that satisfies \<open>posix_host\<close>; the instances of the theorems
    are on it. \<open>File_Image\<close>, \<open>Formatted_Image\<close>, \<open>Crowded_Root\<close> and \<open>Removed_File\<close> hold the images
    they use: a nearly full disk, the formatted disk with the first steps of a run, a run that fills the
    root directory, a run after which a directory has the block of a removed file.

  \<^bold>\<open>How the code is read.\<close> A function that takes the disk is a function of the host's state \<open>'s\<close>
  with a result of type \<open>('a \<times> 's) option\<close>; \<open>None\<close> is a panic. A parameter passed as \<open>&mut\<close> is
  returned updated, a handler returns its reply as a value of the datatype \<open>reply\<close>, and \<open>Err\<close> is
  \<open>Inl\<close>. Integers have their Rust widths and wrap around as in a release build; \<open>usize\<close> is \<open>nat\<close>
  where no operation can wrap and \<open>u64\<close> where one can. \<open>for\<close> loops are recursions over the list of
  their indices, the scans for an inode number and the growing of a file are \<open>function\<close>s with
  their termination proofs. The copying loops of \<open>read\<close> and \<open>write\<close> take fuel; the number of
  bytes that remain is enough, since each round copies at least one: \<open>data_loops_terminate\<close>
  shows that the loops then equal total recursions without fuel. The directory buffer of the framework
  (\<open>ReplyDirectory::add\<close>) and \<open>fuser::mount2\<close> are parameters of the functions that call them.

  \<^bold>\<open>Theories that verify it.\<close>
  \<^item> \<open>Storage_Properties\<close>: the storage layers one by one: what the device, the superblock, the
    allocator, the inode table and the directories promise, and mounting.
  \<^item> \<open>File_Content\<close>, \<open>File_Handlers\<close>, \<open>File_Properties\<close>: the contents of a file as a list of
    bytes; \<open>read\<close> and \<open>write\<close> refine \<open>read_at\<close> and \<open>write_at\<close> on it, and their loops end.
    \<open>File_Limits\<close>: the limits of \<open>write\<close>, a full disk (the reply \<open>ENOSPC\<close>, and the panic when the
    block of indirect pointers cannot be had), and what happens when a file grows into the
    unprotected part of the inode table.
  \<^item> \<open>Consistency\<close>: the invariant \<open>store_ok\<close> of a whole image (each live inode is a
    well-formed directory or file, no block has two owners or is used without one) and the lemma
    \<open>store_ok_frame\<close> for an operation that touches few inodes. \<open>Handlers\<close> and \<open>Namespace\<close> derive
    for each handler that it keeps the invariant and what it does to the \<open>view\<close>, the map from live
    inode numbers to directories and files.
  \<^item> \<open>Dir_Tree\<close>: such maps as trees of names: \<open>tree_ok\<close>, preserved by each kind of change, and the
    path from the root to every directory.
  \<^item> \<open>Requests\<close>: \<open>handle\<close> dispatches a request to its handler, \<open>ok_request\<close> names the admissible
    requests, and \<open>abs_step\<close> specifies which reply and which change of the tree each may have;
    \<open>Attributes\<close> adds \<open>meta_step\<close>, the same for modes, owners, link counts, sizes and block counts.
    Each of the eleven handlers is shown to meet both; \<open>Listing\<close> has the loop of \<open>readdir\<close>, which
    feeds the entries to the framework's buffer. \<open>Paths\<close> treats \<open>path_resolve\<close>.
  \<^item> \<open>Runs\<close>: runs of a step relation with the interfaces \<open>stable_steps\<close>, \<open>simulation\<close> and
    \<open>det_steps\<close>. \<open>Server\<close> interprets them: \<open>serves\<close> is one step of the server on an admissible
    request, \<open>reach\<close> its states over such requests and restarts from a formatted image on which no
    inode but the root is in use (\<open>only_root\<close>), \<open>spec_step\<close> a step of the specification on the tree with its attributes, which is
    deterministic up to times and the order of listings (\<open>alike\<close> relates two replies to one request);
    \<open>later\<close> relates states between which a file is neither written nor removed.
    \<open>Sizes\<close> proves on the specification alone that sizes and block counts agree (\<open>sized\<close>), which the
    refinement carries over to the images.
  \<^item> \<open>Run_Properties\<close>: the theorems on all reachable states: consistency, refinement of the
    specification by whole runs, an answer to every admissible request, indistinguishability of states with
    the same tree and attributes, one owner for each used block, a rooted tree, block counts that
    fit the sizes, written data that survive other requests and restarts.
  \<^item> \<open>Handler_Properties\<close>: theorems on single handlers, on formatting and mounting (what they leave is
    consistent when the old bytes from block 32 on, \<open>image_vol\<close>, hold no inode in use) and on the start of
    the program.

  \<^bold>\<open>Bounds.\<close> The inode numbers that \<open>create\<close> and \<open>mkdir\<close> choose lie in blocks from 89 on that the
  bitmap reports free (\<open>new_inodes_unprotected\<close>), so the code is correct only as long as no data
  block from there on is taken: after 57 allocations on a fresh image the next one is block 89
  (\<open>collision_after_57_blocks\<close>), and from then on a growing file destroys inodes
  (\<open>growth_destroys_inode\<close>). The invariant therefore has \<open>low_use\<close>, that used blocks lie below 89,
  and \<open>ok_request\<close> admits a request that allocates while enough of the blocks below 89 remain
  (\<open>room v 89\<close>). It further asks for the numbers of live inodes (for \<open>getattr\<close> any number the code
  can choose), names to create of at most 28 bytes, offsets that are not negative and below \<open>510 * 2 ^ 32\<close>, no \<open>.\<close> or \<open>..\<close> to remove,
  and for \<open>mkdir\<close> a directory with fewer than its 150 entries. So it leaves out requests
  that the kernel can send: longer names, reads and writes through the handle of a removed file, the
  \<open>mkdir\<close> in a full directory, and every request that has to use a block from 89 on.
  Outside of it \<open>long_name_truncated\<close>, \<open>write_offset_wraps\<close>, \<open>write_panics_last_block\<close>,
  \<open>mkdir_panics_full_directory\<close>, \<open>mount_short_image_panics\<close>, \<open>reformat_keeps_inodes\<close> and
  \<open>stale_write_destroys_directory\<close> show what the code does. There is no invariant for images that
  use blocks from 89 on: the search for an inode number then reads data blocks as inodes, so
  what it finds depends on the contents of files.

  \<^bold>\<open>Not modelled.\<close> The \<open>main\<close> of other platforms and all console output; the older
  \<open>src/simplefs.c\<close>, which is no part of the Rust program; build files. The overflow panics of a
  debug build. A failing system call is modelled (it panics as in the code), but under
  \<open>posix_host\<close> none fails; crashes of the machine between two writes are not considered. The
  arguments that the handlers ignore (file handles, flags, umask, owner and times in \<open>setattr\<close>)
  are left out.

  \<^bold>\<open>Outside the specification.\<close> \<open>spec_step\<close> leaves open the times in the attributes and the order
  in which \<open>readdir\<close> lists a directory; \<open>readdir_lists_directory\<close> states that listing exactly.
\<close>

end
